(* ===== verification/Prelude.thy ===== *)
theory Prelude
  imports Main "HOL-Library.AList" "HOL-Library.Word" "HOL-Library.Char_ord"
    "HOL-Library.List_Lexorder"
begin

unbundle bit_operations_syntax

text \<open>
  Shared vocabulary of the development: JavaScript numbers and ASCII hexadecimal strings, the
  result type of code that may throw, a state-and-exception monad for asynchronous code with its
  Hoare triples, JavaScript objects with string keys as association lists, and reachability of
  transition systems with the locale through which every component states its invariant.
\<close>

named_theorems triple_intro \<open>rules that decompose a triple along the program\<close>
named_theorems obj_simps \<open>lookup after an update of a JavaScript object\<close>

section \<open>Numbers\<close>

text \<open>
  A JavaScript number that the code uses as an integer is an \<^typ>\<open>int\<close>. The guard
  \<^verbatim>\<open>Number.isSafeInteger\<close> then is the range check below.
\<close>

definition safe_integer :: "int \<Rightarrow> bool" where
  "safe_integer n \<longleftrightarrow> \<bar>n\<bar> \<le> 9007199254740991"

text \<open>The helper \<^verbatim>\<open>integer(n, min)\<close> that most modules declare.\<close>

definition integer_min :: "int \<Rightarrow> int \<Rightarrow> bool" where
  "integer_min lo n \<longleftrightarrow> safe_integer n \<and> lo \<le> n"

abbreviation integer0 :: "int \<Rightarrow> bool" where
  "integer0 \<equiv> integer_min 0"

lemma integer_minD: "integer_min lo n \<Longrightarrow> lo \<le> n \<and> n \<le> 9007199254740991"
  by (auto simp: integer_min_def safe_integer_def)

section \<open>ASCII strings\<close>

text \<open>An optional string in a boolean position: \<^verbatim>\<open>undefined\<close> and the empty string are false.\<close>

definition truthy :: "string option \<Rightarrow> bool" where
  "truthy x \<longleftrightarrow> x \<noteq> None \<and> x \<noteq> Some []"

definition lower_char :: "char \<Rightarrow> char" where
  "lower_char c = (let n = of_char c :: nat in if 65 \<le> n \<and> n \<le> 90 then char_of (n + 32) else c)"

definition to_lower :: "string \<Rightarrow> string" where
  "to_lower s = map lower_char s"

definition upper_hex_digit :: "char \<Rightarrow> bool" where
  "upper_hex_digit c \<longleftrightarrow> c \<in> set ''ABCDEF''"

definition lower_hex_digit :: "char \<Rightarrow> bool" where
  "lower_hex_digit c \<longleftrightarrow> c \<in> set ''0123456789abcdef''"

definition hex_digit :: "char \<Rightarrow> bool" where
  "hex_digit c \<longleftrightarrow> lower_hex_digit c \<or> upper_hex_digit c"

text \<open>The character tests on the bits of a character, for evaluation.\<close>

lemma lower_hex_digit_bits [code]:
  "lower_hex_digit (Char b0 b1 b2 b3 b4 b5 b6 b7) \<longleftrightarrow> \<not> b7 \<and> b5 \<and>
     (if b6 then \<not> b4 \<and> \<not> b3 \<and> (b0 \<or> b1 \<or> b2) \<and> \<not> (b0 \<and> b1 \<and> b2) else b4 \<and> \<not> (b3 \<and> (b1 \<or> b2)))"
  by (cases b0; cases b1; cases b2; cases b3; simp add: lower_hex_digit_def; blast)

lemma upper_hex_digit_bits [code]:
  "upper_hex_digit (Char b0 b1 b2 b3 b4 b5 b6 b7) \<longleftrightarrow>
     \<not> b7 \<and> b6 \<and> \<not> b5 \<and> \<not> b4 \<and> \<not> b3 \<and> (b0 \<or> b1 \<or> b2) \<and> \<not> (b0 \<and> b1 \<and> b2)"
  by (cases b0; cases b1; cases b2; cases b3; simp add: upper_hex_digit_def; blast)

lemma lower_char_bits [code]:
  "lower_char (Char b0 b1 b2 b3 b4 b5 b6 b7) =
     Char b0 b1 b2 b3 b4
       (b5 \<or> (\<not> b7 \<and> b6 \<and> (b0 \<or> b1 \<or> b2 \<or> b3 \<or> b4) \<and> \<not> (b4 \<and> b3 \<and> (b2 \<or> (b0 \<and> b1))))) b6 b7"
  by (cases b0; cases b1; cases b2; cases b3; cases b4; cases b5; cases b6; cases b7;
      simp add: lower_char_def Let_def char_of_def bit_0)

definition alnum_char :: "char \<Rightarrow> bool" where
  "alnum_char c = (let n = of_char c :: nat in 48 \<le> n \<and> n \<le> 57 \<or> 65 \<le> n \<and> n \<le> 90 \<or> 97 \<le> n \<and> n \<le> 122)"

definition upper_char :: "char \<Rightarrow> bool" where
  "upper_char c = (let n = of_char c :: nat in 65 \<le> n \<and> n \<le> 90)"

lemma alnum_char_bits [code]:
  "alnum_char (Char b0 b1 b2 b3 b4 b5 b6 b7) \<longleftrightarrow> \<not> b7 \<and>
     (if b6 then (b0 \<or> b1 \<or> b2 \<or> b3 \<or> b4) \<and> \<not> (b4 \<and> b3 \<and> (b2 \<or> (b0 \<and> b1)))
      else b5 \<and> b4 \<and> \<not> (b3 \<and> (b1 \<or> b2)))"
  by (cases b0; cases b1; cases b2; cases b3; cases b4; cases b5; cases b6; cases b7; simp add: alnum_char_def Let_def)

lemma upper_char_bits [code]:
  "upper_char (Char b0 b1 b2 b3 b4 b5 b6 b7) \<longleftrightarrow>
     \<not> b7 \<and> b6 \<and> \<not> b5 \<and> (b0 \<or> b1 \<or> b2 \<or> b3 \<or> b4) \<and> \<not> (b4 \<and> b3 \<and> (b2 \<or> (b0 \<and> b1)))"
  by (cases b0; cases b1; cases b2; cases b3; cases b4; cases b5; cases b6; cases b7; simp add: upper_char_def Let_def)

text \<open>The regular expression \<^verbatim>\<open>/^[A-Za-z0-9][A-Za-z0-9...]{lo,hi}$/\<close> with further characters in the tail.\<close>

definition label_ok :: "string \<Rightarrow> nat \<Rightarrow> nat \<Rightarrow> string \<Rightarrow> bool" where
  "label_ok extra lo hi s \<longleftrightarrow> (case s of [] \<Rightarrow> False
     | c # r \<Rightarrow> alnum_char c \<and> lo \<le> length r \<and> length r \<le> hi \<and> list_all (\<lambda>x. alnum_char x \<or> x \<in> set extra) r)"

text \<open>\<^verbatim>\<open>[...new Set(xs)]\<close> keeps the first occurrence of each element.\<close>

fun uniq_from :: "'a list \<Rightarrow> 'a list \<Rightarrow> 'a list" where
  "uniq_from seen [] = []"
| "uniq_from seen (x # xs) = (if x \<in> set seen then uniq_from seen xs else x # uniq_from (x # seen) xs)"

abbreviation uniq :: "'a list \<Rightarrow> 'a list" where
  "uniq \<equiv> uniq_from []"

lemma set_uniq_from: "set (uniq_from seen xs) = set xs - set seen"
  by (induction seen xs rule: uniq_from.induct) auto

fun join :: "string \<Rightarrow> string list \<Rightarrow> string" where
  "join sep [] = []"
| "join sep [x] = x"
| "join sep (x # y # r) = x @ sep @ join sep (y # r)"

text \<open>The regular expressions \<^verbatim>\<open>/^0x[0-9a-fA-F]{n}$/\<close> and \<^verbatim>\<open>/^0x[0-9a-f]{n}$/\<close>.\<close>

definition is_hex :: "nat \<Rightarrow> string \<Rightarrow> bool" where
  "is_hex n s \<longleftrightarrow> length s = n + 2 \<and> take 2 s = ''0x'' \<and> list_all hex_digit (drop 2 s)"

definition is_lower_hex :: "nat \<Rightarrow> string \<Rightarrow> bool" where
  "is_lower_hex n s \<longleftrightarrow> length s = n + 2 \<and> take 2 s = ''0x'' \<and> list_all lower_hex_digit (drop 2 s)"

abbreviation is_hash :: "string \<Rightarrow> bool" where
  "is_hash \<equiv> is_hex 64"

lemma length_to_lower [simp]: "length (to_lower s) = length s"
  by (simp add: to_lower_def)

lemma to_lower_append [simp]: "to_lower (s @ t) = to_lower s @ to_lower t"
  by (simp add: to_lower_def)

lemma to_lower_drop: "to_lower (drop n s) = drop n (to_lower s)"
  by (simp add: to_lower_def drop_map)

lemma lower_hex_digit_fixed:
  assumes "lower_hex_digit c"
  shows "lower_char c = c"
proof -
  have "\<forall>c \<in> set ''0123456789abcdef''. lower_char c = c" by code_simp
  then show ?thesis using assms by (simp only: lower_hex_digit_def)
qed

lemma hex_digit_lower:
  assumes "hex_digit c"
  shows "lower_hex_digit (lower_char c)"
proof -
  have "\<forall>c \<in> set (''0123456789abcdef'' @ ''ABCDEF''). lower_hex_digit (lower_char c)" by code_simp
  then show ?thesis
    using assms by (simp only: hex_digit_def lower_hex_digit_def upper_hex_digit_def set_append Un_iff)
qed

lemma to_lower_fixed: "list_all lower_hex_digit s \<Longrightarrow> to_lower s = s"
  by (induction s) (auto simp: to_lower_def lower_hex_digit_fixed)

lemma list_all_lower: "list_all hex_digit s \<Longrightarrow> list_all lower_hex_digit (to_lower s)"
  by (induction s) (auto simp: to_lower_def hex_digit_lower)

lemma is_lower_hex_is_hex: "is_lower_hex n s \<Longrightarrow> is_hex n s"
  by (auto simp: is_lower_hex_def is_hex_def hex_digit_def list_all_iff)

lemma is_lower_hex_split:
  assumes "is_lower_hex n s"
  shows "s = ''0x'' @ drop 2 s"
  using assms append_take_drop_id [of 2 s] by (simp add: is_lower_hex_def)

lemma is_lower_hex_fixed:
  assumes "is_lower_hex n s"
  shows "to_lower s = s"
proof -
  have "to_lower (''0x'' @ drop 2 s) = ''0x'' @ drop 2 s"
    using assms to_lower_fixed [of "drop 2 s"]
    by (simp add: is_lower_hex_def) (simp add: to_lower_def lower_char_def)
  then show ?thesis using is_lower_hex_split [OF assms] by simp
qed

lemma is_hex_to_lower:
  assumes "is_hex n s"
  shows "is_lower_hex n (to_lower s)"
proof -
  have s: "s = ''0x'' @ drop 2 s"
    using assms append_take_drop_id [of 2 s] by (simp add: is_hex_def)
  have "to_lower s = ''0x'' @ to_lower (drop 2 s)"
    by (subst s) (simp add: to_lower_def lower_char_def)
  then show ?thesis
    using assms list_all_lower [of "drop 2 s"] by (simp add: is_hex_def is_lower_hex_def)
qed

section \<open>Results and asynchronous code\<close>

text \<open>
  Code that may throw returns \<open>'e + 'a\<close>. Asynchronous code over a shared state \<open>'s\<close> is a
  function from the state to a result and the state it leaves behind: like a JavaScript
  exception, \<^term>\<open>Inl e\<close> does not undo the writes made before it.
\<close>

type_synonym ('s, 'e, 'a) io = "'s \<Rightarrow> ('e + 'a) \<times> 's"

definition ret :: "'a \<Rightarrow> ('s, 'e, 'a) io" where
  "ret x = (\<lambda>s. (Inr x, s))"

definition throw :: "'e \<Rightarrow> ('s, 'e, 'a) io" where
  "throw e = (\<lambda>s. (Inl e, s))"

definition seq :: "('s, 'e, 'a) io \<Rightarrow> ('a \<Rightarrow> ('s, 'e, 'b) io) \<Rightarrow> ('s, 'e, 'b) io" where
  "seq m f = (\<lambda>s. case m s of (Inl e, t) \<Rightarrow> (Inl e, t) | (Inr x, t) \<Rightarrow> f x t)"

definition try_catch :: "('s, 'e, 'a) io \<Rightarrow> ('e \<Rightarrow> ('s, 'e, 'a) io) \<Rightarrow> ('s, 'e, 'a) io" where
  "try_catch m h = (\<lambda>s. case m s of (Inl e, t) \<Rightarrow> h e t | (Inr x, t) \<Rightarrow> (Inr x, t))"

text \<open>A \<^verbatim>\<open>finally\<close> block whose own code cannot throw.\<close>

definition finally_do :: "('s, 'e, 'a) io \<Rightarrow> ('s \<Rightarrow> 's) \<Rightarrow> ('s, 'e, 'a) io" where
  "finally_do m g = (\<lambda>s. case m s of (r, t) \<Rightarrow> (r, g t))"

definition guard :: "bool \<Rightarrow> 'e \<Rightarrow> ('s, 'e, unit) io" where
  "guard b e = (if b then ret () else throw e)"

definition gets :: "('s \<Rightarrow> 'a) \<Rightarrow> ('s, 'e, 'a) io" where
  "gets f = (\<lambda>s. (Inr (f s), s))"

text \<open>Errors in a \<^verbatim>\<open>map\<close>: the first one is thrown.\<close>

fun map_err :: "('a \<Rightarrow> 'e + 'b) \<Rightarrow> 'a list \<Rightarrow> 'e + 'b list" where
  "map_err f [] = Inr []"
| "map_err f (x # xs) = (case f x of Inl e \<Rightarrow> Inl e
     | Inr y \<Rightarrow> (case map_err f xs of Inl e \<Rightarrow> Inl e | Inr ys \<Rightarrow> Inr (y # ys)))"

lemma map_err_cong [fundef_cong]:
  "xs = ys \<Longrightarrow> (\<And>x. x \<in> set ys \<Longrightarrow> f x = g x) \<Longrightarrow> map_err f xs = map_err g ys"
  by (induction xs arbitrary: ys) (auto split: sum.splits)

lemma map_err_nth:
  "map_err f xs = Inr ys \<Longrightarrow> length ys = length xs \<and> (\<forall>i < length xs. f (xs ! i) = Inr (ys ! i))"
  by (induction xs arbitrary: ys) (auto simp: nth_Cons split: sum.splits nat.splits)

lemma map_err_total: "(\<And>x. x \<in> set xs \<Longrightarrow> \<exists>y. f x = Inr y) \<Longrightarrow> \<exists>ys. map_err f xs = Inr ys"
proof (induction xs)
  case (Cons x xs)
  obtain y where y: "f x = Inr y" using Cons.prems [of x] by auto
  obtain ys where "map_err f xs = Inr ys" using Cons.IH Cons.prems by auto
  with y show ?case by simp
qed simp

text \<open>Partial-correctness triples with one postcondition per way of leaving the code.\<close>

definition triple :: "('s \<Rightarrow> bool) \<Rightarrow> ('s, 'e, 'a) io \<Rightarrow> ('a \<Rightarrow> 's \<Rightarrow> bool) \<Rightarrow> ('e \<Rightarrow> 's \<Rightarrow> bool) \<Rightarrow> bool" where
  "triple P m Q E \<longleftrightarrow>
     (\<forall>s. P s \<longrightarrow> (case m s of (Inl e, t) \<Rightarrow> E e t | (Inr x, t) \<Rightarrow> Q x t))"

abbreviation keeps :: "('s \<Rightarrow> bool) \<Rightarrow> ('s, 'e, 'a) io \<Rightarrow> bool" where
  "keeps P m \<equiv> triple P m (\<lambda>_. P) (\<lambda>_. P)"

lemma tripleI:
  assumes "\<And>s e t. P s \<Longrightarrow> m s = (Inl e, t) \<Longrightarrow> E e t"
    and "\<And>s x t. P s \<Longrightarrow> m s = (Inr x, t) \<Longrightarrow> Q x t"
  shows "triple P m Q E"
  using assms by (auto simp: triple_def split: prod.splits sum.splits)

lemma tripleD_Inr: "triple P m Q E \<Longrightarrow> P s \<Longrightarrow> m s = (Inr x, t) \<Longrightarrow> Q x t"
  by (force simp: triple_def)

lemma tripleD_Inl: "triple P m Q E \<Longrightarrow> P s \<Longrightarrow> m s = (Inl e, t) \<Longrightarrow> E e t"
  by (force simp: triple_def)

lemma keepsD:
  assumes "keeps P m" and "P s"
  shows "P (snd (m s))"
proof (cases "m s")
  case (Pair r t)
  with assms show ?thesis by (cases r) (auto dest: tripleD_Inr tripleD_Inl)
qed

lemma triple_cases:
  "triple P m Q E \<longleftrightarrow>
     (\<forall>s. P s \<longrightarrow> (\<forall>e t. m s = (Inl e, t) \<longrightarrow> E e t) \<and> (\<forall>x t. m s = (Inr x, t) \<longrightarrow> Q x t))"
  by (auto simp: triple_def split: prod.split sum.split)

lemma keeps_snd: "(\<And>s. P s \<Longrightarrow> P (snd (m s))) \<Longrightarrow> keeps P m"
  unfolding triple_cases by (metis snd_conv)

lemma triple_ret [triple_intro]: "(\<And>s. P s \<Longrightarrow> Q x s) \<Longrightarrow> triple P (ret x) Q E"
  by (simp add: triple_def ret_def)

lemma triple_throw [triple_intro]: "(\<And>s. P s \<Longrightarrow> E e s) \<Longrightarrow> triple P (throw e) Q E"
  by (simp add: triple_def throw_def)

lemma triple_seq [triple_intro]:
  "triple P m R E \<Longrightarrow> (\<And>x. triple (R x) (f x) Q E) \<Longrightarrow> triple P (seq m f) Q E"
  unfolding triple_cases seq_def by (auto split: prod.splits sum.splits)

lemma triple_try [triple_intro]:
  "triple P m Q R \<Longrightarrow> (\<And>e. triple (R e) (h e) Q E) \<Longrightarrow> triple P (try_catch m h) Q E"
  unfolding triple_cases try_catch_def by (auto split: prod.splits sum.splits)

lemma triple_guard [triple_intro]:
  "(\<And>s. P s \<Longrightarrow> b \<Longrightarrow> Q () s) \<Longrightarrow> (\<And>s. P s \<Longrightarrow> \<not> b \<Longrightarrow> E e s) \<Longrightarrow> triple P (guard b e) Q E"
  by (simp add: guard_def triple_def ret_def throw_def)

lemma triple_gets [triple_intro]: "(\<And>s. P s \<Longrightarrow> Q (f s) s) \<Longrightarrow> triple P (gets f) Q E"
  by (simp add: triple_def gets_def)

text \<open>Two derived rules that keep a guard or the value read as a fact of the rest of the code.\<close>

lemma triple_guard_seq:
  "(b \<Longrightarrow> triple P (f ()) Q E) \<Longrightarrow> (\<And>s. \<not> b \<Longrightarrow> P s \<Longrightarrow> E e s) \<Longrightarrow> triple P (seq (guard b e) f) Q E"
  by (cases b) (simp_all add: guard_def triple_def seq_def ret_def throw_def)

lemma triple_gets_seq:
  "(\<And>x. triple (\<lambda>s. P s \<and> g s = x) (f x) Q E) \<Longrightarrow> triple P (seq (gets g) f) Q E"
  by (simp add: gets_def triple_def seq_def)

lemma triple_if [triple_intro]:
  "(b \<Longrightarrow> triple P m Q E) \<Longrightarrow> (\<not> b \<Longrightarrow> triple P m' Q E) \<Longrightarrow> triple P (if b then m else m') Q E"
  by simp

lemma triple_option [triple_intro]:
  "(x = None \<Longrightarrow> triple P m Q E) \<Longrightarrow> (\<And>y. x = Some y \<Longrightarrow> triple P (f y) Q E)
     \<Longrightarrow> triple P (case x of None \<Rightarrow> m | Some y \<Rightarrow> f y) Q E"
  by (cases x) auto

lemma triple_finally [triple_intro]:
  "triple P m (\<lambda>x s. Q x (g s)) (\<lambda>e s. E e (g s)) \<Longrightarrow> triple P (finally_do m g) Q E"
  unfolding triple_cases finally_do_def by (auto split: prod.splits sum.splits)

lemma triple_weaken:
  "triple P m Q E \<Longrightarrow> (\<And>s. P' s \<Longrightarrow> P s) \<Longrightarrow> (\<And>x s. Q x s \<Longrightarrow> Q' x s)
     \<Longrightarrow> (\<And>e s. E e s \<Longrightarrow> E' e s) \<Longrightarrow> triple P' m Q' E'"
  unfolding triple_cases by blast

lemmas io_defs = ret_def throw_def seq_def try_catch_def finally_do_def guard_def gets_def

text \<open>Symbolic execution of the monad: the result of a program on a given state.\<close>

lemma io_run [simp]:
  "seq (gets g) f s = f (g s) s"
  "seq (throw e) f s = (Inl e, s)"
  by (simp_all add: io_defs)

lemma seq_ret [simp]: "seq (ret x) f = f x"
  by (rule ext) (simp add: io_defs)

lemma seq_assoc: "seq (seq m f) g = seq m (\<lambda>x. seq (f x) g)"
  by (rule ext) (auto simp: seq_def split: prod.split sum.split)

lemma io_run_guard [simp]:
  "seq (guard b e) f s = (if b then f () s else (Inl e, s))"
  "guard b e s = (if b then (Inr (), s) else (Inl e, s))"
  by (simp_all add: io_defs)

lemma io_run_atom [simp]: "ret x s = (Inr x, s)" "throw e s = (Inl e, s)" "gets g s = (Inr (g s), s)"
  by (simp_all add: io_defs)

lemma seq_Inr: "seq m f s = (Inr y, u) \<longleftrightarrow> (\<exists>x t. m s = (Inr x, t) \<and> f x t = (Inr y, u))"
  by (auto simp: seq_def split: prod.splits sum.splits)

lemma seq_last [simp]:
  "snd (seq m (\<lambda>x. ret (g x)) s) = snd (m s)" "snd (seq m (\<lambda>x. throw (h x)) s) = snd (m s)"
  by (simp_all add: io_defs split: prod.split sum.split)

lemma find_SomeD: "find P xs = Some x \<Longrightarrow> x \<in> set xs \<and> P x"
  by (induction xs) (auto split: if_splits)

lemma find_total: "x \<in> set xs \<Longrightarrow> P x \<Longrightarrow> \<exists>y. find P xs = Some y"
  by (induction xs) auto

section \<open>JavaScript objects\<close>

text \<open>
  A \<^verbatim>\<open>Record<string, V>\<close> or a \<^verbatim>\<open>Map\<close> keeps its keys in insertion order: an association
  list with distinct keys, where an assignment replaces in place or appends.
\<close>

type_synonym 'v obj = "(string \<times> 'v) list"

definition obj_wf :: "('k \<times> 'v) list \<Rightarrow> bool" where
  "obj_wf m \<longleftrightarrow> distinct (map fst m)"

abbreviation obj_get :: "('k \<times> 'v) list \<Rightarrow> 'k \<Rightarrow> 'v option" where
  "obj_get \<equiv> map_of"

abbreviation obj_put :: "'k \<Rightarrow> 'v \<Rightarrow> ('k \<times> 'v) list \<Rightarrow> ('k \<times> 'v) list" where
  "obj_put \<equiv> AList.update"

lemma obj_get_put [obj_simps]: "obj_get (obj_put k v m) k' = (if k' = k then Some v else obj_get m k')"
  by (simp add: update_conv')

lemma obj_get_delete [obj_simps]:
  "obj_get (AList.delete k m) k' = (if k' = k then None else obj_get m k')"
  by (simp add: delete_conv')

lemma obj_wf_put [simp]: "obj_wf m \<Longrightarrow> obj_wf (obj_put k v m)"
  by (simp add: obj_wf_def distinct_update)

lemma obj_wf_Nil [simp]: "obj_wf []"
  by (simp add: obj_wf_def)

lemma obj_values_get:
  "obj_wf m \<Longrightarrow> v \<in> snd ` set m \<longleftrightarrow> (\<exists>k. obj_get m k = Some v)"
  by (force simp: obj_wf_def map_of_eq_Some_iff image_iff)

section \<open>Reachable states\<close>

inductive reachable :: "('s \<Rightarrow> bool) \<Rightarrow> ('s \<Rightarrow> 's \<Rightarrow> bool) \<Rightarrow> 's \<Rightarrow> bool"
  for init :: "'s \<Rightarrow> bool" and step :: "'s \<Rightarrow> 's \<Rightarrow> bool" where
  reachable_init: "init s \<Longrightarrow> reachable init step s"
| reachable_step: "reachable init step s \<Longrightarrow> step s t \<Longrightarrow> reachable init step t"

text \<open>
  The contract of a component with state: an invariant that holds initially and that every step
  keeps. Its one consequence is proved here once and instantiated for every component.
\<close>

locale inductive_invariant =
  fixes init :: "'s \<Rightarrow> bool" and step :: "'s \<Rightarrow> 's \<Rightarrow> bool" and inv :: "'s \<Rightarrow> bool"
  assumes inv_init: "init s \<Longrightarrow> inv s"
    and inv_step: "inv s \<Longrightarrow> step s t \<Longrightarrow> inv t"
begin

lemma reachable_inv: "reachable init step s \<Longrightarrow> inv s"
  by (induction rule: reachable.induct) (auto intro: inv_init inv_step)

lemma run_inv: "step\<^sup>*\<^sup>* s t \<Longrightarrow> inv s \<Longrightarrow> inv t"
  by (induction rule: rtranclp_induct) (auto intro: inv_step)

end

text \<open>
  The contract between a detailed component and its abstract specification: a relation between
  their states that holds initially and that every detailed step keeps, by no or by one abstract
  step. Whatever holds of all reachable abstract states then holds of the detailed ones.
\<close>

locale forward_simulation =
  fixes cinit :: "'c \<Rightarrow> bool" and cstep :: "'c \<Rightarrow> 'c \<Rightarrow> bool"
    and ainit :: "'a \<Rightarrow> bool" and astep :: "'a \<Rightarrow> 'a \<Rightarrow> bool"
    and rel :: "'c \<Rightarrow> 'a \<Rightarrow> bool"
  assumes sim_init: "cinit c \<Longrightarrow> \<exists>a. rel c a \<and> ainit a"
    and sim_step: "rel c a \<Longrightarrow> cstep c c' \<Longrightarrow> \<exists>a'. rel c' a' \<and> (a' = a \<or> astep a a')"
begin

lemma simulated: "reachable cinit cstep c \<Longrightarrow> \<exists>a. rel c a \<and> reachable ainit astep a"
proof (induction rule: reachable.induct)
  case (reachable_init c)
  then show ?case using sim_init by (blast intro: reachable.reachable_init)
next
  case (reachable_step c c')
  then obtain a where a: "rel c a" "reachable ainit astep a" by blast
  from sim_step [OF a(1) reachable_step.hyps(2)] a(2) show ?case by (blast intro: reachable.reachable_step)
qed

lemma run_simulated: "cstep\<^sup>*\<^sup>* c c' \<Longrightarrow> rel c a \<Longrightarrow> \<exists>a'. rel c' a' \<and> astep\<^sup>*\<^sup>* a a'"
proof (induction rule: rtranclp_induct)
  case (step y z)
  then obtain b where b: "rel y b" "astep\<^sup>*\<^sup>* a b" by blast
  from sim_step [OF b(1) step.hyps(2)] b(2) show ?case by (blast intro: rtranclp.rtrancl_into_rtrancl)
qed blast

end

end
