(* ===== verification/Worker_Store.thy ===== *)
theory Worker_Store
  imports Prelude
begin

text \<open>
  The relay worker's file-backed state, \<^verbatim>\<open>worker/store.ts\<close>. The store is the in-memory document
  together with the file; every method of the class \<^verbatim>\<open>Store\<close> is one definition, and a method that
  saves takes the outcome of its one write (and the time) as an argument. The lemmas show what
  every save leaves behind, whatever its outcome, and the properties are about the states that
  the worker's own calls can reach.
\<close>

section \<open>Data\<close>

datatype job_state = Discovered | Attested | Submitted | Done | Skipped | Dead

datatype receipt_status = Success | Reverted

record skip_observation =
  so_blockNumber :: int
  so_blockHash :: string
  so_confirmations :: int
  so_observedAt :: int

record relay_entry =
  h_hash :: string
  h_nonce :: int
  h_status :: receipt_status
  h_blockNumber :: int
  h_blockHash :: string

record job =
  j_txHash :: string
  j_blockNumber :: int
  j_blockHash :: "string option"
  j_transactionIndex :: "int option"
  j_action :: int
  j_eventName :: string
  j_logCount :: int
  j_state :: job_state
  j_attempts :: int
  j_lastError :: "string option"
  j_ascTxHash :: "string option"
  j_queryId :: "string option"
  j_discoveredAt :: int
  j_updatedAt :: int
  j_skipObservation :: "skip_observation option"
  j_relayHistory :: "relay_entry list option"

record worker_scope =
  sourceChainId :: int
  hubChainId :: int
  chainKey :: int
  scope_source :: string
  scope_asc :: string
  scope_signer :: string
  startBlock :: int

record relay_envelope =
  r_sourceTxHash :: string
  r_queryId :: string
  r_hash :: string
  r_raw :: string
  r_nonce :: int
  r_chainId :: int
  r_to :: string
  r_signer :: string
  r_data :: string

record checkpoint =
  c_height :: int
  c_hash :: string

record rewind =
  rw_at :: int
  rw_from :: int
  rw_to :: int
  rw_orphanedTxs :: "string list"

record data =
  version :: int
  d_cursor :: int
  jobs :: "job obj"
  scope :: "worker_scope option"
  d_relay :: "relay_envelope option"
  sourceCheckpoints :: "checkpoint list option"
  sourceHold :: "string option"
  hubStartNonce :: "int option"
  hubHold :: "string option"
  sourceRewinds :: "rewind list option"

text \<open>The exceptions the worker tells apart; the last three belong to its asynchronous code.\<close>

datatype store_error =
    StoreWriteError
  | SourceSafetyError string
  | HubSafetyError string
  | StoreError string
  | FileUnreadable
  | WorkerStopped
  | RelayBusy
  | RpcError

record store =
  mem :: data
  disk :: "data option"

text \<open>The receipt passed to \<^verbatim>\<open>finishRelay\<close>.\<close>

record final_receipt =
  fr_status :: receipt_status
  fr_blockNumber :: int
  fr_blockHash :: string

section \<open>Loading and saving\<close>

definition empty_data :: data where
  "empty_data = \<lparr>version = 1, d_cursor = 0, jobs = [], scope = None, d_relay = None,
     sourceCheckpoints = None, sourceHold = None, hubStartNonce = None, hubHold = None,
     sourceRewinds = None\<rparr>"

definition relay_consistent :: "data \<Rightarrow> bool" where
  "relay_consistent d =
     (case d_relay d of None \<Rightarrow> True
      | Some r \<Rightarrow> (case obj_get (jobs d) (r_sourceTxHash r) of None \<Rightarrow> False
         | Some j \<Rightarrow> j_state j = Submitted \<and> j_ascTxHash j = Some (r_hash r)
             \<and> j_queryId j = Some (r_queryId r)))"

definition load :: "data option \<Rightarrow> store_error + data" where
  "load f =
     (case f of None \<Rightarrow> Inr empty_data
      | Some d \<Rightarrow>
         if version d \<noteq> 1 then Inl (StoreError ''unknown state file version'')
         else if \<not> relay_consistent d then Inl (StoreError ''INCONSISTENT_RELAY_STATE'')
         else Inr d)"

definition reload :: "(store, store_error, unit) io" where
  "reload = (\<lambda>s. case load (disk s) of Inl e \<Rightarrow> (Inl e, s) | Inr d \<Rightarrow> (Inr (), s\<lparr>mem := d\<rparr>))"

text \<open>
  How a save may end. It can fail before the rename took effect, in a rename that took effect and
  still reported an error, or in the directory sync that follows the assignment of the new
  document; the flag says whether the file can be read back in the handler.
\<close>

datatype fail_point = BeforeRename | DuringRename | AfterRename

datatype write_outcome = Written | Failed fail_point bool

definition commit :: "write_outcome \<Rightarrow> data \<Rightarrow> (store, store_error, unit) io" where
  "commit w nxt = (\<lambda>s.
     case w of
       Written \<Rightarrow> (Inr (), s\<lparr>mem := nxt, disk := Some nxt\<rparr>)
     | Failed p readable \<Rightarrow>
         let s' = (case p of BeforeRename \<Rightarrow> s
                   | DuringRename \<Rightarrow> s\<lparr>disk := Some nxt\<rparr>
                   | AfterRename \<Rightarrow> s\<lparr>mem := nxt, disk := Some nxt\<rparr>) in
         if readable then seq reload (\<lambda>_. throw StoreWriteError) s' else (Inl FileUnreadable, s'))"

section \<open>Scope and holds\<close>

definition bindScope :: "write_outcome \<Rightarrow> worker_scope \<Rightarrow> (store, store_error, unit) io" where
  "bindScope w sc = seq (gets mem) (\<lambda>d.
     seq (guard (\<not> (scope d \<noteq> None \<and> scope d \<noteq> Some sc)) (StoreError ''WORKER_STATE_SCOPE_MISMATCH'')) (\<lambda>_.
     seq (guard (\<not> (scope d = None \<and> (d_cursor d \<noteq> 0 \<or> jobs d \<noteq> [])))
       (StoreError ''LEGACY_WORKER_STATE_REQUIRES_RECONCILIATION'')) (\<lambda>_.
     if scope d = None then commit w (d\<lparr>scope := Some sc\<rparr>) else ret ())))"

definition checkpoints :: "data \<Rightarrow> checkpoint list" where
  "checkpoints d = (case sourceCheckpoints d of None \<Rightarrow> [] | Some cs \<Rightarrow> cs)"

definition assertSourceReady :: "(store, store_error, unit) io" where
  "assertSourceReady = seq (gets mem) (\<lambda>d.
     guard (\<not> truthy (sourceHold d)) (SourceSafetyError (the (sourceHold d))))"

definition assertHubReady :: "(store, store_error, unit) io" where
  "assertHubReady = seq (gets mem) (\<lambda>d.
     guard (\<not> truthy (hubHold d)) (HubSafetyError (the (hubHold d))))"

definition holdSource :: "write_outcome \<Rightarrow> string \<Rightarrow> (store, store_error, 'a) io" where
  "holdSource w reason = seq (gets mem) (\<lambda>d.
     seq (commit w (d\<lparr>sourceHold := Some reason\<rparr>)) (\<lambda>_. throw (SourceSafetyError reason)))"

definition holdHub :: "write_outcome \<Rightarrow> string \<Rightarrow> (store, store_error, 'a) io" where
  "holdHub w reason = seq (gets mem) (\<lambda>d.
     seq (commit w (d\<lparr>hubHold := Some reason\<rparr>)) (\<lambda>_. throw (HubSafetyError reason)))"

definition initializeHubSigner :: "write_outcome \<Rightarrow> int \<Rightarrow> (store, store_error, unit) io" where
  "initializeHubSigner w startNonce = seq assertHubReady (\<lambda>_.
     seq (guard (safe_integer startNonce \<and> 0 \<le> startNonce)
       (HubSafetyError ''HUB_SIGNER_BASELINE_INVALID'')) (\<lambda>_.
     seq (gets mem) (\<lambda>d.
     case hubStartNonce d of
       Some n \<Rightarrow> guard (n = startNonce) (HubSafetyError ''HUB_SIGNER_BASELINE_MISMATCH'')
     | None \<Rightarrow> commit w (d\<lparr>hubStartNonce := Some startNonce\<rparr>))))"

section \<open>Source scan state\<close>

definition initializeSource :: "write_outcome \<Rightarrow> checkpoint \<Rightarrow> (store, store_error, unit) io" where
  "initializeSource w cp = seq assertSourceReady (\<lambda>_. seq (gets mem) (\<lambda>d.
     if checkpoints d \<noteq> [] then ret ()
     else seq (guard (\<not> (jobs d \<noteq> [] \<or> d_cursor d \<noteq> 0 \<and> d_cursor d \<noteq> c_height cp))
            (SourceSafetyError ''UNHASHED_SOURCE_STATE_REQUIRES_RECONCILIATION'')) (\<lambda>_.
          commit w (d\<lparr>d_cursor := c_height cp, sourceCheckpoints := Some [cp]\<rparr>))))"

text \<open>The loop of \<^verbatim>\<open>commitSourceRange\<close>: a job arrives without times, which the store sets.\<close>

fun add_source_jobs ::
  "int \<Rightarrow> checkpoint \<Rightarrow> int \<Rightarrow> job list \<Rightarrow> job obj \<Rightarrow> store_error + job obj" where
  "add_source_jobs from end now [] js = Inr js"
| "add_source_jobs from end now (j # r) js =
     (if \<not> truthy (j_blockHash j) \<or> (case j_transactionIndex j of None \<Rightarrow> True | Some i \<Rightarrow> \<not> safe_integer i)
         \<or> j_blockNumber j < from \<or> j_blockNumber j > c_height end
      then Inl (SourceSafetyError ''INVALID_SOURCE_JOB_COORDINATES'')
      else case obj_get js (j_txHash j) of
        None \<Rightarrow> add_source_jobs from end now r
          (obj_put (j_txHash j) (j\<lparr>j_discoveredAt := now, j_updatedAt := now\<rparr>) js)
      | Some x \<Rightarrow>
          if j_blockHash x \<noteq> j_blockHash j \<or> j_blockNumber x \<noteq> j_blockNumber j
          then Inl (SourceSafetyError ''SOURCE_TX_RELOCATION_NOT_RECONCILED'')
          else add_source_jobs from end now r js)"

text \<open>The verified anchor plus the 128 most recent range boundaries.\<close>

definition trim_checkpoints :: "checkpoint list \<Rightarrow> checkpoint list" where
  "trim_checkpoints cs = (if length cs > 129 then hd cs # drop (length cs - 128) cs else cs)"

definition commitSourceRange ::
  "write_outcome \<Rightarrow> int \<Rightarrow> int \<Rightarrow> checkpoint \<Rightarrow> job list \<Rightarrow> (store, store_error, unit) io" where
  "commitSourceRange w now from end js = seq assertSourceReady (\<lambda>_. seq assertHubReady (\<lambda>_.
     seq (gets mem) (\<lambda>d.
     seq (guard (\<not> (from \<noteq> d_cursor d + 1 \<or> c_height end < from))
       (SourceSafetyError ''SOURCE_SCAN_CURSOR_CONFLICT'')) (\<lambda>_.
     case add_source_jobs from end now js (jobs d) of
       Inl e \<Rightarrow> throw e
     | Inr js' \<Rightarrow> commit w (d\<lparr>jobs := js',
         sourceCheckpoints := Some (trim_checkpoints (checkpoints d @ [end])),
         d_cursor := c_height end\<rparr>)))))"

definition relayed :: "job \<Rightarrow> bool" where
  "relayed j \<longleftrightarrow> truthy (j_ascTxHash j) \<or> truthy (j_queryId j)
     \<or> (case j_relayHistory j of None \<Rightarrow> False | Some h \<Rightarrow> h \<noteq> [])
     \<or> j_state j \<in> {Submitted, Done, Skipped}"

definition affected_jobs :: "int \<Rightarrow> data \<Rightarrow> job list" where
  "affected_jobs height d = filter (\<lambda>j. j_blockNumber j > height) (map snd (jobs d))"

definition rewound :: "int \<Rightarrow> checkpoint \<Rightarrow> data \<Rightarrow> data" where
  "rewound now a d = d\<lparr>
     jobs := foldl (\<lambda>m j. AList.delete (j_txHash j) m) (jobs d) (affected_jobs (c_height a) d),
     sourceRewinds := Some ((case sourceRewinds d of None \<Rightarrow> [] | Some l \<Rightarrow> l) @
       [\<lparr>rw_at = now, rw_from = d_cursor d, rw_to = c_height a,
         rw_orphanedTxs = map j_txHash (affected_jobs (c_height a) d)\<rparr>]),
     d_cursor := c_height a,
     sourceCheckpoints := Some (filter (\<lambda>c. c_height c \<le> c_height a) (checkpoints d))\<rparr>"

definition rewindUnsignedSource ::
  "write_outcome \<Rightarrow> int \<Rightarrow> checkpoint \<Rightarrow> (store, store_error, int) io" where
  "rewindUnsignedSource w now ancestor = seq assertSourceReady (\<lambda>_. seq (gets mem) (\<lambda>d.
     seq (guard (list_ex (\<lambda>c. c_height c = c_height ancestor \<and> c_hash c = c_hash ancestor) (checkpoints d))
       (SourceSafetyError ''UNKNOWN_SOURCE_ANCESTOR'')) (\<lambda>_.
     if list_ex relayed (affected_jobs (c_height ancestor) d)
     then holdSource w ''SOURCE_REORG_TOUCHES_RELAYED_JOB''
     else seq (commit w (rewound now ancestor d))
       (\<lambda>_. ret (int (length (affected_jobs (c_height ancestor) d)))))))"

section \<open>The relay slot\<close>

definition terminal_state :: "job_state \<Rightarrow> bool" where
  "terminal_state x \<longleftrightarrow> x \<in> {Done, Dead, Skipped}"

definition reserved_job :: "relay_envelope \<Rightarrow> int \<Rightarrow> job \<Rightarrow> job" where
  "reserved_job r now j = j\<lparr>j_state := Submitted, j_ascTxHash := Some (r_hash r),
     j_queryId := Some (r_queryId r), j_updatedAt := now\<rparr>"

text \<open>An assignment to a job that is missing is a type error of the source.\<close>

definition reserveRelay :: "write_outcome \<Rightarrow> int \<Rightarrow> relay_envelope \<Rightarrow> (store, store_error, unit) io" where
  "reserveRelay w now r = seq assertSourceReady (\<lambda>_. seq assertHubReady (\<lambda>_. seq (gets mem) (\<lambda>d.
     seq (guard (d_relay d = None) (StoreError ''RELAY_NONCE_UNRESOLVED'')) (\<lambda>_.
     case obj_get (jobs d) (r_sourceTxHash r) of
       None \<Rightarrow> throw (StoreError ''RELAY_JOB_NOT_PENDING'')
     | Some j \<Rightarrow>
         seq (guard (\<not> terminal_state (j_state j)) (StoreError ''RELAY_JOB_NOT_PENDING'')) (\<lambda>_.
         case obj_get (jobs d) (j_txHash j) of
           None \<Rightarrow> throw (StoreError ''TypeError'')
         | Some k \<Rightarrow> commit w (d\<lparr>d_relay := Some r,
             jobs := obj_put (j_txHash j) (reserved_job r now k) (jobs d)\<rparr>))))))"

definition history_of :: "job \<Rightarrow> relay_entry list" where
  "history_of j = (case j_relayHistory j of None \<Rightarrow> [] | Some h \<Rightarrow> h)"

definition receipt_entry :: "relay_envelope \<Rightarrow> final_receipt \<Rightarrow> relay_entry" where
  "receipt_entry r rc = \<lparr>h_hash = r_hash r, h_nonce = r_nonce r, h_status = fr_status rc,
     h_blockNumber = fr_blockNumber rc, h_blockHash = fr_blockHash rc\<rparr>"

definition finished_job :: "relay_envelope \<Rightarrow> final_receipt \<Rightarrow> int \<Rightarrow> job \<Rightarrow> job" where
  "finished_job r rc now j = j\<lparr>j_relayHistory := Some (history_of j @ [receipt_entry r rc]),
     j_state := (if fr_status rc = Success then Done else Dead),
     j_lastError := (if fr_status rc = Success then None
       else Some ''ASC_TRANSACTION_REVERTED_REVIEW_REQUIRED''),
     j_updatedAt := now\<rparr>"

definition finishRelay ::
  "write_outcome \<Rightarrow> int \<Rightarrow> string \<Rightarrow> final_receipt \<Rightarrow> (store, store_error, unit) io" where
  "finishRelay w now hash rc = seq assertHubReady (\<lambda>_. seq (gets mem) (\<lambda>d.
     case d_relay d of
       None \<Rightarrow> throw (StoreError ''RELAY_STATE_CONFLICT'')
     | Some r \<Rightarrow>
         seq (guard (r_hash r = hash) (StoreError ''RELAY_STATE_CONFLICT'')) (\<lambda>_.
         case obj_get (jobs d) (r_sourceTxHash r) of
           None \<Rightarrow> throw (StoreError ''TypeError'')
         | Some j \<Rightarrow>
             commit w (d\<lparr>d_relay := None,
               jobs := obj_put (r_sourceTxHash r) (finished_job r rc now j) (jobs d)\<rparr>))))"

section \<open>Jobs\<close>

definition setCursor :: "write_outcome \<Rightarrow> int \<Rightarrow> (store, store_error, unit) io" where
  "setCursor w block = seq (gets mem) (\<lambda>d.
     if block < d_cursor d then ret () else commit w (d\<lparr>d_cursor := block\<rparr>))"

definition store_has :: "data \<Rightarrow> string \<Rightarrow> bool" where
  "store_has d h \<longleftrightarrow> obj_get (jobs d) h \<noteq> None"

definition store_get :: "data \<Rightarrow> string \<Rightarrow> job option" where
  "store_get d h = obj_get (jobs d) h"

definition store_add :: "write_outcome \<Rightarrow> int \<Rightarrow> job \<Rightarrow> (store, store_error, job) io" where
  "store_add w now j = seq (gets mem) (\<lambda>d.
     case store_get d (j_txHash j) of
       Some x \<Rightarrow> ret x
     | None \<Rightarrow> let x = j\<lparr>j_discoveredAt := now, j_updatedAt := now\<rparr> in
         seq (commit w (d\<lparr>jobs := obj_put (j_txHash j) x (jobs d)\<rparr>)) (\<lambda>_. ret x))"

text \<open>
  A patch of a job: \<^term>\<open>None\<close> is an absent key. These are the keys the worker patches;
  an optional field can be patched to \<^verbatim>\<open>undefined\<close>.
\<close>

record job_patch =
  p_state :: "job_state option"
  p_attempts :: "int option"
  p_lastError :: "string option option"
  p_queryId :: "string option option"
  p_skipObservation :: "skip_observation option option"

definition no_patch :: job_patch where
  "no_patch = \<lparr>p_state = None, p_attempts = None, p_lastError = None, p_queryId = None,
     p_skipObservation = None\<rparr>"

definition patched :: "'a option \<Rightarrow> 'a \<Rightarrow> 'a" where
  "patched p old = (case p of None \<Rightarrow> old | Some x \<Rightarrow> x)"

definition apply_patch :: "job_patch \<Rightarrow> int \<Rightarrow> job \<Rightarrow> job" where
  "apply_patch p now j = j\<lparr>
     j_state := patched (p_state p) (j_state j), j_attempts := patched (p_attempts p) (j_attempts j),
     j_lastError := patched (p_lastError p) (j_lastError j),
     j_queryId := patched (p_queryId p) (j_queryId j),
     j_skipObservation := patched (p_skipObservation p) (j_skipObservation j), j_updatedAt := now\<rparr>"

definition store_update ::
  "write_outcome \<Rightarrow> int \<Rightarrow> string \<Rightarrow> job_patch \<Rightarrow> (store, store_error, unit) io" where
  "store_update w now h p = seq (gets mem) (\<lambda>d.
     seq (guard (\<not> ((case d_relay d of None \<Rightarrow> False | Some r \<Rightarrow> r_sourceTxHash r = h)
           \<and> p_state p \<noteq> None \<and> p_state p \<noteq> Some Submitted))
       (StoreError ''UNRESOLVED_RELAY_CANNOT_BE_DROPPED'')) (\<lambda>_.
     case obj_get (jobs d) h of
       None \<Rightarrow> ret ()
     | Some j \<Rightarrow> commit w (d\<lparr>jobs := obj_put h (apply_patch p now j) (jobs d)\<rparr>)))"

definition owns_relay :: "data \<Rightarrow> string \<Rightarrow> bool" where
  "owns_relay d h = (case d_relay d of None \<Rightarrow> False | Some r \<Rightarrow> r_sourceTxHash r = h)"

definition pending :: "data \<Rightarrow> job list" where
  "pending d = sort_key (\<lambda>j. if owns_relay d (j_txHash j) then 0 else 1 :: nat)
     (filter (\<lambda>j. \<not> terminal_state (j_state j)) (map snd (jobs d)))"

definition counts :: "data \<Rightarrow> (job_state \<times> nat) list" where
  "counts d = foldl (\<lambda>out j. obj_put (j_state j)
     ((case obj_get out (j_state j) of None \<Rightarrow> 0 | Some n \<Rightarrow> n) + 1) out) [] (map snd (jobs d))"

text \<open>\<^verbatim>\<open>slice(0, limit)\<close>, where \<^term>\<open>None\<close> is \<^verbatim>\<open>Infinity\<close> and a negative bound counts from the end.\<close>

definition slice0 :: "int option \<Rightarrow> 'a list \<Rightarrow> 'a list" where
  "slice0 limit xs = (case limit of None \<Rightarrow> xs
     | Some n \<Rightarrow> take (nat (if n < 0 then int (length xs) + n else n)) xs)"

definition jobsReadyForDispatch :: "data \<Rightarrow> (string \<Rightarrow> bool) \<Rightarrow> int option \<Rightarrow> job list" where
  "jobsReadyForDispatch d reserved limit =
     slice0 limit (filter (\<lambda>j. \<not> reserved (j_txHash j)) (pending d))"

section \<open>Specification: steps of the document\<close>

text \<open>
  What the worker's calls may do to the document, without errors, write outcomes or the file. The
  patches the worker passes to \<^verbatim>\<open>update\<close> set \<^verbatim>\<open>queryId\<close> only together with a state that gives
  the job up.
\<close>

definition patch_ok :: "job_patch \<Rightarrow> bool" where
  "patch_ok p \<longleftrightarrow> p_queryId p = None \<or> p_state p \<noteq> None \<and> p_state p \<noteq> Some Submitted"

inductive doc_step :: "data \<Rightarrow> data \<Rightarrow> bool" where
  doc_scope: "scope d = None \<Longrightarrow> doc_step d (d\<lparr>scope := Some sc\<rparr>)"
| doc_sourceHold: "reason \<noteq> [] \<Longrightarrow> doc_step d (d\<lparr>sourceHold := Some reason\<rparr>)"
| doc_hubHold: "reason \<noteq> [] \<Longrightarrow> doc_step d (d\<lparr>hubHold := Some reason\<rparr>)"
| doc_nonce: "hubStartNonce d = None \<Longrightarrow> 0 \<le> n \<Longrightarrow> \<not> truthy (hubHold d)
    \<Longrightarrow> doc_step d (d\<lparr>hubStartNonce := Some n\<rparr>)"
| doc_anchor: "\<not> truthy (sourceHold d) \<Longrightarrow> checkpoints d = [] \<Longrightarrow> jobs d = []
    \<Longrightarrow> doc_step d (d\<lparr>d_cursor := c_height cp, sourceCheckpoints := Some [cp]\<rparr>)"
| doc_range: "\<not> truthy (sourceHold d) \<Longrightarrow> \<not> truthy (hubHold d) \<Longrightarrow> d_cursor d < c_height e
    \<Longrightarrow> add_source_jobs (d_cursor d + 1) e now js (jobs d) = Inr js'
    \<Longrightarrow> doc_step d (d\<lparr>jobs := js',
          sourceCheckpoints := Some (trim_checkpoints (checkpoints d @ [e])), d_cursor := c_height e\<rparr>)"
| doc_rewind: "\<not> truthy (sourceHold d) \<Longrightarrow> a \<in> set (checkpoints d)
    \<Longrightarrow> \<not> list_ex relayed (affected_jobs (c_height a) d) \<Longrightarrow> doc_step d (rewound now a d)"
| doc_reserve: "\<not> truthy (sourceHold d) \<Longrightarrow> \<not> truthy (hubHold d) \<Longrightarrow> d_relay d = None
    \<Longrightarrow> obj_get (jobs d) (r_sourceTxHash r) = Some j \<Longrightarrow> \<not> terminal_state (j_state j)
    \<Longrightarrow> doc_step d (d\<lparr>d_relay := Some r,
          jobs := obj_put (r_sourceTxHash r) (reserved_job r now j) (jobs d)\<rparr>)"
| doc_finish: "\<not> truthy (hubHold d) \<Longrightarrow> d_relay d = Some r
    \<Longrightarrow> obj_get (jobs d) (r_sourceTxHash r) = Some j
    \<Longrightarrow> doc_step d (d\<lparr>d_relay := None,
          jobs := obj_put (r_sourceTxHash r) (finished_job r rc now j) (jobs d)\<rparr>)"
| doc_update: "patch_ok p \<Longrightarrow> owns_relay d h \<longrightarrow> p_state p = None \<or> p_state p = Some Submitted
    \<Longrightarrow> obj_get (jobs d) h = Some j
    \<Longrightarrow> doc_step d (d\<lparr>jobs := obj_put h (apply_patch p now j) (jobs d)\<rparr>)"

section \<open>The document invariant\<close>

definition keys_ok :: "job obj \<Rightarrow> bool" where
  "keys_ok js \<longleftrightarrow> obj_wf js \<and> (\<forall>h j. obj_get js h = Some j \<longrightarrow> j_txHash j = h)"

definition checkpoints_ok :: "data \<Rightarrow> bool" where
  "checkpoints_ok d \<longleftrightarrow> (let cs = checkpoints d in
     sorted_wrt (\<lambda>a b. c_height a < c_height b) cs \<and> length cs \<le> 129 \<and>
     (if cs = [] then jobs d = []
      else c_height (last cs) = d_cursor d \<and>
        (\<forall>h j. obj_get (jobs d) h = Some j \<longrightarrow> j_blockNumber j \<le> d_cursor d)))"

definition data_ok :: "data \<Rightarrow> bool" where
  "data_ok d \<longleftrightarrow> version d = 1 \<and> keys_ok (jobs d) \<and> relay_consistent d \<and> checkpoints_ok d"

lemma data_ok_empty: "data_ok empty_data"
  by (simp add: data_ok_def empty_data_def keys_ok_def relay_consistent_def checkpoints_ok_def
      checkpoints_def)

lemma load_data_ok: "data_ok d \<Longrightarrow> load (Some d) = Inr d"
  by (simp add: load_def data_ok_def)

lemma keys_okD: "keys_ok js \<Longrightarrow> obj_get js h = Some j \<Longrightarrow> j_txHash j = h"
  by (simp add: keys_ok_def)

lemma keys_ok_put:
  "keys_ok js \<Longrightarrow> j_txHash j = h \<Longrightarrow> keys_ok (obj_put h j js)"
  by (simp add: keys_ok_def obj_simps)

abbreviation stamped :: "int \<Rightarrow> job \<Rightarrow> job" where
  "stamped now j \<equiv> j\<lparr>j_discoveredAt := now, j_updatedAt := now\<rparr>"

lemma add_source_jobs_Cons:
  assumes "add_source_jobs lo e now (j # r) m = Inr m'"
  obtains "lo \<le> j_blockNumber j" "j_blockNumber j \<le> c_height e" "obj_get m (j_txHash j) = None"
      "add_source_jobs lo e now r (obj_put (j_txHash j) (stamped now j) m) = Inr m'"
  | x where "obj_get m (j_txHash j) = Some x" "j_blockHash x = j_blockHash j"
      "j_blockNumber x = j_blockNumber j" "add_source_jobs lo e now r m = Inr m'"
  using assms by (auto split: if_splits option.splits)

lemma add_source_jobs_keys:
  "add_source_jobs lo e now js m = Inr m' \<Longrightarrow> keys_ok m \<Longrightarrow> keys_ok m'"
proof (induction js arbitrary: m)
  case (Cons j js)
  from Cons.prems(1) show ?case
    by (rule add_source_jobs_Cons) (simp_all add: Cons.IH Cons.prems(2) keys_ok_put)
qed simp

text \<open>A range never touches a job it knows and adds only jobs inside the range.\<close>

lemma add_source_jobs_old:
  "add_source_jobs lo e now js m = Inr m' \<Longrightarrow> obj_get m h = Some j \<Longrightarrow> obj_get m' h = Some j"
proof (induction js arbitrary: m)
  case (Cons x js)
  from Cons.prems(1) show ?case
  proof (rule add_source_jobs_Cons)
    assume "obj_get m (j_txHash x) = None"
      and s: "add_source_jobs lo e now js (obj_put (j_txHash x) (stamped now x) m) = Inr m'"
    then have "obj_get (obj_put (j_txHash x) (stamped now x) m) h = Some j"
      using Cons.prems(2) by (auto simp: obj_simps)
    from Cons.IH [OF s this] show ?thesis .
  qed (rule Cons.IH [OF _ Cons.prems(2)])
qed simp

lemma add_source_jobs_new:
  "add_source_jobs lo e now js m = Inr m' \<Longrightarrow> obj_get m' h = Some j \<Longrightarrow> obj_get m h = None \<Longrightarrow>
     \<exists>x \<in> set js. j_txHash x = h \<and> j = stamped now x \<and> lo \<le> j_blockNumber x \<and> j_blockNumber x \<le> c_height e"
proof (induction js arbitrary: m)
  case (Cons x js)
  from Cons.prems(1) show ?case
  proof (rule add_source_jobs_Cons)
    assume r: "lo \<le> j_blockNumber x" "j_blockNumber x \<le> c_height e"
      and s: "add_source_jobs lo e now js (obj_put (j_txHash x) (stamped now x) m) = Inr m'"
    show ?thesis
    proof (cases "j_txHash x = h")
      case True
      then have "obj_get m' h = Some (stamped now x)"
        using add_source_jobs_old [OF s] by (simp add: obj_simps)
      with True r Cons.prems(2) show ?thesis by auto
    next
      case False
      with Cons.IH [OF s Cons.prems(2)] Cons.prems(3) show ?thesis by (auto simp: obj_simps)
    qed
  qed (use Cons in auto)
qed simp

lemma add_source_jobs_all:
  "add_source_jobs lo e now js m = Inr m' \<Longrightarrow> x \<in> set js \<Longrightarrow>
     \<exists>y. obj_get m' (j_txHash x) = Some y \<and> j_blockHash y = j_blockHash x \<and> j_blockNumber y = j_blockNumber x"
proof (induction js arbitrary: m)
  case (Cons j js)
  from Cons.prems(1) show ?case
  proof (rule add_source_jobs_Cons)
    assume s: "add_source_jobs lo e now js (obj_put (j_txHash j) (stamped now j) m) = Inr m'"
    have "obj_get m' (j_txHash j) = Some (stamped now j)"
      using add_source_jobs_old [OF s] by (simp add: obj_simps)
    with Cons.IH [OF s] Cons.prems(2) show ?thesis by auto
  next
    fix y assume y: "obj_get m (j_txHash j) = Some y" "j_blockHash y = j_blockHash j"
      "j_blockNumber y = j_blockNumber j" and s: "add_source_jobs lo e now js m = Inr m'"
    from Cons.IH [OF s] add_source_jobs_old [OF s y(1)] y Cons.prems(2) show ?thesis by auto
  qed
qed simp

lemma delete_jobs_get:
  "obj_get (foldl (\<lambda>m j. AList.delete (j_txHash j) m) m js) h
     = (if h \<in> j_txHash ` set js then None else obj_get m h)"
  by (induction js arbitrary: m) (auto simp: obj_simps)

lemma delete_jobs_wf: "obj_wf m \<Longrightarrow> obj_wf (foldl (\<lambda>m j. AList.delete (j_txHash j) m) m js)"
  by (induction js arbitrary: m) (simp_all add: obj_wf_def distinct_delete)

lemma affected_jobs_get:
  assumes "keys_ok (jobs d)"
  shows "j \<in> set (affected_jobs n d) \<longleftrightarrow> obj_get (jobs d) (j_txHash j) = Some j \<and> n < j_blockNumber j"
  using assms obj_values_get [of "jobs d" j] by (auto simp: affected_jobs_def keys_ok_def image_iff)

lemma rewound_get:
  assumes "keys_ok (jobs d)"
  shows "obj_get (jobs (rewound now a d)) h = Some j \<longleftrightarrow>
    obj_get (jobs d) h = Some j \<and> j_blockNumber j \<le> c_height a"
proof -
  have k: "j_txHash x = h" if "obj_get (jobs d) h = Some x" for x
    using assms that by (simp add: keys_ok_def)
  have "h \<in> j_txHash ` set (affected_jobs (c_height a) d) \<longleftrightarrow>
      (\<exists>x. obj_get (jobs d) h = Some x \<and> c_height a < j_blockNumber x)"
    using k unfolding image_iff Bex_def affected_jobs_get [OF assms] by metis
  then show ?thesis by (auto simp: rewound_def delete_jobs_get)
qed

lemma rewound_keys: "keys_ok (jobs d) \<Longrightarrow> keys_ok (jobs (rewound now a d))"
  using rewound_get [of d now a] by (auto simp: keys_ok_def rewound_def delete_jobs_wf)

lemma relay_consistent_alt:
  "relay_consistent d \<longleftrightarrow> (\<forall>r. d_relay d = Some r \<longrightarrow> (\<exists>j. obj_get (jobs d) (r_sourceTxHash r) = Some j
     \<and> j_state j = Submitted \<and> j_ascTxHash j = Some (r_hash r) \<and> j_queryId j = Some (r_queryId r)))"
  by (auto simp: relay_consistent_def split: option.splits)

lemma doc_step_version: "doc_step d d' \<Longrightarrow> version d' = version d"
  by (induction rule: doc_step.induct) (simp_all add: rewound_def)

lemma doc_step_keys: "doc_step d d' \<Longrightarrow> keys_ok (jobs d) \<Longrightarrow> keys_ok (jobs d')"
proof (induction rule: doc_step.induct)
  case doc_range
  then show ?case by (auto intro: add_source_jobs_keys)
next
  case doc_rewind
  then show ?case by (simp add: rewound_keys)
next
  case doc_reserve
  then show ?case by (simp add: keys_ok_put reserved_job_def keys_okD)
next
  case doc_finish
  then show ?case by (simp add: keys_ok_put finished_job_def keys_okD)
next
  case doc_update
  then show ?case by (simp add: keys_ok_put apply_patch_def keys_okD)
qed simp_all

lemma rewound_keeps_relay:
  assumes "keys_ok (jobs d)" and "relay_consistent d" and "\<not> list_ex relayed (affected_jobs (c_height a) d)"
  shows "relay_consistent (rewound now a d)"
proof -
  have "obj_get (jobs (rewound now a d)) h = Some j"
    if j: "obj_get (jobs d) h = Some j" and "j_state j = Submitted" for h j
  proof -
    have "j_txHash j = h" using assms(1) j by (simp add: keys_ok_def)
    then have "j \<notin> set (affected_jobs (c_height a) d)"
      using assms(3) that by (auto simp: list_ex_iff relayed_def)
    then show ?thesis
      using j \<open>j_txHash j = h\<close> by (simp add: rewound_get affected_jobs_get assms(1) not_less)
  qed
  moreover have "d_relay (rewound now a d) = d_relay d" by (simp add: rewound_def)
  ultimately show ?thesis using assms(2) by (fastforce simp: relay_consistent_alt)
qed

lemma doc_step_relay:
  "doc_step d d' \<Longrightarrow> keys_ok (jobs d) \<Longrightarrow> relay_consistent d \<Longrightarrow> relay_consistent d'"
proof (induction rule: doc_step.induct)
  case doc_range
  then show ?case by (fastforce simp: relay_consistent_alt intro: add_source_jobs_old)
next
  case doc_rewind
  then show ?case by (simp add: rewound_keeps_relay)
next
  case doc_reserve
  then show ?case by (simp add: relay_consistent_alt obj_simps reserved_job_def)
next
  case doc_update
  then show ?case
    by (auto simp: relay_consistent_alt obj_simps apply_patch_def patched_def patch_ok_def owns_relay_def
        split: option.splits)
qed (simp_all add: relay_consistent_alt)

lemma sorted_last_le:
  fixes cs :: "checkpoint list"
  shows "sorted_wrt (\<lambda>a b. c_height a < c_height b) cs \<Longrightarrow> c \<in> set cs \<Longrightarrow>
     c_height (hd cs) \<le> c_height c \<and> c_height c \<le> c_height (last cs)"
  by (induction cs) (auto dest: bspec [OF _ last_in_set])

lemma trim_checkpoints_ok:
  assumes "sorted_wrt (\<lambda>a b. c_height a < c_height b) cs" and "cs \<noteq> []"
  shows "sorted_wrt (\<lambda>a b. c_height a < c_height b) (trim_checkpoints cs)
    \<and> length (trim_checkpoints cs) \<le> 129 \<and> trim_checkpoints cs \<noteq> [] \<and> last (trim_checkpoints cs) = last cs"
proof (cases "length cs > 129")
  case True
  obtain c r where cs: "cs = c # r" using assms(2) by (cases cs) auto
  have n: "length cs - 128 = Suc (length r - 128)" using True cs by simp
  have "sorted_wrt (\<lambda>a b. c_height a < c_height b) (c # drop (length r - 128) r)"
    using assms(1) cs by (auto simp: sorted_wrt_drop dest: in_set_dropD)
  moreover have "last (c # drop (length r - 128) r) = last cs" using True cs by simp
  ultimately show ?thesis using True n by (simp add: trim_checkpoints_def cs)
qed (use assms in \<open>simp add: trim_checkpoints_def\<close>)

lemma filter_le_last:
  assumes "sorted_wrt (\<lambda>a b. c_height a < c_height b) cs" and "a \<in> set cs"
  shows "last (filter (\<lambda>c. c_height c \<le> c_height a) cs) = a"
  using assms
proof (induction cs)
  case (Cons c cs)
  show ?case
  proof (cases "c = a")
    case True
    then have "filter (\<lambda>c. c_height c \<le> c_height a) cs = []"
      using Cons.prems(1) by (auto simp: filter_empty_conv)
    with True show ?thesis by simp
  next
    case False
    with Cons.prems have "a \<in> set cs" "c_height c \<le> c_height a" by auto
    moreover from \<open>a \<in> set cs\<close> have "filter (\<lambda>c. c_height c \<le> c_height a) cs \<noteq> []"
      by (auto simp: filter_empty_conv)
    ultimately show ?thesis using Cons by simp
  qed
qed simp

lemma rewound_checkpoints:
  assumes ok: "keys_ok (jobs d)" "checkpoints_ok d" and a: "a \<in> set (checkpoints d)"
  shows "checkpoints_ok (rewound now a d)"
proof -
  let ?cs = "filter (\<lambda>c. c_height c \<le> c_height a) (checkpoints d)"
  have s: "sorted_wrt (\<lambda>a b. c_height a < c_height b) (checkpoints d)" and l: "length (checkpoints d) \<le> 129"
    using ok(2) a by (auto simp: checkpoints_ok_def Let_def split: if_splits)
  have "length ?cs \<le> 129" using l length_filter_le le_trans by blast
  moreover have "checkpoints (rewound now a d) = ?cs" by (simp add: rewound_def checkpoints_def)
  moreover have "?cs \<noteq> []" using a by (auto simp: filter_empty_conv)
  moreover have "d_cursor (rewound now a d) = c_height a" by (simp add: rewound_def)
  ultimately show ?thesis
    using filter_le_last [OF s a]
    by (auto simp: checkpoints_ok_def sorted_wrt_filter [OF s] rewound_get [OF ok(1)])
qed

lemma range_checkpoints:
  assumes ok: "checkpoints_ok d" and e: "d_cursor d < c_height e"
    and js: "add_source_jobs (d_cursor d + 1) e now js (jobs d) = Inr js'"
  shows "checkpoints_ok (d\<lparr>jobs := js',
    sourceCheckpoints := Some (trim_checkpoints (checkpoints d @ [e])), d_cursor := c_height e\<rparr>)"
proof -
  let ?cs = "checkpoints d @ [e]"
  have "sorted_wrt (\<lambda>a b. c_height a < c_height b) ?cs"
    using ok e sorted_last_le [of "checkpoints d"]
    by (fastforce simp: checkpoints_ok_def sorted_wrt_append Let_def split: if_splits)
  then have t: "sorted_wrt (\<lambda>a b. c_height a < c_height b) (trim_checkpoints ?cs)
    \<and> length (trim_checkpoints ?cs) \<le> 129 \<and> trim_checkpoints ?cs \<noteq> [] \<and> last (trim_checkpoints ?cs) = e"
    using trim_checkpoints_ok [of ?cs] by simp
  have "j_blockNumber j \<le> c_height e" if j: "obj_get js' h = Some j" for h j
  proof (cases "obj_get (jobs d) h")
    case None
    from add_source_jobs_new [OF js j None] show ?thesis by force
  next
    case (Some x)
    with add_source_jobs_old [OF js Some] j have "j = x" by simp
    with Some ok e show ?thesis by (fastforce simp: checkpoints_ok_def Let_def split: if_splits)
  qed
  with t show ?thesis by (simp add: checkpoints_ok_def checkpoints_def)
qed

lemma doc_step_checkpoints:
  "doc_step d d' \<Longrightarrow> keys_ok (jobs d) \<Longrightarrow> checkpoints_ok d \<Longrightarrow> checkpoints_ok d'"
proof (induction rule: doc_step.induct)
  case (doc_range d e now js js')
  from range_checkpoints [OF doc_range(6,3,4)] show ?case .
next
  case (doc_rewind d a now)
  from rewound_checkpoints [OF doc_rewind(4,5,2)] show ?case .
next
  case (doc_update p d h j now)
  then show ?case
    by (auto simp: checkpoints_ok_def checkpoints_def Let_def obj_simps apply_patch_def
        split: if_splits option.splits)
next
  case doc_reserve
  then show ?case
    by (auto simp: checkpoints_ok_def checkpoints_def Let_def obj_simps reserved_job_def
        split: if_splits option.splits)
next
  case doc_finish
  then show ?case
    by (auto simp: checkpoints_ok_def checkpoints_def Let_def obj_simps finished_job_def
        split: if_splits option.splits)
qed (simp_all add: checkpoints_ok_def checkpoints_def Let_def)

lemma doc_step_data_ok: "doc_step d d' \<Longrightarrow> data_ok d \<Longrightarrow> data_ok d'"
  using doc_step_version doc_step_keys doc_step_relay doc_step_checkpoints
  unfolding data_ok_def by metis

section \<open>Refinement: every call steps the document\<close>

text \<open>
  A store is sound when the document in memory and the one on disk both satisfy the invariant. A
  call that starts from the document \<open>d\<close> leaves in each place either what was there or a document
  one step from \<open>d\<close>, and if the file was readable memory and disk agree.
\<close>

definition readable :: "write_outcome \<Rightarrow> bool" where
  "readable w = (case w of Written \<Rightarrow> True | Failed p b \<Rightarrow> b)"

lemma readable_Written [simp]: "readable Written"
  by (simp add: readable_def)

definition store_ok :: "store \<Rightarrow> bool" where
  "store_ok s \<longleftrightarrow> data_ok (mem s) \<and> (\<forall>d. disk s = Some d \<longrightarrow> data_ok d)"

definition synced :: "store \<Rightarrow> bool" where
  "synced s \<longleftrightarrow> load (disk s) = Inr (mem s)"

definition stepped :: "write_outcome \<Rightarrow> store \<Rightarrow> store \<Rightarrow> bool" where
  "stepped w s t \<longleftrightarrow> store_ok t \<and>
     (readable w \<and> synced s \<longrightarrow> synced t \<and> (mem t = mem s \<or> doc_step (mem s) (mem t)))"

lemma load_ok: "store_ok s \<Longrightarrow> \<exists>d. load (disk s) = Inr d \<and> data_ok d"
  using data_ok_empty by (cases "disk s") (simp_all add: load_data_ok store_ok_def, simp add: load_def)

lemma stepped_refl: "store_ok s \<Longrightarrow> stepped w s s"
  by (simp add: stepped_def)

text \<open>The rule for a save: it may be applied wherever the new document is one step away.\<close>

lemma commit_stepped:
  assumes s: "store_ok s" and d: "doc_step (mem s) nxt"
  shows "stepped w s (snd (commit w nxt s))"
proof -
  have ok: "data_ok nxt" using s d doc_step_data_ok by (simp add: store_ok_def)
  note l = load_data_ok [OF ok]
  obtain x where x: "load (disk s) = Inr x" "data_ok x" using load_ok [OF s] by blast
  show ?thesis
  proof (cases w)
    case Written
    then show ?thesis using ok d l by (simp add: commit_def stepped_def store_ok_def synced_def)
  next
    case (Failed p b)
    then show ?thesis
      using s ok d l x
      by (cases p; cases b)
        (auto simp: commit_def stepped_def store_ok_def synced_def readable_def seq_def reload_def
          throw_def Let_def)
  qed
qed

lemma reload_stepped: "store_ok s \<Longrightarrow> stepped w s (snd (reload s))"
  using load_ok [of s] by (auto simp: reload_def stepped_def store_ok_def synced_def)

lemma assert_ready_run [simp]:
  "seq assertSourceReady f s =
     (if truthy (sourceHold (mem s)) then (Inl (SourceSafetyError (the (sourceHold (mem s)))), s) else f () s)"
  "seq assertHubReady f s =
     (if truthy (hubHold (mem s)) then (Inl (HubSafetyError (the (hubHold (mem s)))), s) else f () s)"
  by (simp_all add: assertSourceReady_def assertHubReady_def) (simp_all add: io_defs)

lemma bindScope_stepped: "store_ok s \<Longrightarrow> stepped w s (snd (bindScope w sc s))"
  by (simp add: bindScope_def stepped_refl commit_stepped doc_scope)

lemma holdSource_stepped: "store_ok s \<Longrightarrow> reason \<noteq> [] \<Longrightarrow> stepped w s (snd (holdSource w reason s))"
  by (simp add: holdSource_def commit_stepped doc_sourceHold)

lemma holdHub_stepped: "store_ok s \<Longrightarrow> reason \<noteq> [] \<Longrightarrow> stepped w s (snd (holdHub w reason s))"
  by (simp add: holdHub_def commit_stepped doc_hubHold)

lemma initializeHubSigner_stepped: "store_ok s \<Longrightarrow> stepped w s (snd (initializeHubSigner w n s))"
  by (simp add: initializeHubSigner_def stepped_refl commit_stepped doc_nonce split: option.split)

lemma initializeSource_stepped: "store_ok s \<Longrightarrow> stepped w s (snd (initializeSource w cp s))"
  by (simp add: initializeSource_def stepped_refl commit_stepped doc_anchor)

lemma commitSourceRange_stepped: "store_ok s \<Longrightarrow> stepped w s (snd (commitSourceRange w now lo e js s))"
  by (auto simp: commitSourceRange_def stepped_refl intro!: commit_stepped doc_range split: sum.split)

lemma checkpoint_eqI: "c_height c = c_height a \<Longrightarrow> c_hash c = c_hash a \<Longrightarrow> c = (a :: checkpoint)"
  by (cases c; cases a) simp

lemma rewindUnsignedSource_stepped: "store_ok s \<Longrightarrow> stepped w s (snd (rewindUnsignedSource w now a s))"
proof -
  assume s: "store_ok s"
  have "stepped w s (snd (commit w (rewound now a (mem s)) s))"
    if "\<not> truthy (sourceHold (mem s))" "\<not> list_ex relayed (affected_jobs (c_height a) (mem s))"
      "list_ex (\<lambda>c. c_height c = c_height a \<and> c_hash c = c_hash a) (checkpoints (mem s))"
  proof -
    have "a \<in> set (checkpoints (mem s))"
      using that(3) by (auto simp: list_ex_iff dest: checkpoint_eqI)
    with that s show ?thesis by (intro commit_stepped doc_rewind)
  qed
  with s show ?thesis
    by (simp add: rewindUnsignedSource_def stepped_refl holdSource_stepped)
qed

lemma reserveRelay_stepped: "store_ok s \<Longrightarrow> stepped w s (snd (reserveRelay w now r s))"
  by (auto simp: reserveRelay_def stepped_refl store_ok_def data_ok_def keys_okD
      intro!: commit_stepped doc_reserve split: option.split)

lemma finishRelay_stepped: "store_ok s \<Longrightarrow> stepped w s (snd (finishRelay w now h rc s))"
  by (auto simp: finishRelay_def stepped_refl
      intro!: commit_stepped doc_finish split: option.split)

lemma store_update_stepped:
  "store_ok s \<Longrightarrow> patch_ok p \<Longrightarrow> stepped w s (snd (store_update w now h p s))"
  by (auto simp: store_update_def stepped_refl owns_relay_def
      intro!: commit_stepped doc_update split: option.splits)

section \<open>The calls of the worker\<close>

text \<open>
  One rule per call; \<open>ok\<close> restricts the write outcomes considered. A restart is a reload in a new
  process. \<^verbatim>\<open>setCursor\<close> and \<^verbatim>\<open>add\<close> have no caller outside the tests and are left out.
\<close>

inductive store_step :: "(write_outcome \<Rightarrow> bool) \<Rightarrow> store \<Rightarrow> store \<Rightarrow> bool"
  for ok :: "write_outcome \<Rightarrow> bool" where
  step_reload: "store_step ok s (snd (reload s))"
| step_bindScope: "ok w \<Longrightarrow> store_step ok s (snd (bindScope w sc s))"
| step_holdSource: "ok w \<Longrightarrow> reason \<noteq> [] \<Longrightarrow> store_step ok s (snd (holdSource w reason s :: (store_error + unit) \<times> store))"
| step_holdHub: "ok w \<Longrightarrow> reason \<noteq> [] \<Longrightarrow> store_step ok s (snd (holdHub w reason s :: (store_error + unit) \<times> store))"
| step_initHub: "ok w \<Longrightarrow> store_step ok s (snd (initializeHubSigner w n s))"
| step_initSource: "ok w \<Longrightarrow> store_step ok s (snd (initializeSource w cp s))"
| step_range: "ok w \<Longrightarrow> store_step ok s (snd (commitSourceRange w now lo e js s))"
| step_rewind: "ok w \<Longrightarrow> store_step ok s (snd (rewindUnsignedSource w now a s))"
| step_reserve: "ok w \<Longrightarrow> store_step ok s (snd (reserveRelay w now r s))"
| step_finish: "ok w \<Longrightarrow> store_step ok s (snd (finishRelay w now h rc s))"
| step_update: "ok w \<Longrightarrow> patch_ok p \<Longrightarrow> store_step ok s (snd (store_update w now h p s))"

text \<open>A start: no file yet, or a file an earlier run left behind, loaded by the constructor.\<close>

definition store_init :: "store \<Rightarrow> bool" where
  "store_init s \<longleftrightarrow> synced s \<and> (\<forall>d. disk s = Some d \<longrightarrow> data_ok d)"

lemma store_step_stepped:
  "store_step ok s t \<Longrightarrow> store_ok s \<Longrightarrow> \<exists>w. (ok w \<or> w = Written) \<and> stepped w s t"
  by (induction rule: store_step.induct)
    (blast intro: reload_stepped bindScope_stepped holdSource_stepped holdHub_stepped
      initializeHubSigner_stepped initializeSource_stepped commitSourceRange_stepped
      rewindUnsignedSource_stepped reserveRelay_stepped finishRelay_stepped store_update_stepped)+

lemma store_init_ok: "store_init s \<Longrightarrow> store_ok s"
  using data_ok_empty by (cases "disk s") (auto simp: store_init_def store_ok_def synced_def load_def split: if_splits)

interpretation any_write: inductive_invariant store_init "store_step (\<lambda>_. True)" store_ok
  by unfold_locales (auto simp: store_init_ok dest: store_step_stepped simp: stepped_def)

interpretation readable_write: inductive_invariant store_init "store_step readable"
  "\<lambda>s. store_ok s \<and> synced s"
proof
  show "store_init s \<Longrightarrow> store_ok s \<and> synced s" for s
    by (simp add: store_init_ok) (simp add: store_init_def)
  show "store_ok s \<and> synced s \<Longrightarrow> store_step readable s t \<Longrightarrow> store_ok t \<and> synced t" for s t
    using store_step_stepped [of readable s t] by (auto simp: stepped_def readable_def)
qed

lemma readable_step:
  assumes "reachable store_init (store_step readable) s" and "store_step readable s t"
  shows "store_ok s \<and> synced t \<and> (mem t = mem s \<or> doc_step (mem s) (mem t))"
proof -
  have s: "store_ok s \<and> synced s" using readable_write.reachable_inv [OF assms(1)] .
  then obtain w where "readable w \<or> w = Written" "stepped w s t"
    using store_step_stepped [OF assms(2)] by blast
  then have "readable w \<and> stepped w s t" by (auto simp: readable_def)
  with s show ?thesis by (auto simp: stepped_def)
qed

lemma synced_disk: "synced s \<Longrightarrow> mem s \<noteq> empty_data \<Longrightarrow> disk s = Some (mem s)"
  by (auto simp: synced_def load_def split: option.splits if_splits)

text \<open>The relay slot over one document step.\<close>

lemma doc_step_slot:
  assumes "doc_step d d'" and "d_relay d = Some r"
  shows "d_relay d' = Some r \<or> d_relay d' = None \<and>
    (\<exists>j rc. obj_get (jobs d') (r_sourceTxHash r) = Some j \<and> j_state j \<in> {Done, Dead}
      \<and> history_of j \<noteq> [] \<and> last (history_of j) = receipt_entry r rc)"
  using assms
  by (cases rule: doc_step.cases) (auto simp: rewound_def obj_simps finished_job_def history_of_def)

lemma doc_step_hold:
  assumes "doc_step d d'" and "truthy (sourceHold d)"
  shows "truthy (sourceHold d') \<and> d_cursor d' = d_cursor d \<and> checkpoints d' = checkpoints d
    \<and> (d_relay d' = d_relay d \<or> d_relay d' = None)"
  using assms by (cases rule: doc_step.cases) (auto simp: truthy_def checkpoints_def)

lemma commit_Inr: "commit w nxt s = (Inr x, t) \<longleftrightarrow> w = Written \<and> t = s\<lparr>mem := nxt, disk := Some nxt\<rparr>"
  by (auto simp: commit_def seq_def reload_def throw_def Let_def
      split: write_outcome.splits fail_point.splits sum.splits if_splits)

lemma commit_Written: "commit Written nxt s = (Inr (), s\<lparr>mem := nxt, disk := Some nxt\<rparr>)"
  by (simp add: commit_def)

lemma commit_mem:
  assumes "synced s" and "readable w" and "load (Some nxt) = Inr nxt"
  shows "mem (snd (commit w nxt s)) = mem s \<or> mem (snd (commit w nxt s)) = nxt"
proof (cases w)
  case (Failed p b)
  then show ?thesis
    using assms by (cases p) (auto simp: commit_def synced_def readable_def seq_def reload_def throw_def)
qed (simp add: commit_def)

lemma seq_commit_Inr:
  "seq (commit w nxt) (\<lambda>_. ret y) s = (Inr x, t) \<longleftrightarrow>
     w = Written \<and> t = s\<lparr>mem := nxt, disk := Some nxt\<rparr> \<and> x = y"
  by (cases "commit w nxt s")
    (auto simp: seq_def commit_Inr commit_Written split: sum.splits)

lemma commitSourceRange_Inr:
  assumes "commitSourceRange w now lo e js s = (Inr x, t)"
  obtains js' where "add_source_jobs lo e now js (jobs (mem s)) = Inr js'" "jobs (mem t) = js'"
    "d_cursor (mem t) = c_height e" "last (checkpoints (mem t)) = e" "disk t = Some (mem t)"
    "lo = d_cursor (mem s) + 1" "lo \<le> c_height e"
  using assms
  by (auto simp: commitSourceRange_def commit_Inr checkpoints_def trim_checkpoints_def
      split: if_splits sum.splits)

lemma holdSource_never_Inr: "holdSource w reason s \<noteq> (Inr x, t)"
  by (simp add: holdSource_def) (simp add: seq_def throw_def split: prod.splits sum.splits)

lemma sort_key_first:
  assumes "x \<in> set xs" and "f x = (0 :: nat)" and "\<And>y. y \<in> set xs \<Longrightarrow> f y = 0 \<Longrightarrow> y = x"
  shows "hd (sort_key f xs) = x"
proof -
  have ne: "sort_key f xs \<noteq> []" using assms(1) by (metis empty_iff list.set(1) set_sort)
  then obtain y ys where s: "sort_key f xs = y # ys" by (cases "sort_key f xs") auto
  have "\<forall>z \<in> set (y # ys). f y \<le> f z"
    using sorted_sort_key [of f xs] s by simp
  moreover have "x \<in> set (y # ys)" using assms(1) s by (metis set_sort)
  ultimately have "f y = 0" using assms(2) by fastforce
  moreover have "y \<in> set xs" using s by (metis list.set_intros(1) set_sort)
  ultimately show ?thesis using assms(3) s by simp
qed

section \<open>A concrete run\<close>

text \<open>Anchor, one scanned job, one reserved relay: the states the witnesses use.\<close>

definition sample_hash :: "char \<Rightarrow> string" where
  "sample_hash c = ''0x'' @ replicate 64 c"

definition sample_job :: job where
  "sample_job = \<lparr>j_txHash = sample_hash CHR ''a'', j_blockNumber = 12, j_blockHash = Some (sample_hash CHR ''b''),
     j_transactionIndex = Some 3, j_action = 0, j_eventName = ''MarkIssued'', j_logCount = 1,
     j_state = Discovered, j_attempts = 0, j_lastError = None, j_ascTxHash = None, j_queryId = None,
     j_discoveredAt = 0, j_updatedAt = 0, j_skipObservation = None, j_relayHistory = None\<rparr>"

definition sample_relay :: relay_envelope where
  "sample_relay = \<lparr>r_sourceTxHash = sample_hash CHR ''a'', r_queryId = sample_hash CHR ''c'',
     r_hash = sample_hash CHR ''d'', r_raw = ''0x02'', r_nonce = 0, r_chainId = 102031,
     r_to = ''0x01'', r_signer = ''0x02'', r_data = ''0x03''\<rparr>"

definition sample_anchor :: checkpoint where
  "sample_anchor = \<lparr>c_height = 9, c_hash = sample_hash CHR ''e''\<rparr>"

definition sample_end :: checkpoint where
  "sample_end = \<lparr>c_height = 20, c_hash = sample_hash CHR ''f''\<rparr>"

definition sample0 :: store where
  "sample0 = \<lparr>mem = empty_data, disk = None\<rparr>"

definition sample1 :: store where
  "sample1 = snd (initializeSource Written sample_anchor sample0)"

definition sample2 :: store where
  "sample2 = snd (commitSourceRange Written 100 10 sample_end [sample_job] sample1)"

definition sample3 :: store where
  "sample3 = snd (reserveRelay Written 200 sample_relay sample2)"

definition sample4 :: store where
  "sample4 = snd (finishRelay Written 300 (sample_hash CHR ''d'')
     \<lparr>fr_status = Success, fr_blockNumber = 7, fr_blockHash = sample_hash CHR ''9''\<rparr> sample3)"

lemma sample_reachable:
  assumes "ok Written"
  shows "reachable store_init (store_step ok) sample1" "reachable store_init (store_step ok) sample2"
    "reachable store_init (store_step ok) sample3"
proof -
  have "store_init sample0" by (simp add: store_init_def sample0_def synced_def load_def)
  then have 0: "reachable store_init (store_step ok) sample0" by (rule reachable_init)
  show 1: "reachable store_init (store_step ok) sample1"
    unfolding sample1_def by (rule reachable_step [OF 0 step_initSource]) (rule assms)
  show 2: "reachable store_init (store_step ok) sample2"
    unfolding sample2_def by (rule reachable_step [OF 1 step_range]) (rule assms)
  show "reachable store_init (store_step ok) sample3"
    unfolding sample3_def by (rule reachable_step [OF 2 step_reserve]) (rule assms)
qed

lemma sample3_relay: "d_relay (mem sample3) = Some sample_relay" by code_simp

lemma sample_ok: "store_ok sample1" "store_ok sample2" "store_ok sample3"
  by (rule any_write.reachable_inv [OF sample_reachable(1)]
      any_write.reachable_inv [OF sample_reachable(2)]
      any_write.reachable_inv [OF sample_reachable(3)], simp)+

section \<open>Properties\<close>

text \<open>C14. Whatever the calls and however their writes end, the state file can be loaded again:
  neither check of \<^verbatim>\<open>load\<close> ever fires on a file the worker wrote, and the loaded document keeps
  its checkpoints strictly increasing, at most 129 long, with the last one at the cursor.\<close>

theorem store_always_loads:
  assumes "reachable store_init (store_step (\<lambda>_. True)) s"
  shows "\<exists>d. load (disk s) = Inr d \<and> relay_consistent d
    \<and> sorted_wrt (\<lambda>a b. c_height a < c_height b) (checkpoints d) \<and> length (checkpoints d) \<le> 129
    \<and> (checkpoints d \<noteq> [] \<longrightarrow> c_height (last (checkpoints d)) = d_cursor d)
    \<and> (\<forall>h j. obj_get (jobs d) h = Some j \<longrightarrow> j_blockNumber j \<le> d_cursor d)"
proof -
  from load_ok [OF any_write.reachable_inv [OF assms]]
  obtain d where "load (disk s) = Inr d" "data_ok d" by blast
  then show ?thesis
    by (intro exI [of _ d]) (auto simp: data_ok_def checkpoints_ok_def Let_def split: if_splits)
qed

theorem store_always_loads_witness:
  "\<exists>d. load (disk sample3) = Inr d \<and> relay_consistent d \<and> d_relay d = Some sample_relay
    \<and> c_height (last (checkpoints d)) = d_cursor d"
proof -
  from store_always_loads [OF sample_reachable(3)] obtain d where
    d: "load (disk sample3) = Inr d" "relay_consistent d"
      "checkpoints d \<noteq> [] \<longrightarrow> c_height (last (checkpoints d)) = d_cursor d" by auto
  have "load (disk sample3) = Inr (mem sample3)" "checkpoints (mem sample3) \<noteq> []" by code_simp+
  with d sample3_relay show ?thesis by auto
qed

text \<open>C24. As long as the file can be read back after a failed write, memory and disk agree after every
  call, so a crash loses nothing the process relied on.\<close>

theorem store_memory_is_disk:
  assumes "reachable store_init (store_step readable) s"
  shows "load (disk s) = Inr (mem s)"
  using readable_write.reachable_inv [OF assms] by (simp add: synced_def)

theorem store_memory_is_disk_witness:
  "load (disk sample3) = Inr (mem sample3) \<and> d_relay (mem sample3) = Some sample_relay"
  using store_memory_is_disk [OF sample_reachable(3)] sample3_relay by (simp add: readable_def)

text \<open>C13. The relay slot holds one signed transaction at a time, and once filled it is emptied only
  together with recording the receipt of that very transaction in the job's history, on disk.\<close>

theorem relay_slot_released_by_receipt:
  assumes "reachable store_init (store_step readable) s" and "store_step readable s t"
    and "d_relay (mem s) = Some r"
  shows "d_relay (mem t) = Some r \<or>
    (\<exists>j rc d. disk t = Some d \<and> d_relay d = None \<and> obj_get (jobs d) (r_sourceTxHash r) = Some j
      \<and> j_state j \<in> {Done, Dead} \<and> history_of j \<noteq> [] \<and> last (history_of j) = receipt_entry r rc)"
proof -
  have t: "synced t" and st: "mem t = mem s \<or> doc_step (mem s) (mem t)"
    using readable_step [OF assms(1,2)] by auto
  from st show ?thesis
  proof
    assume "doc_step (mem s) (mem t)"
    from doc_step_slot [OF this assms(3)] show ?thesis
    proof (elim disjE conjE exE)
      fix j rc assume j: "obj_get (jobs (mem t)) (r_sourceTxHash r) = Some j" "j_state j \<in> {Done, Dead}"
        "history_of j \<noteq> []" "last (history_of j) = receipt_entry r rc" "d_relay (mem t) = None"
      then have "disk t = Some (mem t)" by (intro synced_disk [OF t]) (auto simp: empty_data_def)
      with j show ?thesis by blast
    qed simp
  qed (simp add: assms(3))
qed

theorem relay_slot_released_by_receipt_witness:
  "d_relay (mem sample3) = Some sample_relay \<and> (\<exists>d j rc. disk sample4 = Some d \<and> d_relay d = None
    \<and> obj_get (jobs d) (sample_hash CHR ''a'') = Some j \<and> last (history_of j) = receipt_entry sample_relay rc)"
proof -
  have w: "readable Written" by (simp add: readable_def)
  have "store_step readable sample3 sample4"
    unfolding sample4_def by (rule step_finish) (rule w)
  note relay_slot_released_by_receipt [OF sample_reachable(3) this sample3_relay, OF w]
  moreover have "d_relay (mem sample4) \<noteq> Some sample_relay"
    "r_sourceTxHash sample_relay = sample_hash CHR ''a''" by code_simp+
  ultimately show ?thesis using sample3_relay by metis
qed

text \<open>C23. Scan progress is atomic: after \<^verbatim>\<open>commitSourceRange\<close>, whatever its result, the document is
  either untouched or holds every job of the range with the cursor at the range's end, and no job
  it held before has changed.\<close>

theorem commitSourceRange_atomic:
  assumes "store_ok s" and "synced s" and "readable w"
    and "commitSourceRange w now lo e js s = (res, t)"
  shows "mem t = mem s \<or>
    d_cursor (mem t) = c_height e \<and> d_cursor (mem s) < c_height e
    \<and> last (checkpoints (mem t)) = e
    \<and> (\<forall>x \<in> set js. \<exists>y. obj_get (jobs (mem t)) (j_txHash x) = Some y
         \<and> j_blockHash y = j_blockHash x \<and> j_blockNumber y = j_blockNumber x)
    \<and> (\<forall>h j. obj_get (jobs (mem s)) h = Some j \<longrightarrow> obj_get (jobs (mem t)) h = Some j)"
proof (cases "\<exists>js'. \<not> truthy (sourceHold (mem s)) \<and> \<not> truthy (hubHold (mem s))
    \<and> lo = d_cursor (mem s) + 1 \<and> lo \<le> c_height e \<and> add_source_jobs lo e now js (jobs (mem s)) = Inr js'")
  case True
  then obtain js' where g: "\<not> truthy (sourceHold (mem s))" "\<not> truthy (hubHold (mem s))"
    "lo = d_cursor (mem s) + 1" "lo \<le> c_height e"
    and js: "add_source_jobs lo e now js (jobs (mem s)) = Inr js'" by blast
  define nxt where "nxt = mem s\<lparr>jobs := js',
    sourceCheckpoints := Some (trim_checkpoints (checkpoints (mem s) @ [e])), d_cursor := c_height e\<rparr>"
  have st: "doc_step (mem s) nxt"
    unfolding nxt_def by (rule doc_range) (use g js in auto)
  then have "data_ok nxt" using assms(1) doc_step_data_ok by (simp add: store_ok_def)
  moreover have "t = snd (commit w nxt s)"
    using assms(4) g js by (simp add: commitSourceRange_def nxt_def)
  ultimately have "mem t = mem s \<or> mem t = nxt"
    using commit_mem assms(2,3) load_data_ok by blast
  moreover have "last (checkpoints nxt) = e" "d_cursor nxt = c_height e" "jobs nxt = js'"
    by (simp_all add: nxt_def checkpoints_def trim_checkpoints_def)
  ultimately show ?thesis
    using g add_source_jobs_old [OF js] add_source_jobs_all [OF js] by auto
next
  case False
  with assms(4) have "t = s"
    by (auto simp: commitSourceRange_def split: if_splits sum.splits)
  then show ?thesis by simp
qed

theorem commitSourceRange_atomic_witness:
  "d_cursor (mem sample1) = 9 \<and> d_cursor (mem sample2) = 20
    \<and> (\<exists>y. obj_get (jobs (mem sample2)) (j_txHash sample_job) = Some y \<and> j_blockNumber y = 12)"
proof -
  have "synced sample1"
    using readable_write.reachable_inv [OF sample_reachable(1)] by (simp add: readable_def)
  moreover have "commitSourceRange Written 100 10 sample_end [sample_job] sample1 = (Inr (), sample2)"
    by code_simp
  moreover have "d_cursor (mem sample1) = 9" "d_cursor (mem sample2) = 20" by code_simp+
  ultimately show ?thesis
    using commitSourceRange_atomic [OF sample_ok(1) _ _, of Written 100 10 sample_end "[sample_job]" "Inr ()" sample2]
    by (auto simp: readable_def sample_job_def)
qed

text \<open>A rewind drops only jobs above the ancestor that left no trace on the hub chain: no signed
  transaction, no query, no receipt. Everything at or below the ancestor and the relay slot stay,
  and the ancestor becomes the cursor and the last checkpoint.\<close>

theorem rewind_drops_only_unsigned:
  assumes "store_ok s" and "rewindUnsignedSource w now a s = (Inr n, t)"
  shows "(\<forall>h j. obj_get (jobs (mem s)) h = Some j \<longrightarrow>
      obj_get (jobs (mem t)) h = Some j \<or> c_height a < j_blockNumber j \<and> \<not> relayed j)
    \<and> (\<forall>h j. obj_get (jobs (mem t)) h = Some j \<longrightarrow>
        obj_get (jobs (mem s)) h = Some j \<and> j_blockNumber j \<le> c_height a)
    \<and> d_relay (mem t) = d_relay (mem s) \<and> d_cursor (mem t) = c_height a
    \<and> last (checkpoints (mem t)) = a \<and> disk t = Some (mem t)"
proof -
  let ?d = "mem s"
  have k: "keys_ok (jobs ?d)" and c: "checkpoints_ok ?d"
    using assms(1) by (auto simp: store_ok_def data_ok_def)
  have a: "a \<in> set (checkpoints ?d)" and u: "\<not> list_ex relayed (affected_jobs (c_height a) ?d)"
    and t: "mem t = rewound now a ?d" "disk t = Some (mem t)"
    using assms(2)
    by (auto simp: rewindUnsignedSource_def list_ex_iff seq_commit_Inr holdSource_never_Inr
        dest: checkpoint_eqI split: if_splits)
  have "last (checkpoints (mem t)) = a"
    using filter_le_last [of "checkpoints ?d" a] a c
    by (simp add: t rewound_def checkpoints_def checkpoints_ok_def Let_def)
  moreover have "\<not> relayed j" if "obj_get (jobs ?d) h = Some j" "c_height a < j_blockNumber j" for h j
    using u that affected_jobs_get [OF k, of j] keys_okD [OF k that(1)] by (auto simp: list_ex_iff)
  ultimately show ?thesis
    using t by (auto simp: rewound_get [OF k] not_le) (simp_all add: rewound_def)
qed

theorem rewind_drops_only_unsigned_witness:
  "\<exists>t. rewindUnsignedSource Written 500 sample_anchor sample2 = (Inr 1, t) \<and> d_cursor (mem t) = 9
    \<and> obj_get (jobs (mem t)) (sample_hash CHR ''a'') = None"
proof -
  define t where "t = snd (rewindUnsignedSource Written 500 sample_anchor sample2)"
  have "rewindUnsignedSource Written 500 sample_anchor sample2
    = (Inr 1, snd (rewindUnsignedSource Written 500 sample_anchor sample2))" by code_simp
  then have r: "rewindUnsignedSource Written 500 sample_anchor sample2 = (Inr 1, t)" by (simp add: t_def)
  have "obj_get (jobs (mem (snd (rewindUnsignedSource Written 500 sample_anchor sample2))))
    (sample_hash CHR ''a'') = None" by code_simp
  with r rewind_drops_only_unsigned [OF sample_ok(2) r] show ?thesis
    by (auto simp: t_def sample_anchor_def)
qed

text \<open>A source hold is final: from then on no call advances the cursor, changes the checkpoints,
  or fills the relay slot.\<close>

theorem source_hold_is_final:
  assumes "reachable store_init (store_step readable) s" and "truthy (sourceHold (mem s))"
    and "store_step readable s t"
  shows "truthy (sourceHold (mem t)) \<and> d_cursor (mem t) = d_cursor (mem s)
    \<and> checkpoints (mem t) = checkpoints (mem s)
    \<and> (d_relay (mem t) = d_relay (mem s) \<or> d_relay (mem t) = None)"
  using readable_step [OF assms(1,3)] doc_step_hold [OF _ assms(2)] assms(2) by metis

definition sample_held :: store where
  "sample_held = snd (holdSource Written ''SOURCE_REORG_TOUCHES_RELAYED_JOB'' sample3 :: (store_error + unit) \<times> store)"

theorem source_hold_is_final_witness:
  "truthy (sourceHold (mem sample_held)) \<and>
   d_cursor (mem (snd (commitSourceRange Written 900 21 \<lparr>c_height = 30, c_hash = []\<rparr> [] sample_held))) = 20"
proof -
  have "reachable store_init (store_step readable) sample_held"
    unfolding sample_held_def
    by (rule reachable_step [OF sample_reachable(3) step_holdSource]) (simp_all add: readable_def)
  moreover have t: "truthy (sourceHold (mem sample_held))" "d_cursor (mem sample_held) = 20" by code_simp+
  moreover have "store_step readable sample_held
    (snd (commitSourceRange Written 900 21 \<lparr>c_height = 30, c_hash = []\<rparr> [] sample_held))"
    by (rule step_range) (simp add: readable_def)
  ultimately show ?thesis using source_hold_is_final by simp
qed

text \<open>The owner of the unresolved nonce is never starved: it is the first pending job.\<close>

theorem relay_owner_first:
  assumes "data_ok d" and "d_relay d = Some r" and "\<not> reserved (r_sourceTxHash r)" and "1 \<le> n"
  shows "\<exists>j r'. jobsReadyForDispatch d reserved (Some n) = j # r' \<and> j_txHash j = r_sourceTxHash r"
proof -
  obtain j where j: "obj_get (jobs d) (r_sourceTxHash r) = Some j" "j_state j = Submitted"
    using assms(1,2) by (auto simp: data_ok_def relay_consistent_alt)
  have k: "keys_ok (jobs d)" using assms(1) by (simp add: data_ok_def)
  let ?js = "filter (\<lambda>j. \<not> terminal_state (j_state j)) (map snd (jobs d))"
  have h: "j_txHash j = r_sourceTxHash r" using keys_okD [OF k j(1)] .
  have js: "j \<in> set ?js"
    using j k obj_values_get [of "jobs d" j] by (auto simp: keys_ok_def terminal_state_def)
  have u: "y = j" if "y \<in> set ?js" "j_txHash y = r_sourceTxHash r" for y
    using that k j obj_values_get [of "jobs d" y] by (auto simp: keys_ok_def)
  have own: "owns_relay d x \<longleftrightarrow> r_sourceTxHash r = x" for x by (simp add: owns_relay_def assms(2))
  have hd: "hd (pending d) = j" unfolding pending_def
  proof (rule sort_key_first [OF js])
    show "y = j" if "y \<in> set ?js" "(if owns_relay d (j_txHash y) then 0 else 1) = (0::nat)" for y
      using that(2) u [OF that(1)] unfolding own by (metis one_neq_zero)
  qed (simp add: own h)
  have "j \<in> set (pending d)" using js by (simp add: pending_def)
  with hd obtain r' where "pending d = j # r'" by (cases "pending d") auto
  then show ?thesis
    using assms(3,4) h by (cases "nat n") (auto simp: jobsReadyForDispatch_def slice0_def)
qed

theorem relay_owner_first_witness:
  "\<exists>j r'. jobsReadyForDispatch (mem sample3) (\<lambda>_. False) (Some 1) = j # r' \<and> j_txHash j = sample_hash CHR ''a''"
proof -
  have "data_ok (mem sample3)" using sample_ok(3) by (simp add: store_ok_def)
  from relay_owner_first [OF this sample3_relay, of "\<lambda>_. False" 1] show ?thesis
    by (simp add: sample_relay_def)
qed

end
