(* ===== verification/Worker_World.thy ===== *)
theory Worker_World
  imports Worker_Store
begin

text \<open>
  The setting of the worker's asynchronous code. Every \<^verbatim>\<open>await\<close> hands control to the other tasks
  of the process: the model lets them make any sequence of store calls there, before the answer
  of the awaited call is seen. Answers, write outcomes and the clock are functions of a counter,
  so two reads of the same thing may differ.
\<close>

record world =
  w_store :: store
  w_tick :: nat
  w_active :: bool
  w_stop :: bool
  w_sent :: "relay_envelope list"

record env =
  e_now :: "nat \<Rightarrow> int"
  e_write :: "nat \<Rightarrow> write_outcome"
  e_stopped :: "nat \<Rightarrow> bool"
  e_other :: "nat \<Rightarrow> store \<Rightarrow> store"

type_synonym 'a task = "(world, store_error, 'a) io"

text \<open>A synchronous call of the store.\<close>

definition call :: "env \<Rightarrow> (write_outcome \<Rightarrow> int \<Rightarrow> (store, store_error, 'a) io) \<Rightarrow> 'a task" where
  "call E op = (\<lambda>w. case op (e_write E (w_tick w)) (e_now E (w_tick w)) (w_store w) of
     (r, s) \<Rightarrow> (r, w\<lparr>w_store := s, w_tick := Suc (w_tick w)\<rparr>))"

text \<open>An awaited call outside the process: other tasks run, then the answer or a failure.\<close>

definition await :: "env \<Rightarrow> (nat \<Rightarrow> 'a option) \<Rightarrow> 'a task" where
  "await E ans = (\<lambda>w. (case ans (w_tick w) of None \<Rightarrow> Inl RpcError | Some x \<Rightarrow> Inr x,
     w\<lparr>w_store := e_other E (w_tick w) (w_store w), w_tick := Suc (w_tick w)\<rparr>))"

definition doc :: "world \<Rightarrow> data" where
  "doc w = mem (w_store w)"

text \<open>The abort signal: raised from outside, or by the worker's own \<^verbatim>\<open>stop\<close>.\<close>

definition aborted :: "env \<Rightarrow> world \<Rightarrow> bool" where
  "aborted E w \<longleftrightarrow> e_stopped E (w_tick w) \<or> w_stop w"

definition throwIfStopped :: "env \<Rightarrow> unit task" where
  "throwIfStopped E = seq (gets (aborted E)) (\<lambda>b. guard (\<not> b) WorkerStopped)"

text \<open>The other tasks only use the store through its calls, with write outcomes that \<open>ok\<close> allows.\<close>

definition rely :: "(write_outcome \<Rightarrow> bool) \<Rightarrow> env \<Rightarrow> bool" where
  "rely ok E \<longleftrightarrow> (\<forall>n. ok (e_write E n)) \<and> (\<forall>n s. (store_step ok)\<^sup>*\<^sup>* s (e_other E n s))"

text \<open>What a task does between two worlds, seen from outside: some sequence of store calls, and
  nothing sent.\<close>

definition runs_from :: "(write_outcome \<Rightarrow> bool) \<Rightarrow> world \<Rightarrow> world \<Rightarrow> bool" where
  "runs_from ok w0 w \<longleftrightarrow> (store_step ok)\<^sup>*\<^sup>* (w_store w0) (w_store w) \<and> w_sent w = w_sent w0"

text \<open>A task that only calls the store and reads: the contract most of the worker's code meets.\<close>

abbreviation calls_only :: "(write_outcome \<Rightarrow> bool) \<Rightarrow> 'a task \<Rightarrow> bool" where
  "calls_only ok m \<equiv> (\<forall>w0. keeps (runs_from ok w0) m)"

definition store_call ::
  "(write_outcome \<Rightarrow> bool) \<Rightarrow> (write_outcome \<Rightarrow> int \<Rightarrow> (store, store_error, 'a) io) \<Rightarrow> bool" where
  "store_call ok op \<longleftrightarrow> (\<forall>w now s. ok w \<longrightarrow> snd (op w now s) = s \<or> store_step ok s (snd (op w now s)))"

named_theorems task_intro \<open>rules for tasks that use the store only through its calls\<close>

lemma call_keeps [task_intro]:
  assumes "rely ok E" and "store_call ok op"
  shows "keeps (runs_from ok w0) (call E op)"
proof -
  have "runs_from ok w0 (snd (call E op w))" if w: "runs_from ok w0 w" for w
  proof -
    let ?t = "snd (op (e_write E (w_tick w)) (e_now E (w_tick w)) (w_store w))"
    have "?t = w_store w \<or> store_step ok (w_store w) ?t"
      using assms by (simp add: rely_def store_call_def)
    moreover have "w_store (snd (call E op w)) = ?t" "w_sent (snd (call E op w)) = w_sent w"
      by (simp_all add: call_def split: prod.split)
    ultimately show ?thesis using w by (auto simp: runs_from_def intro: rtranclp.rtrancl_into_rtrancl)
  qed
  then show ?thesis unfolding triple_cases by (metis snd_conv)
qed

lemma store_calls [task_intro]:
  "store_call ok (\<lambda>w now. bindScope w sc)"
  "store_call ok (\<lambda>w now. initializeHubSigner w n)" "store_call ok (\<lambda>w now. initializeSource w cp)"
  "store_call ok (\<lambda>w now. commitSourceRange w now lo e js)" "store_call ok (\<lambda>w now. rewindUnsignedSource w now a)"
  "store_call ok (\<lambda>w now. reserveRelay w now r)" "store_call ok (\<lambda>w now. finishRelay w now h rc)"
  "patch_ok p \<Longrightarrow> store_call ok (\<lambda>w now. store_update w now h p)"
  "store_call ok (\<lambda>w now. assertSourceReady)" "store_call ok (\<lambda>w now. assertHubReady)"
  by (auto simp: store_call_def assertSourceReady_def assertHubReady_def intro: store_step.intros)

lemma hold_calls [task_intro]:
  fixes dummy :: "'a itself"
  assumes "reason \<noteq> []"
  shows "store_call ok (\<lambda>w now. holdSource w reason :: (store, store_error, 'a) io)"
    and "store_call ok (\<lambda>w now. holdHub w reason :: (store, store_error, 'a) io)"
proof -
  have "snd (holdSource w reason s :: (store_error + 'a) \<times> store)
      = snd (holdSource w reason s :: (store_error + unit) \<times> store)"
    "snd (holdHub w reason s :: (store_error + 'a) \<times> store)
      = snd (holdHub w reason s :: (store_error + unit) \<times> store)" for w s
    by (simp_all add: holdSource_def holdHub_def)
  then show "store_call ok (\<lambda>w now. holdSource w reason :: (store, store_error, 'a) io)"
    and "store_call ok (\<lambda>w now. holdHub w reason :: (store, store_error, 'a) io)"
    using assms by (auto simp: store_call_def intro: step_holdSource step_holdHub)
qed

lemma await_keeps [task_intro]:
  assumes "rely ok E"
  shows "keeps (runs_from ok w0) (await E ans)"
proof -
  have "runs_from ok w0 (snd (await E ans w))" if "runs_from ok w0 w" for w
    using assms that unfolding rely_def runs_from_def await_def by (auto intro: rtranclp_trans)
  then show ?thesis unfolding triple_cases by (metis snd_conv)
qed

lemma throwIfStopped_keeps [task_intro]: "keeps P (throwIfStopped E)"
  by (simp add: triple_cases throwIfStopped_def aborted_def)

lemma keeps_rules [task_intro]:
  "keeps P m \<Longrightarrow> (\<And>x. keeps P (f x)) \<Longrightarrow> keeps P (seq m f)"
  "keeps P m \<Longrightarrow> (\<And>e. keeps P (h e)) \<Longrightarrow> keeps P (try_catch m h)"
  "(b \<Longrightarrow> keeps P m) \<Longrightarrow> (\<not> b \<Longrightarrow> keeps P m') \<Longrightarrow> keeps P (if b then m else m')"
  "keeps P (ret x)" "keeps P (throw e)" "keeps P (guard b e)" "keeps P (gets g)"
  by (auto intro: triple_intro)

lemma keeps_option [task_intro]:
  "(x = None \<Longrightarrow> keeps P m) \<Longrightarrow> (\<And>y. x = Some y \<Longrightarrow> keeps P (f y)) \<Longrightarrow>
     keeps P (case x of None \<Rightarrow> m | Some y \<Rightarrow> f y)"
  by (cases x) auto

lemma keeps_sum [task_intro]:
  "(\<And>y. x = Inl y \<Longrightarrow> keeps P (g y)) \<Longrightarrow> (\<And>y. x = Inr y \<Longrightarrow> keeps P (f y)) \<Longrightarrow>
     keeps P (case x of Inl y \<Rightarrow> g y | Inr y \<Rightarrow> f y)"
  by (cases x) auto

section \<open>What a successful task has seen\<close>

text \<open>
  Partial correctness of the normal exit, from a world whose counter has reached \<open>k\<close>: the rules
  keep the answers of the awaited calls as facts, in the order they were asked for.
\<close>

abbreviation yields :: "nat \<Rightarrow> 'a task \<Rightarrow> ('a \<Rightarrow> world \<Rightarrow> bool) \<Rightarrow> bool" where
  "yields k m Q \<equiv> triple (\<lambda>w. k \<le> w_tick w) m Q (\<lambda>_ _. True)"

named_theorems yields_intro \<open>rules for the normal exit of a task\<close>

lemma yields_await [yields_intro]:
  "(\<And>x n. k \<le> n \<Longrightarrow> ans n = Some x \<Longrightarrow> yields (Suc n) (f x) Q) \<Longrightarrow> yields k (seq (await E ans) f) Q"
proof -
  assume A: "\<And>x n. k \<le> n \<Longrightarrow> ans n = Some x \<Longrightarrow> yields (Suc n) (f x) Q"
  have "Q y u" if w: "k \<le> w_tick w" and r: "seq (await E ans) f w = (Inr y, u)" for w y u
  proof -
    obtain x t where x: "ans (w_tick w) = Some x" and f: "f x t = (Inr y, u)" "w_tick t = Suc (w_tick w)"
      using r by (auto simp: seq_Inr await_def split: option.splits)
    from tripleD_Inr [OF A [OF w x] _ f(1)] f(2) show ?thesis by simp
  qed
  then show ?thesis by (simp add: triple_cases)
qed

lemma yields_guard [yields_intro]:
  "(b \<Longrightarrow> yields k (f ()) Q) \<Longrightarrow> yields k (seq (guard b e) f) Q"
  unfolding triple_cases by simp

lemma yields_gets [yields_intro]:
  "(\<And>x. yields k (f x) Q) \<Longrightarrow> yields k (seq (gets g) f) Q"
  unfolding triple_cases by simp

lemma yields_call [yields_intro]:
  "(\<And>x. yields k (f x) Q) \<Longrightarrow> yields k (seq (call E op) f) Q"
proof -
  assume A: "\<And>x. yields k (f x) Q"
  have "Q y u" if w: "k \<le> w_tick w" and r: "seq (call E op) f w = (Inr y, u)" for w y u
  proof -
    obtain x t where "f x t = (Inr y, u)" "w_tick t = Suc (w_tick w)"
      using r by (auto simp: seq_Inr call_def split: prod.splits)
    then show ?thesis using tripleD_Inr [OF A, of t] w by simp
  qed
  then show ?thesis by (simp add: triple_cases)
qed

lemma yields_call_ret:
  assumes "\<And>o' now s y w. op o' now s = (Inr y, w_store w) \<Longrightarrow> Q x w"
  shows "yields k (seq (call E op) (\<lambda>_. ret x)) Q"
  unfolding triple_cases using assms by (auto simp: seq_Inr call_def split: prod.splits)

lemma yields_seq:
  "yields k m (\<lambda>x w. k \<le> w_tick w \<and> P x) \<Longrightarrow> (\<And>x. P x \<Longrightarrow> yields k (f x) Q) \<Longrightarrow> yields k (seq m f) Q"
  by (rule triple_seq [where R = "\<lambda>x w. k \<le> w_tick w \<and> P x"]) (auto simp: triple_cases)

lemma yields_if [yields_intro]:
  "(b \<Longrightarrow> yields k m Q) \<Longrightarrow> (\<not> b \<Longrightarrow> yields k m' Q) \<Longrightarrow> yields k (if b then m else m') Q"
  by simp

lemma yields_throw [yields_intro]: "yields k (throw e) Q"
  by (simp add: triple_cases)

lemma yields_throw_seq [yields_intro]: "yields k (seq (throw e) f) Q"
  by (simp add: triple_cases)

lemma yields_ret [yields_intro]: "(\<And>w. k \<le> w_tick w \<Longrightarrow> Q x w) \<Longrightarrow> yields k (ret x) Q"
  by (simp add: triple_cases)

text \<open>The counter never goes back.\<close>

lemma ticks:
  "keeps (\<lambda>w. k \<le> w_tick w) (call E op)" "keeps (\<lambda>w. k \<le> w_tick w) (await E ans)"
  "keeps (\<lambda>w. k \<le> w_tick w) (throwIfStopped E)"
  by (auto simp: triple_cases call_def await_def throwIfStopped_def aborted_def split: prod.splits)

lemmas tick_intro = ticks keeps_rules keeps_option keeps_sum

lemma yields_any:
  assumes "keeps (\<lambda>w. k \<le> w_tick w) m" and "\<And>x. yields k (f x) Q"
  shows "yields k (seq m f) Q"
proof (rule triple_seq)
  show "triple (\<lambda>w. k \<le> w_tick w) m (\<lambda>_ w. k \<le> w_tick w) (\<lambda>_ _. True)"
    by (rule triple_weaken [OF assms(1)]) simp_all
qed (rule assms(2))

lemma runs_from_reachable:
  assumes "runs_from ok w0 w" and "reachable store_init (store_step ok) (w_store w0)"
  shows "reachable store_init (store_step ok) (w_store w)"
proof -
  have "(store_step ok)\<^sup>*\<^sup>* (w_store w0) t \<Longrightarrow> reachable store_init (store_step ok) t" for t
    by (induction rule: rtranclp_induct) (auto intro: assms(2) reachable_step)
  with assms(1) show ?thesis by (simp add: runs_from_def)
qed

lemma runs_from_self: "runs_from ok w w"
  by (simp add: runs_from_def)

lemma calls_onlyD: "calls_only ok m \<Longrightarrow> runs_from ok w (snd (m w))"
  using keepsD [of "runs_from ok w" m w] runs_from_self [of ok w] by blast

text \<open>An undisturbed process whose writes succeed, for the witnesses.\<close>

definition quiet_env :: env where
  "quiet_env = \<lparr>e_now = (\<lambda>n. 1000 + int n), e_write = (\<lambda>_. Written), e_stopped = (\<lambda>_. False),
     e_other = (\<lambda>_ s. s)\<rparr>"

lemma quiet_rely: "ok Written \<Longrightarrow> rely ok quiet_env"
  by (simp add: rely_def quiet_env_def)

lemma await_quiet:
  "seq (await quiet_env ans) f w = (case ans (w_tick w) of
     None \<Rightarrow> (Inl RpcError, w\<lparr>w_tick := Suc (w_tick w)\<rparr>) | Some x \<Rightarrow> f x (w\<lparr>w_tick := Suc (w_tick w)\<rparr>))"
  by (simp add: seq_def await_def quiet_env_def split: option.split)

end
