(* ===== verification/Source_Scan.thy ===== *)
theory Source_Scan
  imports Worker_World "HOL-Library.Product_Lexorder" "HOL-Library.Multiset"
begin

text \<open>
  Discovery of work: grouping of raw logs into one job per transaction
  (\<^verbatim>\<open>worker/source-events.ts\<close>) and the hash-pinned scan step (\<^verbatim>\<open>worker/source-scan.ts\<close>). The
  source chain is a reader whose answers depend on when it is asked; decoding a log with the
  contract interface is a parameter.
\<close>

section \<open>Grouping logs\<close>

record source_log =
  l_address :: string
  l_topics :: "string list"
  l_data :: string
  l_transactionHash :: string
  l_blockNumber :: int
  l_index :: int
  l_removed :: bool
  l_transactionIndex :: int
  l_blockHash :: string

definition EVENT_TO_ACTION :: "(string \<times> int) list" where
  "EVENT_TO_ACTION =
     [(''MarkIssued'', 0), (''KeyedMarkIssued'', 0), (''MarkRevoked'', 1), (''SanctionDenied'', 2),
      (''RosterEpochPublished'', 3), (''IssuerKeyCompromised'', 4), (''SanctionDenialCorrected'', 5)]"

record group_job =
  g_txHash :: string
  g_blockNumber :: int
  g_action :: int
  g_eventName :: string
  g_logCount :: int

fun join_plus :: "string list \<Rightarrow> string" where
  "join_plus [] = []"
| "join_plus [x] = x"
| "join_plus (x # y # r) = x @ ''+'' @ join_plus (y # r)"

text \<open>\<open>parse\<close> is \<^verbatim>\<open>iface.parseLog\<close>: the event's name, or nothing when it throws or returns null.\<close>

definition watched_event :: "(source_log \<Rightarrow> string option) \<Rightarrow> string \<Rightarrow> source_log \<Rightarrow> (string \<times> int) option" where
  "watched_event parse source l =
     (if to_lower (l_address l) \<noteq> to_lower source then None
      else case parse l of None \<Rightarrow> None
        | Some name \<Rightarrow> (case map_of EVENT_TO_ACTION name of None \<Rightarrow> None | Some a \<Rightarrow> Some (name, a)))"

fun group_logs ::
  "(source_log \<Rightarrow> string option) \<Rightarrow> string \<Rightarrow> source_log list \<Rightarrow> group_job obj \<Rightarrow> string list obj
     \<Rightarrow> store_error + group_job obj" where
  "group_logs parse source [] gs ns = Inr gs"
| "group_logs parse source (l # r) gs ns =
     (case watched_event parse source l of
        None \<Rightarrow> group_logs parse source r gs ns
      | Some (name, a) \<Rightarrow>
          let tx = l_transactionHash l;
            g = (case obj_get gs tx of Some g \<Rightarrow> g
                 | None \<Rightarrow> \<lparr>g_txHash = tx, g_blockNumber = l_blockNumber l, g_action = a,
                            g_eventName = [], g_logCount = 0\<rparr>);
            old = (case obj_get ns tx of None \<Rightarrow> [] | Some n \<Rightarrow> n);
            names = (if name \<in> set old then old else old @ [name]) in
          if g_blockNumber g \<noteq> l_blockNumber l then Inl (StoreError ''inconsistent source transaction block'')
          else group_logs parse source r
            (obj_put tx (g\<lparr>g_eventName := join_plus names, g_logCount := g_logCount g + 1\<rparr>) gs)
            (obj_put tx names ns))"

definition groupSourceEvents ::
  "(source_log \<Rightarrow> string option) \<Rightarrow> source_log list \<Rightarrow> string \<Rightarrow> store_error + group_job list" where
  "groupSourceEvents parse raw source =
     (case group_logs parse source (sort_key (\<lambda>l. (l_blockNumber l, l_index l)) raw) [] [] of
        Inl e \<Rightarrow> Inl e | Inr gs \<Rightarrow> Inr (map snd gs))"

section \<open>The scan step\<close>

record source_block =
  b_number :: int
  b_hash :: "string option"

datatype block_tag = Height int | Finalized

record source_reader =
  rd_head :: "nat \<Rightarrow> int option"
  rd_block :: "nat \<Rightarrow> block_tag \<Rightarrow> source_block option option"
  rd_logs :: "nat \<Rightarrow> string \<Rightarrow> int \<Rightarrow> int \<Rightarrow> source_log list option"

record scan_options =
  o_address :: string
  o_startBlock :: int
  o_confirmations :: int
  o_chunk :: int

record scan_result =
  scanned :: bool
  scan_jobs :: int
  scan_rewound :: int

definition validBlock :: "source_block option \<Rightarrow> int option \<Rightarrow> bool" where
  "validBlock b h = (case b of None \<Rightarrow> False
     | Some x \<Rightarrow> safe_integer (b_number x) \<and> b_number x \<ge> 0
         \<and> (case h of None \<Rightarrow> True | Some n \<Rightarrow> b_number x = n)
         \<and> is_hash (case b_hash x of None \<Rightarrow> [] | Some s \<Rightarrow> s))"

definition block_hash :: "source_block option \<Rightarrow> string" where
  "block_hash b = (case b of None \<Rightarrow> [] | Some x \<Rightarrow> (case b_hash x of None \<Rightarrow> [] | Some s \<Rightarrow> s))"

definition block_number :: "source_block option \<Rightarrow> int" where
  "block_number b = (case b of None \<Rightarrow> 0 | Some x \<Rightarrow> b_number x)"

definition getBlock :: "env \<Rightarrow> source_reader \<Rightarrow> block_tag \<Rightarrow> source_block option task" where
  "getBlock E R t = await E (\<lambda>n. rd_block R n t)"

text \<open>The search of the newest checkpoint that is still canonical.\<close>

fun find_ancestor :: "env \<Rightarrow> source_reader \<Rightarrow> int \<Rightarrow> checkpoint list \<Rightarrow> checkpoint option task" where
  "find_ancestor E R safeHead [] = ret None"
| "find_ancestor E R safeHead (c # r) = seq (getBlock E R (Height (c_height c))) (\<lambda>b.
     if validBlock b (Some (c_height c)) \<and> block_hash b = c_hash c \<and> block_number b \<le> safeHead
     then ret (Some c) else find_ancestor E R safeHead r)"

record location =
  loc_blockHash :: string
  loc_transactionIndex :: int

text \<open>The loop over the logs, with the blocks already read and the transactions already placed.\<close>

fun read_locations ::
  "env \<Rightarrow> source_reader \<Rightarrow> string \<Rightarrow> int \<Rightarrow> int \<Rightarrow> source_log list \<Rightarrow> (int \<times> string) list \<Rightarrow> location obj
     \<Rightarrow> location obj task" where
  "read_locations E R addr lo hi [] blocks locs = ret locs"
| "read_locations E R addr lo hi (l # r) blocks locs =
     seq (guard (\<not> (l_removed l \<or> to_lower (l_address l) \<noteq> to_lower addr \<or> l_blockNumber l < lo
         \<or> l_blockNumber l > hi \<or> \<not> safe_integer (l_transactionIndex l) \<or> l_transactionIndex l < 0))
       (SourceSafetyError ''SOURCE_LOG_COORDINATE_MISMATCH'')) (\<lambda>_.
     seq (if obj_get blocks (l_blockNumber l) \<noteq> None then ret blocks
          else seq (getBlock E R (Height (l_blockNumber l))) (\<lambda>b.
            seq (guard (validBlock b (Some (l_blockNumber l)))
              (SourceSafetyError ''SOURCE_LOG_BLOCK_UNAVAILABLE'')) (\<lambda>_.
            ret (obj_put (l_blockNumber l) (block_hash b) blocks)))) (\<lambda>blocks'.
     seq (guard (obj_get blocks' (l_blockNumber l) = Some (l_blockHash l))
       (SourceSafetyError ''SOURCE_LOG_HASH_MISMATCH'')) (\<lambda>_.
     seq (guard (\<not> (case obj_get locs (l_transactionHash l) of None \<Rightarrow> False
         | Some p \<Rightarrow> loc_blockHash p \<noteq> l_blockHash l \<or> loc_transactionIndex p \<noteq> l_transactionIndex l))
       (SourceSafetyError ''SOURCE_TRANSACTION_COORDINATE_MISMATCH'')) (\<lambda>_.
     read_locations E R addr lo hi r blocks'
       (obj_put (l_transactionHash l)
         \<lparr>loc_blockHash = l_blockHash l, loc_transactionIndex = l_transactionIndex l\<rparr> locs)))))"

text \<open>A group with its location, as the new job; the store sets the times.\<close>

definition discovered_job :: "location obj \<Rightarrow> group_job \<Rightarrow> job" where
  "discovered_job locs g =
     \<lparr>j_txHash = g_txHash g, j_blockNumber = g_blockNumber g,
      j_blockHash = map_option loc_blockHash (obj_get locs (g_txHash g)),
      j_transactionIndex = map_option loc_transactionIndex (obj_get locs (g_txHash g)),
      j_action = g_action g, j_eventName = g_eventName g, j_logCount = g_logCount g,
      j_state = Discovered, j_attempts = 0, j_lastError = None, j_ascTxHash = None, j_queryId = None,
      j_discoveredAt = 0, j_updatedAt = 0, j_skipObservation = None, j_relayHistory = None\<rparr>"

text \<open>\<^verbatim>\<open>checkpoints.at(-1)!\<close>: reading a field of the missing element is a type error.\<close>

definition last_checkpoint :: "checkpoint task" where
  "last_checkpoint = seq (gets doc) (\<lambda>d.
     if checkpoints d = [] then throw (StoreError ''TypeError'') else ret (last (checkpoints d)))"

text \<open>From the anchored state on: rewind if the last checkpoint was orphaned.\<close>

definition check_last ::
  "env \<Rightarrow> source_reader \<Rightarrow> (nat \<Rightarrow> store_error option) \<Rightarrow> int \<Rightarrow> int task" where
  "check_last E R beforeRewind safeHead = seq (gets doc) (\<lambda>d. seq last_checkpoint (\<lambda>last.
     seq (guard (c_height last = d_cursor d) (SourceSafetyError ''SOURCE_CHECKPOINT_CURSOR_MISMATCH'')) (\<lambda>_.
     seq (getBlock E R (Height (c_height last))) (\<lambda>current.
     seq (guard (validBlock current (Some (c_height last)))
       (SourceSafetyError ''SOURCE_CHECKPOINT_UNAVAILABLE'')) (\<lambda>_.
     if block_hash current = c_hash last then ret 0
     else seq (gets w_tick) (\<lambda>n.
       case beforeRewind n of Some e \<Rightarrow> throw e
       | None \<Rightarrow> seq (find_ancestor E R safeHead (rev (checkpoints d))) (\<lambda>a.
           case a of
             None \<Rightarrow> call E (\<lambda>w now. holdSource w ''SOURCE_REORG_BEYOND_VERIFIED_ANCHOR'')
           | Some c \<Rightarrow> call E (\<lambda>w now. rewindUnsignedSource w now c))))))))"

text \<open>The scan of one range and the recheck of both of its ends.\<close>

definition scan_range ::
  "env \<Rightarrow> source_reader \<Rightarrow> (source_log \<Rightarrow> string option) \<Rightarrow> scan_options \<Rightarrow> int \<Rightarrow> int \<Rightarrow> int
     \<Rightarrow> scan_result task" where
  "scan_range E R parse opts lo hi rw =
     seq (getBlock E R (Height hi)) (\<lambda>end.
     seq (guard (validBlock end (Some hi)) (SourceSafetyError ''SOURCE_RANGE_END_UNAVAILABLE'')) (\<lambda>_.
     seq (await E (\<lambda>n. rd_logs R n (o_address opts) lo hi)) (\<lambda>logs.
     seq (read_locations E R (o_address opts) lo hi logs [] []) (\<lambda>locs.
     seq last_checkpoint (\<lambda>start.
     seq (getBlock E R (Height hi)) (\<lambda>endAgain.
     seq (getBlock E R (Height (c_height start))) (\<lambda>startAgain.
     seq (getBlock E R Finalized) (\<lambda>finalAgain.
     seq (await E (rd_head R)) (\<lambda>headAgain.
     seq (guard (\<not> (\<not> validBlock endAgain (Some hi) \<or> block_hash endAgain \<noteq> block_hash end
         \<or> \<not> validBlock startAgain (Some (c_height start)) \<or> block_hash startAgain \<noteq> c_hash start
         \<or> \<not> validBlock finalAgain None \<or> \<not> safe_integer headAgain \<or> block_number finalAgain > headAgain
         \<or> block_number finalAgain < hi \<or> headAgain - o_confirmations opts < hi))
       (SourceSafetyError ''SOURCE_RANGE_CHANGED_DURING_SCAN'')) (\<lambda>_.
     case groupSourceEvents parse logs (o_address opts) of
       Inl e \<Rightarrow> throw e
     | Inr groups \<Rightarrow>
         let js = map (discovered_job locs) groups in
         seq (call E (\<lambda>w now. assertHubReady)) (\<lambda>_.
         seq (call E (\<lambda>w now. commitSourceRange w now lo \<lparr>c_height = hi, c_hash = block_hash end\<rparr> js)) (\<lambda>_.
         ret \<lparr>scanned = True, scan_jobs = int (length js), scan_rewound = rw\<rparr>))))))))))))"

definition scanSourceStep ::
  "env \<Rightarrow> source_reader \<Rightarrow> (source_log \<Rightarrow> string option) \<Rightarrow> (nat \<Rightarrow> store_error option) \<Rightarrow> scan_options
     \<Rightarrow> scan_result task" where
  "scanSourceStep E R parse beforeRewind opts =
     seq (call E (\<lambda>w now. assertSourceReady)) (\<lambda>_. seq (call E (\<lambda>w now. assertHubReady)) (\<lambda>_.
     seq (guard (list_all (\<lambda>n. safe_integer n \<and> n \<ge> 1) [o_startBlock opts, o_confirmations opts, o_chunk opts])
       (SourceSafetyError ''INVALID_SOURCE_SCAN_SETTINGS'')) (\<lambda>_.
     seq (await E (rd_head R)) (\<lambda>head. seq (getBlock E R Finalized) (\<lambda>finalized.
     seq (guard (safe_integer head \<and> validBlock finalized None \<and> block_number finalized \<le> head)
       (SourceSafetyError ''SOURCE_FINALITY_UNCONFIRMED'')) (\<lambda>_.
     let safeHead = min (block_number finalized) (head - o_confirmations opts) in
     seq (gets doc) (\<lambda>d.
     if checkpoints d = [] \<and> o_startBlock opts - 1 > safeHead
     then ret \<lparr>scanned = False, scan_jobs = 0, scan_rewound = 0\<rparr>
     else
       seq (if checkpoints d \<noteq> [] then ret ()
            else seq (getBlock E R (Height (o_startBlock opts - 1))) (\<lambda>anchor.
              seq (guard (validBlock anchor (Some (o_startBlock opts - 1)))
                (SourceSafetyError ''SOURCE_ANCHOR_UNAVAILABLE'')) (\<lambda>_.
              call E (\<lambda>w now. initializeSource w
                \<lparr>c_height = block_number anchor, c_hash = block_hash anchor\<rparr>)))) (\<lambda>_.
       seq (check_last E R beforeRewind safeHead) (\<lambda>rw.
       seq (gets doc) (\<lambda>d'.
       let lo = d_cursor d' + 1 in
       if lo > safeHead then ret \<lparr>scanned = False, scan_jobs = 0, scan_rewound = rw\<rparr>
       else scan_range E R parse opts lo (min (lo + o_chunk opts - 1) safeHead) rw))))))))))"

section \<open>Grouping is exact\<close>

abbreviation watched :: "(source_log \<Rightarrow> string option) \<Rightarrow> string \<Rightarrow> source_log \<Rightarrow> bool" where
  "watched parse source l \<equiv> watched_event parse source l \<noteq> None"

definition logs_of :: "(source_log \<Rightarrow> string option) \<Rightarrow> string \<Rightarrow> string \<Rightarrow> source_log list \<Rightarrow> source_log list" where
  "logs_of parse source tx ls = filter (\<lambda>l. watched parse source l \<and> l_transactionHash l = tx) ls"

text \<open>The groups after the logs \<open>done\<close>: exactly the transactions with a watched log, each with its
  count and its block.\<close>

definition group_ok ::
  "(source_log \<Rightarrow> string option) \<Rightarrow> string \<Rightarrow> source_log list \<Rightarrow> string \<Rightarrow> group_job option \<Rightarrow> bool" where
  "group_ok parse source ls tx og = (case og of
     None \<Rightarrow> logs_of parse source tx ls = []
   | Some g \<Rightarrow> g_txHash g = tx \<and> g_logCount g = int (length (logs_of parse source tx ls))
       \<and> logs_of parse source tx ls \<noteq> []
       \<and> (\<forall>l \<in> set (logs_of parse source tx ls). l_blockNumber l = g_blockNumber g))"

definition groups_ok ::
  "(source_log \<Rightarrow> string option) \<Rightarrow> string \<Rightarrow> source_log list \<Rightarrow> group_job obj \<Rightarrow> bool" where
  "groups_ok parse source ls gs \<longleftrightarrow>
     obj_wf gs \<and> (\<forall>tx. group_ok parse source ls tx (obj_get gs tx))"

lemma logs_of_append: "logs_of p s tx (a @ b) = logs_of p s tx a @ logs_of p s tx b"
  by (simp add: logs_of_def)

lemma group_logs_ok:
  "group_logs parse source ls gs ns = Inr gs' \<Longrightarrow> groups_ok parse source pre gs \<Longrightarrow>
     groups_ok parse source (pre @ ls) gs'"
proof (induction ls arbitrary: gs ns pre)
  case (Cons l ls)
  show ?case
  proof (cases "watched_event parse source l")
    case None
    then have e: "logs_of parse source tx (pre @ [l]) = logs_of parse source tx pre" for tx
      by (simp add: logs_of_def)
    have "groups_ok parse source (pre @ [l]) gs"
      using Cons.prems(2) unfolding groups_ok_def group_ok_def e .
    with Cons.IH [of gs ns "pre @ [l]"] Cons.prems(1) None show ?thesis by simp
  next
    case (Some na)
    then obtain name a where na: "watched_event parse source l = Some (name, a)" by (cases na) auto
    define tx where "tx = l_transactionHash l"
    define g where "g = (case obj_get gs tx of Some g \<Rightarrow> g
      | None \<Rightarrow> \<lparr>g_txHash = tx, g_blockNumber = l_blockNumber l, g_action = a, g_eventName = [], g_logCount = 0\<rparr>)"
    obtain names ns' where run: "group_logs parse source ls
        (obj_put tx (g\<lparr>g_eventName := names, g_logCount := g_logCount g + 1\<rparr>) gs) ns' = Inr gs'"
      and b: "g_blockNumber g = l_blockNumber l"
      using Cons.prems(1) na
      by (simp add: Let_def flip: tx_def g_def split: if_splits)
    have l: "logs_of parse source t [l] = (if t = tx then [l] else [])" for t
      using na by (simp add: logs_of_def tx_def)
    let ?g = "g\<lparr>g_eventName := names, g_logCount := g_logCount g + 1\<rparr>"
    have pre: "group_ok parse source pre t (obj_get gs t)" for t
      using Cons.prems(2) by (simp add: groups_ok_def)
    have "group_ok parse source (pre @ [l]) tx (Some ?g)"
      using pre [of tx] b by (cases "obj_get gs tx") (auto simp: group_ok_def logs_of_append l g_def)
    moreover have "group_ok parse source (pre @ [l]) t (obj_get gs t)" if "t \<noteq> tx" for t
      using pre [of t] that by (cases "obj_get gs t") (auto simp: group_ok_def logs_of_append l)
    ultimately have "groups_ok parse source (pre @ [l]) (obj_put tx ?g gs)"
      using Cons.prems(2) by (simp add: groups_ok_def obj_simps)
    from Cons.IH [OF run this] show ?thesis by simp
  qed
qed simp

lemma groupSourceEvents_ok:
  assumes "groupSourceEvents parse ls source = Inr gs"
  shows "\<exists>m. gs = map snd m \<and> groups_ok parse source (sort_key (\<lambda>l. (l_blockNumber l, l_index l)) ls) m"
proof -
  obtain m where "group_logs parse source (sort_key (\<lambda>l. (l_blockNumber l, l_index l)) ls) [] [] = Inr m"
    "gs = map snd m"
    using assms by (auto simp: groupSourceEvents_def split: sum.splits)
  moreover have "groups_ok parse source [] []" by (simp add: groups_ok_def group_ok_def logs_of_def)
  ultimately show ?thesis using group_logs_ok [of parse source _ "[]" "[]" m "[]"] by auto
qed

lemma groupSourceEvents_covers:
  assumes "groupSourceEvents parse ls source = Inr gs" and "l \<in> set ls" and "watched parse source l"
  shows "\<exists>g \<in> set gs. g_txHash g = l_transactionHash l \<and> g_blockNumber g = l_blockNumber l"
proof -
  let ?s = "sort_key (\<lambda>l. (l_blockNumber l, l_index l)) ls"
  obtain m where m: "gs = map snd m" "groups_ok parse source ?s m"
    using groupSourceEvents_ok [OF assms(1)] by blast
  have l: "l \<in> set (logs_of parse source (l_transactionHash l) ?s)"
    using assms(2,3) by (simp add: logs_of_def)
  have "group_ok parse source ?s (l_transactionHash l) (obj_get m (l_transactionHash l))"
    using m(2) by (simp add: groups_ok_def)
  with l obtain g where "obj_get m (l_transactionHash l) = Some g" "g_txHash g = l_transactionHash l"
    "l_blockNumber l = g_blockNumber g"
    by (auto simp: group_ok_def split: option.splits)
  then show ?thesis using m(1) map_of_SomeD by force
qed

section \<open>A committed range was canonical\<close>













lemma find_ancestor_keeps [task_intro]:
  "rely ok E \<Longrightarrow> keeps (runs_from ok w0) (find_ancestor E R safeHead cs)"
  by (induction cs) (auto simp: getBlock_def simp del: io_run_atom intro!: task_intro)

lemma read_locations_keeps [task_intro]:
  "rely ok E \<Longrightarrow> keeps (runs_from ok w0) (read_locations E R addr lo hi ls bs locs)"
proof (induction ls arbitrary: bs locs)
  case Nil
  show ?case unfolding read_locations.simps by (rule task_intro)
next
  case (Cons l ls)
  show ?case unfolding read_locations.simps getBlock_def
    by (intro task_intro Cons)
qed

lemma scan_range_keeps [task_intro]:
  assumes "rely ok E"
  shows "keeps (runs_from ok w0) (scan_range E R parse opts lo hi rw)"
  unfolding scan_range_def getBlock_def last_checkpoint_def Let_def
  by (intro task_intro assms)

lemma check_last_keeps [task_intro]:
  assumes "rely ok E"
  shows "keeps (runs_from ok w0) (check_last E R beforeRewind safeHead)"
  unfolding check_last_def getBlock_def last_checkpoint_def Let_def
  by (intro task_intro assms) simp_all

lemma scanSourceStep_keeps:
  assumes "rely ok E"
  shows "keeps (runs_from ok w0) (scanSourceStep E R parse beforeRewind opts)"
  unfolding scanSourceStep_def getBlock_def Let_def
  by (intro task_intro assms)




section \<open>A concrete scan\<close>

definition sample_log :: source_log where
  "sample_log = \<lparr>l_address = ''0xAB'', l_topics = [], l_data = ''0x'', l_transactionHash = sample_hash CHR ''a'',
     l_blockNumber = 12, l_index = 0, l_removed = False, l_transactionIndex = 3,
     l_blockHash = sample_hash CHR ''b''\<rparr>"

definition sample_reader :: source_reader where
  "sample_reader = \<lparr>rd_head = (\<lambda>_. Some 40),
     rd_block = (\<lambda>_ t. Some (Some (case t of Finalized \<Rightarrow> \<lparr>b_number = 30, b_hash = Some (sample_hash CHR ''7'')\<rparr>
       | Height h \<Rightarrow> \<lparr>b_number = h, b_hash = Some (sample_hash CHR ''b'')\<rparr>))),
     rd_logs = (\<lambda>_ _ _ _. Some [sample_log])\<rparr>"

definition sample_options :: scan_options where
  "sample_options = \<lparr>o_address = ''0xab'', o_startBlock = 10, o_confirmations = 5, o_chunk = 100\<rparr>"

definition sample_parse :: "source_log \<Rightarrow> string option" where
  "sample_parse l = Some ''MarkIssued''"

definition sample_world :: world where
  "sample_world = \<lparr>w_store = sample0, w_tick = 0, w_active = False, w_stop = False, w_sent = []\<rparr>"

definition sample_scan :: "(store_error + scan_result) \<times> world" where
  "sample_scan = scanSourceStep quiet_env sample_reader sample_parse (\<lambda>_. None) sample_options sample_world"


section \<open>Properties\<close>



text \<open>A scan interleaved at every \<^verbatim>\<open>await\<close> with other tasks uses the store only through its
  calls: from a reachable store it leaves a reachable one, whatever it returns or throws.\<close>

theorem scan_keeps_store_reachable:
  assumes "rely ok E" and "reachable store_init (store_step ok) (w_store w)"
  shows "reachable store_init (store_step ok)
    (w_store (snd (scanSourceStep E R parse beforeRewind opts w)))"
proof (rule runs_from_reachable [OF _ assms(2)])
  have "calls_only ok (scanSourceStep E R parse beforeRewind opts)"
    using scanSourceStep_keeps [OF assms(1)] by blast
  then show "runs_from ok w (snd (scanSourceStep E R parse beforeRewind opts w))" by (rule calls_onlyD)
qed

theorem scan_keeps_store_reachable_witness:
  "reachable store_init (store_step readable) (w_store (snd sample_scan))"
proof -
  have "store_init (w_store sample_world)"
    by (simp add: store_init_def sample_world_def sample0_def synced_def load_def)
  then have "reachable store_init (store_step readable) (w_store sample_world)" by (rule reachable_init)
  then show ?thesis
    using scan_keeps_store_reachable [OF quiet_rely, of readable sample_world]
    unfolding sample_scan_def by (simp add: readable_def)
qed

text \<open>Grouping is exact: one job per transaction, with the number of its watched logs and the
  block of each of them, and no watched log is left out.\<close>

theorem groupSourceEvents_exact:
  assumes "groupSourceEvents parse logs source = Inr gs"
  shows "distinct (map g_txHash gs)
    \<and> (\<forall>g \<in> set gs. g_logCount g = int (length (filter (\<lambda>l. watched parse source l
          \<and> l_transactionHash l = g_txHash g) logs)) \<and> 1 \<le> g_logCount g)
    \<and> (\<forall>l \<in> set logs. watched parse source l \<longrightarrow>
          (\<exists>g \<in> set gs. g_txHash g = l_transactionHash l \<and> g_blockNumber g = l_blockNumber l))"
proof -
  let ?s = "sort_key (\<lambda>l. (l_blockNumber l, l_index l)) logs"
  obtain m where m: "gs = map snd m" "groups_ok parse source ?s m"
    using groupSourceEvents_ok [OF assms] by blast
  have get: "obj_get m k = Some g" if "(k, g) \<in> set m" for k g
    using that m(2) by (simp add: groups_ok_def obj_wf_def)
  have ok: "group_ok parse source ?s k (Some g)" if "(k, g) \<in> set m" for k g
    using m(2) get [OF that] unfolding groups_ok_def by metis
  have key: "g_txHash (snd x) = fst x" if "x \<in> set m" for x
    using ok [of "fst x" "snd x"] that by (simp add: group_ok_def)
  then have "map g_txHash gs = map fst m" using m(1) by simp
  then have d: "distinct (map g_txHash gs)" using m(2) by (simp add: groups_ok_def obj_wf_def)
  have len: "length (filter P ?s) = length (filter P logs)" for P
    by (metis mset_sort size_mset mset_filter)
  have "g_logCount g = int (length (filter (\<lambda>l. watched parse source l
      \<and> l_transactionHash l = g_txHash g) logs)) \<and> 1 \<le> g_logCount g" if g: "g \<in> set gs" for g
  proof -
    obtain k where k: "(k, g) \<in> set m" using g m(1) by auto
    have "g_txHash g = k" and c: "g_logCount g = int (length (logs_of parse source k ?s))"
      "0 < length (logs_of parse source k ?s)" using ok [OF k] by (auto simp: group_ok_def)
    then show ?thesis unfolding logs_of_def len by (simp add: Suc_le_eq)
  qed
  with d groupSourceEvents_covers [OF assms] show ?thesis by blast
qed

theorem groupSourceEvents_exact_witness:
  "groupSourceEvents sample_parse [sample_log] ''0xab'' = Inr [\<lparr>g_txHash = sample_hash CHR ''a'',
     g_blockNumber = 12, g_action = 0, g_eventName = ''MarkIssued'', g_logCount = 1\<rparr>]
   \<and> length (filter (watched sample_parse ''0xab'') [sample_log]) = 1"
proof -
  have g: "groupSourceEvents sample_parse [sample_log] ''0xab'' = Inr [\<lparr>g_txHash = sample_hash CHR ''a'',
     g_blockNumber = 12, g_action = 0, g_eventName = ''MarkIssued'', g_logCount = 1\<rparr>]" by code_simp
  have "watched sample_parse ''0xab'' sample_log" by code_simp
  then show ?thesis using g groupSourceEvents_exact [OF g] by simp
qed

end
