(* ===== verification/Relay.thy ===== *)
theory Relay
  imports Source_Scan
begin

text \<open>
  Submission to the hub chain, \<^verbatim>\<open>worker/relay.ts\<close>: the sender that owns the single unresolved
  nonce, and its EVM transport. The sender is written against the transport's interface; the
  world records every broadcast, so that what was sent can be compared with what was saved.
\<close>

section \<open>The transport interface\<close>

datatype query_status = Unprocessed | QPending | Confirmed

record query_observation =
  q_status :: query_status
  q_blockNumber :: int
  q_blockHash :: string
  q_confirmations :: int
  q_observedAt :: int

text \<open>A receipt as the transport reports it: pending, or final with its block.\<close>

type_synonym receipt_view = "final_receipt option"

record transport =
  processed :: "string \<Rightarrow> int \<Rightarrow> bool task"
  observeProcessed :: "string \<Rightarrow> query_observation option \<Rightarrow> query_observation task"
  prepare :: "string \<Rightarrow> string \<Rightarrow> string \<Rightarrow> int \<Rightarrow> relay_envelope task"
  receipt :: "relay_envelope \<Rightarrow> receipt_view task"
  broadcast :: "relay_envelope \<Rightarrow> unit task"

record preparation =
  pr_queryId :: string
  pr_data :: string
  pr_gasLimit :: int

section \<open>The sender\<close>

definition skip_patch :: "string \<Rightarrow> query_observation \<Rightarrow> job_patch" where
  "skip_patch q final = no_patch\<lparr>p_state := Some Skipped, p_queryId := Some (Some q),
     p_skipObservation := Some (Some \<lparr>so_blockNumber = q_blockNumber final,
       so_blockHash = q_blockHash final, so_confirmations = q_confirmations final,
       so_observedAt = q_observedAt final\<rparr>)\<rparr>"

definition error_patch :: "string \<Rightarrow> job_patch" where
  "error_patch msg = no_patch\<lparr>p_lastError := Some (Some msg)\<rparr>"

text \<open>A query already processed on the hub: skip the job once the observation has been repeated.\<close>

definition skip_confirmed ::
  "env \<Rightarrow> transport \<Rightarrow> (string \<Rightarrow> unit task) \<Rightarrow> string \<Rightarrow> preparation \<Rightarrow> query_observation
     \<Rightarrow> relay_envelope option task" where
  "skip_confirmed E T guardSource tx p query =
     seq (guardSource tx) (\<lambda>_.
     seq (observeProcessed T (pr_queryId p) (Some query)) (\<lambda>final.
     if q_status final \<noteq> Confirmed \<or> q_blockNumber final \<noteq> q_blockNumber query
       \<or> q_blockHash final \<noteq> q_blockHash query then ret None
     else seq (throwIfStopped E) (\<lambda>_. seq (call E (\<lambda>w now. assertSourceReady)) (\<lambda>_.
       seq (call E (\<lambda>w now. store_update w now tx (skip_patch (pr_queryId p) final))) (\<lambda>_. ret None)))))"

text \<open>A new signature: prepared, checked against the request, and saved before anything else.\<close>

definition sign_and_reserve ::
  "env \<Rightarrow> transport \<Rightarrow> (string \<Rightarrow> unit task) \<Rightarrow> string \<Rightarrow> preparation \<Rightarrow> relay_envelope option task" where
  "sign_and_reserve E T guardSource tx p =
     seq (guardSource tx) (\<lambda>_.
     seq (prepare T tx (pr_queryId p) (pr_data p) (pr_gasLimit p)) (\<lambda>r.
     seq (guard (\<not> (r_sourceTxHash r \<noteq> tx \<or> r_queryId r \<noteq> pr_queryId p \<or> r_data r \<noteq> pr_data p))
       (StoreError ''RELAY_PREPARATION_CONFLICT'')) (\<lambda>_.
     seq (guardSource tx) (\<lambda>_.
     seq (call E (\<lambda>w now. reserveRelay w now r)) (\<lambda>_. ret (Some r))))))"

definition new_relay ::
  "env \<Rightarrow> transport \<Rightarrow> (string \<Rightarrow> unit task) \<Rightarrow> unit task \<Rightarrow> string \<Rightarrow> preparation option
     \<Rightarrow> relay_envelope option task" where
  "new_relay E T guardSource guardHub tx prep =
     (case prep of None \<Rightarrow> throw (StoreError ''RELAY_PREPARATION_REQUIRED'')
      | Some p \<Rightarrow>
          seq guardHub (\<lambda>_. seq (throwIfStopped E) (\<lambda>_. seq (call E (\<lambda>w now. assertHubReady)) (\<lambda>_.
          seq (observeProcessed T (pr_queryId p) None) (\<lambda>query.
          case q_status query of
            QPending \<Rightarrow> ret None
          | Confirmed \<Rightarrow> skip_confirmed E T guardSource tx p query
          | Unprocessed \<Rightarrow> sign_and_reserve E T guardSource tx p)))))"

text \<open>Broadcast of a saved relay whose receipt is not known; a failed broadcast is only noted.\<close>

definition rebroadcast ::
  "env \<Rightarrow> transport \<Rightarrow> (string \<Rightarrow> unit task) \<Rightarrow> string \<Rightarrow> relay_envelope \<Rightarrow> receipt_view task" where
  "rebroadcast E T guardSource tx r =
     seq (guardSource tx) (\<lambda>_. seq (call E (\<lambda>w now. assertSourceReady)) (\<lambda>_.
     seq (try_catch (broadcast T r)
       (\<lambda>_. call E (\<lambda>w now. store_update w now tx (error_patch ''ASC_BROADCAST_UNCONFIRMED'')))) (\<lambda>_.
     receipt T r)))"

text \<open>From a saved relay to its recorded receipt: the final receipt has to be observed twice.\<close>

definition settle ::
  "env \<Rightarrow> transport \<Rightarrow> (string \<Rightarrow> unit task) \<Rightarrow> string \<Rightarrow> relay_envelope \<Rightarrow> unit task" where
  "settle E T guardSource tx r =
     seq (receipt T r) (\<lambda>rc0.
     seq (case rc0 of None \<Rightarrow> rebroadcast E T guardSource tx r | Some rc \<Rightarrow> ret (Some rc)) (\<lambda>rc1.
     case rc1 of
       None \<Rightarrow> ret ()
     | Some rc \<Rightarrow>
         seq (guardSource tx) (\<lambda>_.
         seq (if fr_status rc = Success
              then seq (processed T (r_queryId r) (fr_blockNumber rc)) (\<lambda>b.
                guard b (StoreError ''ASC_QUERY_NOT_CONFIRMED''))
              else ret ()) (\<lambda>_.
         seq (receipt T r) (\<lambda>final.
         if final = Some rc
         then seq (throwIfStopped E) (\<lambda>_. seq (call E (\<lambda>w now. assertSourceReady)) (\<lambda>_.
           seq (call E (\<lambda>w now. assertHubReady)) (\<lambda>_.
           call E (\<lambda>w now. finishRelay w now (r_hash r) rc))))
         else ret ())))))"

definition step_body ::
  "env \<Rightarrow> transport \<Rightarrow> (string \<Rightarrow> unit task) \<Rightarrow> unit task \<Rightarrow> string \<Rightarrow> preparation option \<Rightarrow> unit task" where
  "step_body E T guardSource guardHub tx prep =
     seq (call E (\<lambda>w now. assertSourceReady)) (\<lambda>_. seq (call E (\<lambda>w now. assertHubReady)) (\<lambda>_.
     seq (gets doc) (\<lambda>d.
     seq (guard (case store_get d tx of None \<Rightarrow> False | Some j \<Rightarrow> \<not> terminal_state (j_state j))
       (StoreError ''RELAY_JOB_NOT_PENDING'')) (\<lambda>_.
     seq (case d_relay d of Some r \<Rightarrow> ret (Some r) | None \<Rightarrow> new_relay E T guardSource guardHub tx prep) (\<lambda>ro.
     case ro of None \<Rightarrow> ret () | Some r \<Rightarrow> settle E T guardSource tx r)))))"

definition set_active :: "bool \<Rightarrow> world \<Rightarrow> world" where
  "set_active b w = w\<lparr>w_active := b\<rparr>"

definition sender_step ::
  "env \<Rightarrow> transport \<Rightarrow> (string \<Rightarrow> unit task) \<Rightarrow> unit task \<Rightarrow> string \<Rightarrow> preparation option \<Rightarrow> unit task" where
  "sender_step E T guardSource guardHub tx prep =
     seq (throwIfStopped E) (\<lambda>_. seq (gets id) (\<lambda>w.
     seq (guard (\<not> (w_active w \<or> (case d_relay (doc w) of None \<Rightarrow> False | Some r \<Rightarrow> r_sourceTxHash r \<noteq> tx)))
       RelayBusy) (\<lambda>_.
     \<lambda>w. finally_do (step_body E T guardSource guardHub tx prep) (set_active False) (set_active True w))))"

section \<open>The EVM transport\<close>

record parsed_tx =
  tx_signed :: bool
  tx_hash :: string
  tx_nonce :: int
  tx_chainId :: int
  tx_to :: "string option"
  tx_from :: string
  tx_data :: string
  tx_value :: int

text \<open>\<open>parseTx\<close> is \<^verbatim>\<open>ethers.Transaction.from\<close>, which throws on anything but an encoded transaction.\<close>

definition validateRelay ::
  "(string \<Rightarrow> parsed_tx option) \<Rightarrow> relay_envelope \<Rightarrow> int \<Rightarrow> string \<Rightarrow> string \<Rightarrow> bool" where
  "validateRelay parseTx r chainId asc signer =
     (case parseTx (r_raw r) of None \<Rightarrow> False
      | Some tx \<Rightarrow> \<not> (\<not> tx_signed tx \<or> tx_hash tx \<noteq> r_hash r \<or> tx_nonce tx \<noteq> r_nonce r \<or> tx_chainId tx \<noteq> chainId
          \<or> r_chainId r \<noteq> chainId \<or> map_option to_lower (tx_to tx) \<noteq> Some (to_lower asc)
          \<or> to_lower (r_to r) \<noteq> to_lower asc \<or> to_lower (tx_from tx) \<noteq> to_lower signer
          \<or> to_lower (r_signer r) \<noteq> to_lower signer \<or> tx_data tx \<noteq> r_data r \<or> tx_value tx \<noteq> 0))"

record evm_receipt =
  er_hash :: string
  er_from :: string
  er_to :: "string option"
  er_status :: "int option"
  er_blockNumber :: int
  er_blockHash :: string

text \<open>The hub chain: the provider, the contract and the wallet.\<close>

record hub =
  hb_head :: "nat \<Rightarrow> int option"
  hb_block :: "nat \<Rightarrow> int \<Rightarrow> source_block option option"
  hb_processed :: "nat \<Rightarrow> string \<Rightarrow> int \<Rightarrow> bool option"
  hb_code :: "nat \<Rightarrow> int \<Rightarrow> string option"
  hb_receipt :: "nat \<Rightarrow> string \<Rightarrow> evm_receipt option option"
  hb_send :: "nat \<Rightarrow> string \<Rightarrow> string option"
  hb_sign :: "nat \<Rightarrow> string \<Rightarrow> int \<Rightarrow> (string \<times> int \<times> int) option"
  hb_keccak :: "string \<Rightarrow> string"
  hb_parse :: "string \<Rightarrow> parsed_tx option"
  hb_asc :: string
  hb_wallet :: string
  hb_confirmations :: int

record sample_view =
  s_value :: bool
  s_blockNumber :: int
  s_blockHash :: string
  s_confirmations :: int
  s_observedAt :: int

definition sample :: "env \<Rightarrow> hub \<Rightarrow> string \<Rightarrow> int \<Rightarrow> string option \<Rightarrow> sample_view task" where
  "sample E H q height expectedHash =
     seq (await E (\<lambda>n. hb_block H n height)) (\<lambda>block.
     seq (guard (\<not> (block = None \<or> block_number block \<noteq> height \<or> \<not> is_hash (block_hash block)
         \<or> (expectedHash \<noteq> None \<and> expectedHash \<noteq> Some (block_hash block))))
       (StoreError ''ASC_QUERY_OBSERVATION_CHANGED'')) (\<lambda>_.
     seq (await E (\<lambda>n. hb_processed H n q height)) (\<lambda>value.
     seq (await E (hb_head H)) (\<lambda>finalHead.
     seq (await E (\<lambda>n. hb_block H n height)) (\<lambda>again.
     seq (guard (\<not> (again = None \<or> block_number again \<noteq> height \<or> block_hash again \<noteq> block_hash block
         \<or> \<not> safe_integer finalHead \<or> finalHead < height)) (StoreError ''ASC_QUERY_OBSERVATION_CHANGED'')) (\<lambda>_.
     seq (gets w_tick) (\<lambda>n.
     ret \<lparr>s_value = value, s_blockNumber = height, s_blockHash = block_hash block,
       s_confirmations = finalHead - height + 1, s_observedAt = e_now E n\<rparr>)))))))"

definition observation :: "query_status \<Rightarrow> sample_view \<Rightarrow> query_observation" where
  "observation st s = \<lparr>q_status = st, q_blockNumber = s_blockNumber s, q_blockHash = s_blockHash s,
     q_confirmations = s_confirmations s, q_observedAt = s_observedAt s\<rparr>"

definition depth_status :: "hub \<Rightarrow> sample_view \<Rightarrow> query_observation" where
  "depth_status H s = observation
     (if s_value s \<and> s_confirmations s \<ge> hb_confirmations H then Confirmed else QPending) s"

definition getAddress :: "env \<Rightarrow> hub \<Rightarrow> string task" where
  "getAddress E H = await E (\<lambda>_. Some (hb_asc H))"

definition evm_observeProcessed ::
  "env \<Rightarrow> hub \<Rightarrow> string \<Rightarrow> query_observation option \<Rightarrow> query_observation task" where
  "evm_observeProcessed E H q expected =
     seq (await E (hb_head H)) (\<lambda>head.
     seq (guard (safe_integer head \<and> 0 \<le> head) (StoreError ''ASC_QUERY_OBSERVATION_UNAVAILABLE'')) (\<lambda>_.
     case expected of
       Some x \<Rightarrow>
         seq (guard (\<not> (q_status x \<noteq> Confirmed \<or> \<not> safe_integer (q_blockNumber x) \<or> q_blockNumber x < 0
             \<or> \<not> is_hash (q_blockHash x))) (StoreError ''ASC_QUERY_OBSERVATION_UNAVAILABLE'')) (\<lambda>_.
         if head - q_blockNumber x + 1 < hb_confirmations H then ret (x\<lparr>q_status := QPending\<rparr>)
         else seq (sample E H q (q_blockNumber x) (Some (q_blockHash x))) (\<lambda>s. ret (depth_status H s)))
     | None \<Rightarrow>
         seq (sample E H q head None) (\<lambda>latest.
         if \<not> s_value latest then ret (observation Unprocessed latest)
         else let height = head - hb_confirmations H + 1 in
           if height < 0 then ret (observation QPending latest)
           else seq (getAddress E H) (\<lambda>_. seq (await E (\<lambda>n. hb_code H n height)) (\<lambda>code.
             if code = ''0x'' then ret (observation QPending latest)
             else seq (if height = head then ret latest else sample E H q height None) (\<lambda>stable.
               ret (depth_status H stable)))))))"

definition evm_prepare ::
  "env \<Rightarrow> hub \<Rightarrow> string \<Rightarrow> string \<Rightarrow> string \<Rightarrow> int \<Rightarrow> relay_envelope task" where
  "evm_prepare E H tx q dat gasLimit =
     seq (getAddress E H) (\<lambda>asc.
     seq (await E (\<lambda>n. hb_sign H n dat gasLimit)) (\<lambda>(raw, nonce, chainId).
     let r = \<lparr>r_sourceTxHash = tx, r_queryId = q, r_hash = hb_keccak H raw, r_raw = raw, r_nonce = nonce,
       r_chainId = chainId, r_to = asc, r_signer = hb_wallet H, r_data = dat\<rparr> in
     seq (guard (validateRelay (hb_parse H) r 102031 asc (hb_wallet H))
       (StoreError ''RELAY_SIGNATURE_TARGET_MISMATCH'')) (\<lambda>_. ret r)))"

definition evm_receipt_of :: "env \<Rightarrow> hub \<Rightarrow> relay_envelope \<Rightarrow> receipt_view task" where
  "evm_receipt_of E H r =
     seq (getAddress E H) (\<lambda>asc.
     seq (guard (validateRelay (hb_parse H) r 102031 asc (hb_wallet H))
       (StoreError ''RELAY_SIGNATURE_TARGET_MISMATCH'')) (\<lambda>_.
     seq (await E (\<lambda>n. hb_receipt H n (r_hash r))) (\<lambda>rc.
     case rc of None \<Rightarrow> ret None
     | Some x \<Rightarrow>
         seq (guard (safe_integer (er_blockNumber x) \<and> 0 \<le> er_blockNumber x \<and> is_hash (er_blockHash x))
           (StoreError ''RELAY_RECEIPT_MISMATCH'')) (\<lambda>_.
         seq (await E (\<lambda>n. hb_block H n (er_blockNumber x))) (\<lambda>block. seq (await E (hb_head H)) (\<lambda>head.
         if \<not> safe_integer head \<or> head < er_blockNumber x \<or> block = None \<or> block_number block \<noteq> er_blockNumber x
           \<or> Some (er_blockHash x) \<noteq> Option.bind block b_hash
           \<or> head - er_blockNumber x + 1 < hb_confirmations H then ret None
         else seq (guard (\<not> (er_hash x \<noteq> r_hash r \<or> to_lower (er_from x) \<noteq> to_lower (r_signer r)
               \<or> map_option to_lower (er_to x) \<noteq> Some (to_lower (r_to r))
               \<or> er_status x \<noteq> Some 0 \<and> er_status x \<noteq> Some 1)) (StoreError ''RELAY_RECEIPT_MISMATCH'')) (\<lambda>_.
           seq (await E (\<lambda>n. hb_block H n (er_blockNumber x))) (\<lambda>checked.
           if checked = None \<or> block_number checked \<noteq> er_blockNumber x
             \<or> Some (er_blockHash x) \<noteq> Option.bind checked b_hash then ret None
           else ret (Some \<lparr>fr_status = (if er_status x = Some 1 then Success else Reverted),
             fr_blockNumber = er_blockNumber x, fr_blockHash = er_blockHash x\<rparr>)))))))))"

text \<open>The provider may have sent the transaction even when it answers with an error.\<close>

definition evm_broadcast :: "env \<Rightarrow> hub \<Rightarrow> relay_envelope \<Rightarrow> unit task" where
  "evm_broadcast E H r =
     seq (getAddress E H) (\<lambda>asc.
     seq (guard (validateRelay (hb_parse H) r 102031 asc (hb_wallet H))
       (StoreError ''RELAY_SIGNATURE_TARGET_MISMATCH'')) (\<lambda>_.
     \<lambda>w. seq (await E (\<lambda>n. hb_send H n (r_raw r))) (\<lambda>h.
       guard (h = r_hash r) (StoreError ''RELAY_BROADCAST_HASH_MISMATCH'')) (w\<lparr>w_sent := w_sent w @ [r]\<rparr>)))"

definition evm_transport :: "env \<Rightarrow> hub \<Rightarrow> transport" where
  "evm_transport E H =
     \<lparr>processed = (\<lambda>q h. await E (\<lambda>n. hb_processed H n q h)),
      observeProcessed = evm_observeProcessed E H, prepare = evm_prepare E H,
      receipt = evm_receipt_of E H, broadcast = evm_broadcast E H\<rparr>"

section \<open>Every broadcast is on disk\<close>

text \<open>
  A transaction is accounted for while it occupies the relay slot, and afterwards because its
  receipt is in a job's history. Document steps never lose this.
\<close>

definition recorded :: "relay_envelope \<Rightarrow> data \<Rightarrow> bool" where
  "recorded r d \<longleftrightarrow> (\<exists>h j e. obj_get (jobs d) h = Some j \<and> e \<in> set (history_of j)
     \<and> h_hash e = r_hash r \<and> h_nonce e = r_nonce r)"

definition accounted :: "relay_envelope \<Rightarrow> data \<Rightarrow> bool" where
  "accounted r d \<longleftrightarrow> d_relay d = Some r \<or> recorded r d"

lemma recorded_mono:
  assumes "recorded r d"
    and "\<And>h j. obj_get (jobs d) h = Some j \<Longrightarrow> history_of j \<noteq> [] \<Longrightarrow>
      \<exists>j'. obj_get (jobs d') h = Some j' \<and> set (history_of j) \<subseteq> set (history_of j')"
  shows "recorded r d'"
  using assms unfolding recorded_def by (metis empty_iff list.set(1) subset_iff)

lemma history_apply_patch [simp]: "history_of (apply_patch p now j) = history_of j"
  by (simp add: history_of_def apply_patch_def)

lemma history_reserved [simp]: "history_of (reserved_job r now j) = history_of j"
  by (simp add: history_of_def reserved_job_def)

lemma history_finished [simp]: "history_of (finished_job r rc now j) = history_of j @ [receipt_entry r rc]"
  by (simp add: history_of_def finished_job_def)

lemma history_relayed: "history_of j \<noteq> [] \<Longrightarrow> relayed j"
  by (auto simp: relayed_def history_of_def split: option.splits)

lemma doc_step_recorded:
  "doc_step d d' \<Longrightarrow> keys_ok (jobs d) \<Longrightarrow> recorded r d \<Longrightarrow> recorded r d'"
proof (induction rule: doc_step.induct)
  case (doc_range d e now js js')
  show ?case
    by (rule recorded_mono [OF doc_range.prems(2)]) (use add_source_jobs_old [OF doc_range.hyps(4)] in auto)
next
  case (doc_rewind d a now)
  have "obj_get (jobs (rewound now a d)) h = Some j" if "obj_get (jobs d) h = Some j" "history_of j \<noteq> []" for h j
  proof -
    have "j \<notin> set (affected_jobs (c_height a) d)"
      using doc_rewind.hyps(3) history_relayed [OF that(2)] by (auto simp: list_ex_iff)
    then show ?thesis
      using that(1) doc_rewind.prems(1) keys_okD [OF doc_rewind.prems(1) that(1)]
      by (simp add: rewound_get affected_jobs_get not_less)
  qed
  with doc_rewind.prems(2) show ?case by (auto intro: recorded_mono)
next
  case (doc_reserve d r j now)
  show ?case by (rule recorded_mono [OF doc_reserve.prems(2)]) (use doc_reserve.hyps in \<open>auto simp: obj_simps\<close>)
next
  case (doc_finish d r j rc now)
  show ?case by (rule recorded_mono [OF doc_finish.prems(2)]) (use doc_finish.hyps in \<open>auto simp: obj_simps\<close>)
next
  case (doc_update p d h j now)
  show ?case by (rule recorded_mono [OF doc_update.prems(2)]) (use doc_update.hyps in \<open>auto simp: obj_simps\<close>)
qed (auto intro: recorded_mono)

lemma doc_step_accounted:
  assumes "doc_step d d'" and "keys_ok (jobs d)" and "accounted r d"
  shows "accounted r d'"
proof (cases "recorded r d")
  case True
  with doc_step_recorded [OF assms(1,2)] show ?thesis by (simp add: accounted_def)
next
  case False
  with assms(3) have "d_relay d = Some r" by (simp add: accounted_def)
  from doc_step_slot [OF assms(1) this] show ?thesis
    by (auto simp: accounted_def recorded_def receipt_entry_def)
      (metis last_in_set relay_entry.select_convs(1) relay_entry.select_convs(2))+
qed

definition relay_safe :: "relay_envelope set \<Rightarrow> world \<Rightarrow> bool" where
  "relay_safe X w \<longleftrightarrow> store_ok (w_store w) \<and> synced (w_store w)
     \<and> (\<forall>r \<in> set (w_sent w) \<union> X. accounted r (doc w))"

lemma steps_accounted:
  "(store_step readable)\<^sup>*\<^sup>* s t \<Longrightarrow> store_ok s \<Longrightarrow> synced s \<Longrightarrow>
     store_ok t \<and> synced t \<and> (\<forall>r. accounted r (mem s) \<longrightarrow> accounted r (mem t))"
proof (induction rule: rtranclp_induct)
  case (step t u)
  then have t: "store_ok t" "synced t" by auto
  obtain w where "readable w" "stepped w t u"
    using store_step_stepped [OF step.hyps(2) t(1)] readable_Written by blast
  then have "store_ok u" "synced u" "mem u = mem t \<or> doc_step (mem t) (mem u)"
    using t by (auto simp: stepped_def)
  moreover have "keys_ok (jobs (mem t))" using t by (simp add: store_ok_def data_ok_def)
  ultimately show ?case using step.IH [OF step.prems] doc_step_accounted by metis
qed simp

lemma runs_from_safe: "runs_from readable w t \<Longrightarrow> relay_safe X w \<Longrightarrow> relay_safe X t"
  using steps_accounted [of "w_store w" "w_store t"] by (auto simp: runs_from_def relay_safe_def doc_def)

lemma calls_only_safe: "calls_only readable m \<Longrightarrow> keeps (relay_safe X) m"
  by (rule keeps_snd, rule runs_from_safe, rule calls_onlyD)

lemma relay_safe_mono: "relay_safe X w \<Longrightarrow> Y \<subseteq> X \<Longrightarrow> relay_safe Y w"
  by (auto simp: relay_safe_def)

section \<open>The transport contract\<close>

text \<open>
  What the sender relies on: the transport's reads and the two guards use the store only through
  its calls and send nothing, and a broadcast sends at most the envelope it is given.
\<close>

locale relay_transport =
  fixes E :: env and T :: transport and guardSource :: "string \<Rightarrow> unit task" and guardHub :: "unit task"
  assumes rely_E: "rely readable E"
    and processed_calls: "calls_only readable (processed T q n)"
    and observe_calls: "calls_only readable (observeProcessed T q x)"
    and prepare_calls: "calls_only readable (prepare T h q d g)"
    and receipt_calls: "calls_only readable (receipt T r)"
    and guardSource_calls: "calls_only readable (guardSource h)"
    and guardHub_calls: "calls_only readable guardHub"
    and broadcast_sends: "runs_from readable w (snd (broadcast T r w))
      \<or> runs_from readable (w\<lparr>w_sent := w_sent w @ [r]\<rparr>) (snd (broadcast T r w))"
begin

lemmas safe_calls =
  calls_only_safe [OF processed_calls] calls_only_safe [OF observe_calls] calls_only_safe [OF prepare_calls]
  calls_only_safe [OF receipt_calls] calls_only_safe [OF guardSource_calls] calls_only_safe [OF guardHub_calls]

lemma call_safe: "store_call readable op \<Longrightarrow> keeps (relay_safe X) (call E op)"
  by (rule calls_only_safe) (blast intro: call_keeps rely_E)

lemma broadcast_safe: "keeps (relay_safe {r}) (broadcast T r)"
proof (rule keeps_snd)
  fix w assume w: "relay_safe {r} w"
  then have "relay_safe {r} (w\<lparr>w_sent := w_sent w @ [r]\<rparr>)" by (auto simp: relay_safe_def doc_def)
  with w broadcast_sends [of w r] show "relay_safe {r} (snd (broadcast T r w))"
    using runs_from_safe by blast
qed

lemma patches_ok: "patch_ok (error_patch m)" "patch_ok (skip_patch q ob)"
  by (simp_all add: patch_ok_def error_patch_def skip_patch_def no_patch_def)

lemma settle_safe: "keeps (relay_safe {r}) (settle E T guardSource h r)"
  unfolding settle_def rebroadcast_def
  by (intro keeps_rules keeps_option safe_calls call_safe store_calls patches_ok broadcast_safe throwIfStopped_keeps)

lemma reserve_safe:
  "triple (relay_safe {}) (call E (\<lambda>w now. reserveRelay w now r)) (\<lambda>_. relay_safe {r}) (\<lambda>_. relay_safe {})"
proof -
  have k: "keeps (relay_safe {}) (call E (\<lambda>w now. reserveRelay w now r))"
    by (intro call_safe store_calls)
  have "relay_safe {r} t" if "relay_safe {} w" "call E (\<lambda>w now. reserveRelay w now r) w = (Inr x, t)" for w x t
  proof -
    have "d_relay (doc t) = Some r"
      using that(2) by (auto simp: call_def doc_def reserveRelay_def commit_Inr
          split: prod.splits if_splits option.splits)
    then show ?thesis using tripleD_Inr [OF k that] by (simp add: relay_safe_def accounted_def)
  qed
  with k show ?thesis unfolding triple_cases by blast
qed

lemma new_relay_safe:
  "triple (relay_safe {}) (new_relay E T guardSource guardHub h p)
     (\<lambda>ro. relay_safe (set_option ro)) (\<lambda>_. relay_safe {})"
proof -
  have skip: "triple (relay_safe {}) (skip_confirmed E T guardSource h q x)
      (\<lambda>ro. relay_safe (set_option ro)) (\<lambda>_. relay_safe {})" for q x
    unfolding skip_confirmed_def
    by (intro triple_seq [OF safe_calls(5)] triple_seq [OF safe_calls(2)] triple_seq [OF throwIfStopped_keeps]
        triple_seq [OF call_safe] store_calls patches_ok triple_if triple_ret) simp_all
  have sign: "triple (relay_safe {}) (sign_and_reserve E T guardSource h q)
      (\<lambda>ro. relay_safe (set_option ro)) (\<lambda>_. relay_safe {})" for q
    unfolding sign_and_reserve_def
    by (intro triple_seq [OF safe_calls(5)] triple_seq [OF safe_calls(3)] triple_seq [OF reserve_safe]
        triple_guard_seq triple_ret) simp_all
  show ?thesis
    unfolding new_relay_def
    by (intro triple_option triple_throw triple_seq [OF safe_calls(6)] triple_seq [OF throwIfStopped_keeps]
        triple_seq [OF call_safe] store_calls triple_seq [OF safe_calls(2)])
      (auto split: query_status.split intro: skip sign triple_ret simp del: io_run_atom)
qed

lemma step_body_safe: "keeps (relay_safe {}) (step_body E T guardSource guardHub h p)"
proof -
  have slot: "triple (\<lambda>w. relay_safe {} w \<and> doc w = d)
      (case d_relay d of Some r \<Rightarrow> ret (Some r) | None \<Rightarrow> new_relay E T guardSource guardHub h p)
      (\<lambda>ro. relay_safe (set_option ro)) (\<lambda>_. relay_safe {})" for d
  proof (cases "d_relay d")
    case None
    have "triple (\<lambda>w. relay_safe {} w \<and> doc w = d) (new_relay E T guardSource guardHub h p)
        (\<lambda>ro. relay_safe (set_option ro)) (\<lambda>_. relay_safe {})"
      by (rule triple_weaken [OF new_relay_safe]) simp_all
    with None show ?thesis by simp
  next
    case (Some r)
    then show ?thesis by (auto simp: triple_cases relay_safe_def accounted_def)
  qed
  have settled: "triple (relay_safe (set_option ro))
      (case ro of None \<Rightarrow> ret () | Some r \<Rightarrow> settle E T guardSource h r)
      (\<lambda>_. relay_safe {}) (\<lambda>_. relay_safe {})" for ro
  proof (cases ro)
    case (Some r)
    have "keeps (relay_safe {r}) (settle E T guardSource h r)" by (rule settle_safe)
    then have "triple (relay_safe {r}) (settle E T guardSource h r) (\<lambda>_. relay_safe {}) (\<lambda>_. relay_safe {})"
      by (rule triple_weaken) (auto elim: relay_safe_mono)
    with Some show ?thesis by simp
  qed (simp add: triple_cases)
  show ?thesis
    unfolding step_body_def
    by (intro triple_seq [OF call_safe] store_calls triple_gets_seq triple_guard_seq
        triple_seq [OF slot] settled) simp_all
qed

lemma sender_safe: "keeps (relay_safe {}) (sender_step E T guardSource guardHub h p)"
proof -
  have act: "relay_safe {} (set_active b w) = relay_safe {} w" for b w
    by (simp add: relay_safe_def set_active_def doc_def)
  have "keeps (relay_safe {}) (\<lambda>w. finally_do (step_body E T guardSource guardHub h p)
      (set_active False) (set_active True w))"
  proof (rule keeps_snd)
    fix w assume "relay_safe {} w"
    then have "relay_safe {} (snd (step_body E T guardSource guardHub h p (set_active True w)))"
      using keepsD [OF step_body_safe] act by blast
    then show "relay_safe {} (snd (finally_do (step_body E T guardSource guardHub h p)
        (set_active False) (set_active True w)))"
      by (auto simp: finally_do_def act split: prod.split)
  qed
  then show ?thesis
    unfolding sender_step_def
    by (intro triple_seq [OF throwIfStopped_keeps] triple_gets_seq triple_guard_seq) (auto elim: triple_weaken)
qed

end

section \<open>The EVM transport meets the contract\<close>

lemmas evm_defs = evm_observeProcessed_def evm_prepare_def evm_receipt_of_def sample_def getAddress_def Let_def

lemma evm_calls:
  assumes "rely ok E"
  shows "calls_only ok (evm_observeProcessed E H q x)" "calls_only ok (evm_prepare E H h q d g)"
    "calls_only ok (evm_receipt_of E H r)"
proof -
  have s: "keeps (runs_from ok w0) (sample E H q n y)" for w0 n y
    unfolding sample_def by (intro task_intro assms)
  show "calls_only ok (evm_observeProcessed E H q x)"
    unfolding evm_observeProcessed_def getAddress_def Let_def by (intro allI task_intro assms s)
  show "calls_only ok (evm_prepare E H h q d g)"
    unfolding evm_prepare_def getAddress_def Let_def split_def by (intro allI task_intro assms)
  show "calls_only ok (evm_receipt_of E H r)"
    unfolding evm_receipt_of_def getAddress_def by (intro allI task_intro assms)
qed

lemma runs_from_trans: "runs_from ok u v \<Longrightarrow> runs_from ok v w \<Longrightarrow> runs_from ok u w"
  unfolding runs_from_def by (auto intro: rtranclp_trans)

lemma evm_broadcast_sends:
  assumes "rely ok E"
  shows "runs_from ok w (snd (evm_broadcast E H r w))
    \<or> runs_from ok (w\<lparr>w_sent := w_sent w @ [r]\<rparr>) (snd (evm_broadcast E H r w))"
proof -
  obtain a v where v: "getAddress E H w = (a, v)" by force
  have wv: "runs_from ok w v" using calls_onlyD [of ok "getAddress E H" w] v
    by (simp add: getAddress_def await_keeps assms)
  then have wv': "runs_from ok (w\<lparr>w_sent := w_sent w @ [r]\<rparr>) (v\<lparr>w_sent := w_sent v @ [r]\<rparr>)"
    by (simp add: runs_from_def)
  have send: "calls_only ok (seq (await E (\<lambda>n. hb_send H n (r_raw r))) (\<lambda>h.
      guard (h = r_hash r) (StoreError ''RELAY_BROADCAST_HASH_MISMATCH'')))"
    by (intro allI task_intro assms)
  show ?thesis
  proof (cases a)
    case (Inl e)
    then have "snd (evm_broadcast E H r w) = v" by (simp add: evm_broadcast_def seq_def v)
    with wv show ?thesis by simp
  next
    case (Inr asc)
    show ?thesis
    proof (cases "validateRelay (hb_parse H) r 102031 asc (hb_wallet H)")
      case True
      then have "evm_broadcast E H r w = seq (await E (\<lambda>n. hb_send H n (r_raw r))) (\<lambda>h.
          guard (h = r_hash r) (StoreError ''RELAY_BROADCAST_HASH_MISMATCH'')) (v\<lparr>w_sent := w_sent v @ [r]\<rparr>)"
        by (simp add: evm_broadcast_def seq_def [of "getAddress E H"] v Inr)
      with runs_from_trans [OF wv' calls_onlyD [OF send]] show ?thesis by simp
    next
      case False
      then have "snd (evm_broadcast E H r w) = v"
        by (simp add: evm_broadcast_def seq_def [of "getAddress E H"] v Inr)
      with wv show ?thesis by simp
    qed
  qed
qed

lemma evm_contract:
  assumes "rely readable E" and "\<And>h. calls_only readable (gS h)" and "calls_only readable gH"
  shows "relay_transport E (evm_transport E H) gS gH"
  using assms by unfold_locales (auto simp: evm_transport_def evm_calls await_keeps evm_broadcast_sends)

text \<open>The constructor's default guards do nothing.\<close>

interpretation evm: relay_transport quiet_env "evm_transport quiet_env H" "\<lambda>_. ret ()" "ret ()" for H
  by (rule evm_contract) (auto intro: quiet_rely keeps_rules simp del: io_run_atom)

section \<open>What the EVM transport has seen\<close>

text \<open>The query was read at a block whose hash was the same before and after, at that depth.\<close>

definition query_seen :: "hub \<Rightarrow> string \<Rightarrow> int \<Rightarrow> string \<Rightarrow> bool \<Rightarrow> int \<Rightarrow> bool" where
  "query_seen H q height hash value conf \<longleftrightarrow>
     (\<exists>n1 n2 n3 n4 b b' hd. n1 < n2 \<and> n2 < n3 \<and> n3 < n4
        \<and> hb_block H n1 height = Some (Some b) \<and> hb_block H n4 height = Some (Some b')
        \<and> b_hash b = Some hash \<and> b_hash b' = Some hash \<and> hb_processed H n2 q height = Some value
        \<and> hb_head H n3 = Some hd \<and> conf = hd - height + 1)"

lemma block_hash_is: "is_hash (block_hash (Some b)) \<Longrightarrow> b_hash b = Some (block_hash (Some b))"
  by (auto simp: block_hash_def is_hex_def split: option.splits)

lemma sample_yields:
  "yields k (sample E H q height ex) (\<lambda>s w. k \<le> w_tick w \<and>
     (s_blockNumber s = height \<and> query_seen H q height (s_blockHash s) (s_value s) (s_confirmations s)))"
  unfolding sample_def
proof (intro yields_await yields_guard yields_gets yields_ret)
  fix block n1 val n2 head n3 again n4 m w
  assume n: "k \<le> n1" "Suc n1 \<le> n2" "Suc n2 \<le> n3" "Suc n3 \<le> n4" "Suc n4 \<le> w_tick w"
    and r: "hb_block H n1 height = Some block" "hb_processed H n2 q height = Some val"
      "hb_head H n3 = Some head" "hb_block H n4 height = Some again"
    and g: "\<not> (block = None \<or> block_number block \<noteq> height \<or> \<not> is_hash (block_hash block)
         \<or> (ex \<noteq> None \<and> ex \<noteq> Some (block_hash block)))"
      "\<not> (again = None \<or> block_number again \<noteq> height \<or> block_hash again \<noteq> block_hash block
         \<or> \<not> safe_integer head \<or> head < height)"
  obtain b b' where b: "block = Some b" "again = Some b'" using g by auto
  then have "b_hash b = Some (block_hash block)" "b_hash b' = Some (block_hash block)"
    using g block_hash_is [of b] block_hash_is [of b'] by auto
  then have "query_seen H q height (block_hash block) val (head - height + 1)"
    unfolding query_seen_def using n r b
    by (intro exI [of _ n1] exI [of _ n2] exI [of _ n3] exI [of _ n4] exI [of _ b] exI [of _ b'] exI [of _ head]) auto
  then show "k \<le> w_tick w \<and> s_blockNumber \<lparr>s_value = val, s_blockNumber = height, s_blockHash = block_hash block,
      s_confirmations = head - height + 1, s_observedAt = e_now E m\<rparr> = height \<and>
    query_seen H q height (s_blockHash \<lparr>s_value = val, s_blockNumber = height, s_blockHash = block_hash block,
      s_confirmations = head - height + 1, s_observedAt = e_now E m\<rparr>)
     (s_value \<lparr>s_value = val, s_blockNumber = height, s_blockHash = block_hash block,
      s_confirmations = head - height + 1, s_observedAt = e_now E m\<rparr>)
     (s_confirmations \<lparr>s_value = val, s_blockNumber = height, s_blockHash = block_hash block,
      s_confirmations = head - height + 1, s_observedAt = e_now E m\<rparr>)"
    using n by simp
qed

definition confirmed_seen :: "hub \<Rightarrow> string \<Rightarrow> query_observation \<Rightarrow> bool" where
  "confirmed_seen H q ob \<longleftrightarrow> (q_status ob = Confirmed \<longrightarrow>
     query_seen H q (q_blockNumber ob) (q_blockHash ob) True (q_confirmations ob)
     \<and> hb_confirmations H \<le> q_confirmations ob)"

lemma depth_status_seen:
  "s_blockNumber s = h \<and> query_seen H q h (s_blockHash s) (s_value s) (s_confirmations s) \<Longrightarrow>
     confirmed_seen H q (depth_status H s)"
  by (auto simp: confirmed_seen_def depth_status_def observation_def split: if_splits)

lemma not_confirmed_seen:
  "q_status x = Confirmed \<Longrightarrow> confirmed_seen H q (x\<lparr>q_status := QPending\<rparr>)"
  "confirmed_seen H q (observation Unprocessed s)" "confirmed_seen H q (observation QPending s)"
  by (simp_all add: confirmed_seen_def observation_def)

lemma observe_yields:
  "yields k (evm_observeProcessed E H q x) (\<lambda>ob _. confirmed_seen H q ob)"
proof -
  have st: "yields j (seq (if b then ret l else sample E H q h None) (\<lambda>s. ret (depth_status H s)))
      (\<lambda>ob _. confirmed_seen H q ob)"
    if "query_seen H q h' (s_blockHash l) (s_value l) (s_confirmations l)" "s_blockNumber l = h'" for j b l h h'
  proof (cases b)
    case True
    have "yields j (ret (depth_status H l)) (\<lambda>ob _. confirmed_seen H q ob)"
      by (rule yields_ret) (use that depth_status_seen in blast)
    with True show ?thesis by (simp only: if_True seq_ret)
  next
    case False
    have "yields j (seq (sample E H q h None) (\<lambda>s. ret (depth_status H s))) (\<lambda>ob _. confirmed_seen H q ob)"
      by (intro yields_seq [OF sample_yields] yields_ret) (rule depth_status_seen)
    with False show ?thesis by (simp only: if_False)
  qed
  show ?thesis
  proof (cases x)
    case None
    show ?thesis
      unfolding evm_observeProcessed_def getAddress_def Let_def None option.case
      by (intro yields_await yields_guard yields_seq [OF sample_yields] yields_if yields_ret
          not_confirmed_seen; elim conjE; intro st)
  next
    case (Some y)
    show ?thesis
      unfolding evm_observeProcessed_def Some option.case
      by (intro yields_await yields_guard yields_seq [OF sample_yields] yields_if yields_ret
          not_confirmed_seen) (auto intro: depth_status_seen)
  qed
qed

text \<open>A final receipt: the transaction's own, in a block whose hash was the same before and after the
  depth was measured.\<close>

definition receipt_seen :: "hub \<Rightarrow> relay_envelope \<Rightarrow> final_receipt \<Rightarrow> bool" where
  "receipt_seen H r rc \<longleftrightarrow>
     (\<exists>n1 n2 n3 n4 x b b' hd. n1 < n2 \<and> n2 < n3 \<and> n3 < n4
        \<and> hb_receipt H n1 (r_hash r) = Some (Some x) \<and> er_hash x = r_hash r
        \<and> er_status x = Some (if fr_status rc = Success then 1 else 0)
        \<and> hb_block H n2 (fr_blockNumber rc) = Some (Some b) \<and> b_hash b = Some (fr_blockHash rc)
        \<and> hb_head H n3 = Some hd \<and> hb_confirmations H \<le> hd - fr_blockNumber rc + 1
        \<and> hb_block H n4 (fr_blockNumber rc) = Some (Some b') \<and> b_hash b' = Some (fr_blockHash rc))"

lemma receipt_yields:
  "yields k (evm_receipt_of E H r) (\<lambda>v _. case v of None \<Rightarrow> True | Some rc \<Rightarrow> receipt_seen H r rc)"
proof -
  have opt: "yields j (case rc of None \<Rightarrow> ret None | Some x \<Rightarrow> f x) Q"
    if "\<And>x. rc = Some x \<Longrightarrow> yields j (f x) Q" "\<And>w. Q None w"
    for j :: nat and rc :: "evm_receipt option" and f :: "evm_receipt \<Rightarrow> receipt_view task" and Q
    using that by (cases rc) (auto intro: yields_ret simp del: io_run_atom)
  have seen: "receipt_seen H r \<lparr>fr_status = (if er_status x = Some 1 then Success else Reverted),
      fr_blockNumber = er_blockNumber x, fr_blockHash = er_blockHash x\<rparr>"
    if h: "n1 < n2" "n2 < n3" "n3 < n4" "hb_receipt H n1 (r_hash r) = Some (Some x)"
      "hb_block H n2 (er_blockNumber x) = Some block" "hb_head H n3 = Some head"
      "hb_block H n4 (er_blockNumber x) = Some again"
      "\<not> (\<not> safe_integer head \<or> head < er_blockNumber x \<or> block = None \<or> block_number block \<noteq> er_blockNumber x
           \<or> Some (er_blockHash x) \<noteq> Option.bind block b_hash
           \<or> head - er_blockNumber x + 1 < hb_confirmations H)"
      "\<not> (er_hash x \<noteq> r_hash r \<or> to_lower (er_from x) \<noteq> to_lower (r_signer r)
               \<or> map_option to_lower (er_to x) \<noteq> Some (to_lower (r_to r))
               \<or> er_status x \<noteq> Some 0 \<and> er_status x \<noteq> Some 1)"
      "\<not> (again = None \<or> block_number again \<noteq> er_blockNumber x
             \<or> Some (er_blockHash x) \<noteq> Option.bind again b_hash)"
    for n1 n2 n3 n4 x block head again
  proof -
    obtain b b' where b: "block = Some b" "again = Some b'" using h by auto
    show ?thesis
      unfolding receipt_seen_def
      by (rule exI [of _ n1], rule exI [of _ n2], rule exI [of _ n3], rule exI [of _ n4], rule exI [of _ x],
          rule exI [of _ b], rule exI [of _ b'], rule exI [of _ head]) (use h b in auto)
  qed
  show ?thesis
    unfolding evm_receipt_of_def getAddress_def
    by (intro yields_await yields_guard opt yields_if yields_ret; simp only: option.case)
      (rule seen; (assumption | simp))
qed

section \<open>A concrete hub\<close>

definition sample_hub :: hub where
  "sample_hub = \<lparr>hb_head = (\<lambda>_. Some 50),
     hb_block = (\<lambda>_ h. Some (Some \<lparr>b_number = h, b_hash = Some (sample_hash CHR ''5'')\<rparr>)),
     hb_processed = (\<lambda>_ _ _. Some True), hb_code = (\<lambda>_ _. Some ''0x60''),
     hb_receipt = (\<lambda>n h. Some (if n < 10 then None else Some \<lparr>er_hash = h, er_from = ''0x02'', er_to = Some ''0x01'',
       er_status = Some 1, er_blockNumber = 40, er_blockHash = sample_hash CHR ''5''\<rparr>)),
     hb_send = (\<lambda>_ _. Some (sample_hash CHR ''d'')), hb_sign = (\<lambda>_ _ _. Some (''0x02'', 0, 102031)),
     hb_keccak = (\<lambda>_. sample_hash CHR ''d''),
     hb_parse = (\<lambda>_. Some \<lparr>tx_signed = True, tx_hash = sample_hash CHR ''d'', tx_nonce = 0, tx_chainId = 102031,
       tx_to = Some ''0x01'', tx_from = ''0x02'', tx_data = ''0x03'', tx_value = 0\<rparr>),
     hb_asc = ''0x01'', hb_wallet = ''0x02'', hb_confirmations = 6\<rparr>"

definition sample_relay_world :: world where
  "sample_relay_world = \<lparr>w_store = sample3, w_tick = 0, w_active = False, w_stop = False, w_sent = []\<rparr>"

definition sample_step :: "(store_error + unit) \<times> world" where
  "sample_step = sender_step quiet_env (evm_transport quiet_env sample_hub) (\<lambda>_. ret ()) (ret ())
     (sample_hash CHR ''a'') None sample_relay_world"

lemma sample_step_sent: "fst sample_step = Inr () \<and> w_sent (snd sample_step) = [sample_relay]"
  by code_simp

section \<open>Properties\<close>

text \<open>C1. Nothing is broadcast that is not on disk. If every transaction sent so far occupies the relay
  slot of the state file or has its receipt in a job's history there, the same holds after a step
  of the sender, however it ends and whatever other tasks do at its awaits: a signature reaches
  the network only after it was saved, and it is never forgotten.\<close>

theorem broadcasts_are_on_disk:
  assumes "rely readable E" and "\<And>h. calls_only readable (guardSource h)" and "calls_only readable guardHub"
    and "store_ok (w_store w)" and "synced (w_store w)" and "\<forall>r \<in> set (w_sent w). accounted r (doc w)"
    and "sender_step E (evm_transport E H) guardSource guardHub tx prep w = (res, w')"
  shows "\<forall>r \<in> set (w_sent w'). accounted r (doc w') \<and> load (disk (w_store w')) = Inr (doc w')"
proof -
  have "relay_safe {} w" using assms(4-6) by (simp add: relay_safe_def)
  then have "relay_safe {} (snd (sender_step E (evm_transport E H) guardSource guardHub tx prep w))"
    by (rule keepsD [OF relay_transport.sender_safe [OF evm_contract [OF assms(1-3)]]])
  then have "relay_safe {} w'" unfolding assms(7) snd_conv .
  then show ?thesis by (auto simp: relay_safe_def synced_def doc_def)
qed

theorem broadcasts_are_on_disk_witness:
  "w_sent (snd sample_step) = [sample_relay] \<and> accounted sample_relay (doc (snd sample_step))"
proof -
  have "store_ok (w_store sample_relay_world)" "synced (w_store sample_relay_world)"
    using readable_write.reachable_inv [OF sample_reachable(3)] by (simp_all add: sample_relay_world_def)
  moreover have "sender_step quiet_env (evm_transport quiet_env sample_hub) (\<lambda>_. ret ()) (ret ())
     (sample_hash CHR ''a'') None sample_relay_world = (fst sample_step, snd sample_step)"
    by (simp add: sample_step_def)
  moreover have "calls_only readable (ret () :: unit task)" by (blast intro: keeps_rules)
  ultimately have "\<forall>r \<in> set (w_sent (snd sample_step)). accounted r (doc (snd sample_step))"
    using broadcasts_are_on_disk [OF quiet_rely, of "\<lambda>_. ret ()" "ret ()" sample_relay_world sample_hub
        "sample_hash CHR ''a''" None "fst sample_step" "snd sample_step"]
    by (simp add: sample_relay_world_def del: io_run_atom)
  with sample_step_sent show ?thesis by simp
qed

text \<open>A query counts as confirmed only if it was read as processed at a block whose hash was the
  same before and after the read, at least the configured number of confirmations deep.\<close>

theorem confirmed_query_is_deep:
  assumes "evm_observeProcessed E H q x w = (Inr ob, w')" and "q_status ob = Confirmed"
  shows "query_seen H q (q_blockNumber ob) (q_blockHash ob) True (q_confirmations ob)
    \<and> hb_confirmations H \<le> q_confirmations ob"
  using tripleD_Inr [OF observe_yields [of 0] _ assms(1)] assms(2) by (simp add: confirmed_seen_def)

theorem confirmed_query_is_deep_witness:
  "query_seen sample_hub ''0x01'' 45 (sample_hash CHR ''5'') True 6"
proof -
  have "fst (evm_observeProcessed quiet_env sample_hub ''0x01'' None sample_world) =
      Inr \<lparr>q_status = Confirmed, q_blockNumber = 45, q_blockHash = sample_hash CHR ''5'', q_confirmations = 6,
        q_observedAt = 1011\<rparr>" by code_simp
  then have "evm_observeProcessed quiet_env sample_hub ''0x01'' None sample_world =
      (Inr \<lparr>q_status = Confirmed, q_blockNumber = 45, q_blockHash = sample_hash CHR ''5'', q_confirmations = 6,
        q_observedAt = 1011\<rparr>, snd (evm_observeProcessed quiet_env sample_hub ''0x01'' None sample_world))"
    by (metis prod.collapse)
  from confirmed_query_is_deep [OF this] show ?thesis by simp
qed

text \<open>A receipt counts as final only if it is the transaction's own, with a definite status, in a
  block of the stated hash that was deep enough and still canonical afterwards.\<close>

theorem final_receipt_is_deep:
  assumes "evm_receipt_of E H r w = (Inr (Some rc), w')"
  shows "receipt_seen H r rc"
  using tripleD_Inr [OF receipt_yields [of 0] _ assms] by simp

theorem final_receipt_is_deep_witness:
  "receipt_seen sample_hub sample_relay \<lparr>fr_status = Success, fr_blockNumber = 40, fr_blockHash = sample_hash CHR ''5''\<rparr>"
proof -
  let ?w = "sample_world\<lparr>w_tick := 20\<rparr>"
  have "fst (evm_receipt_of quiet_env sample_hub sample_relay ?w) =
      Inr (Some \<lparr>fr_status = Success, fr_blockNumber = 40, fr_blockHash = sample_hash CHR ''5''\<rparr>)" by code_simp
  then have "evm_receipt_of quiet_env sample_hub sample_relay ?w =
      (Inr (Some \<lparr>fr_status = Success, fr_blockNumber = 40, fr_blockHash = sample_hash CHR ''5''\<rparr>),
       snd (evm_receipt_of quiet_env sample_hub sample_relay ?w))" by (metis prod.collapse)
  from final_receipt_is_deep [OF this] show ?thesis .
qed

section \<open>Settling a final receipt\<close>


















definition settled :: "relay_envelope \<Rightarrow> final_receipt \<Rightarrow> world \<Rightarrow> bool" where
  "settled r rc w \<longleftrightarrow> d_relay (doc w) = None \<and> disk (w_store w) = Some (doc w)
     \<and> (\<exists>j. obj_get (jobs (doc w)) (r_sourceTxHash r) = Some j
       \<and> j_state j = (if fr_status rc = Success then Done else Dead) \<and> last (history_of j) = receipt_entry r rc)"









end
