(* ===== verification/Recovery.thy ===== *)
theory Recovery
  imports Relay
begin

text \<open>
  The audit of the signer's history, \<^verbatim>\<open>worker/recovery.ts\<close>: the one-time initialisation of the
  nonce baseline, and the reconciliation that must succeed before a restarted worker may sign.
\<close>

section \<open>Definitions\<close>

record recovery_reader =
  rr_count :: "nat \<Rightarrow> string \<Rightarrow> bool \<Rightarrow> int option"
  rr_head :: "nat \<Rightarrow> int option"
  rr_block :: "nat \<Rightarrow> int \<Rightarrow> source_block option option"
  rr_receipt :: "nat \<Rightarrow> string \<Rightarrow> evm_receipt option option"
  rr_processed :: "nat \<Rightarrow> string \<Rightarrow> int \<Rightarrow> bool option"

text \<open>The counts for \<^verbatim>\<open>latest\<close> and \<^verbatim>\<open>pending\<close>.\<close>

definition read_counts :: "env \<Rightarrow> recovery_reader \<Rightarrow> string \<Rightarrow> (int \<times> int) task" where
  "read_counts E R signer =
     seq (await E (\<lambda>n. rr_count R n signer False)) (\<lambda>latest.
     seq (await E (\<lambda>n. rr_count R n signer True)) (\<lambda>pend. ret (latest, pend)))"

definition terminal_evidence ::
  "job \<Rightarrow> string \<times> job_state \<times> string option \<times> string option \<times> relay_entry list option \<times> skip_observation option" where
  "terminal_evidence j =
     (j_txHash j, j_state j, j_ascTxHash j, j_queryId j, j_relayHistory j, j_skipObservation j)"

text \<open>The text compared before the verdict; transaction hashes are lower-case, so the order of
  \<^verbatim>\<open>localeCompare\<close> on them is that of their characters.\<close>

definition evidenceIdentity :: "data \<Rightarrow> int option \<times> string option \<times> relay_envelope option \<times>
    (string \<times> job_state \<times> string option \<times> string option \<times> relay_entry list option \<times> skip_observation option) list" where
  "evidenceIdentity d = (hubStartNonce d, hubHold d, d_relay d,
     sort_key fst (map terminal_evidence (filter (\<lambda>j. terminal_state (j_state j)) (map snd (jobs d)))))"

definition has_history :: "job \<Rightarrow> bool" where
  "has_history j \<longleftrightarrow> history_of j \<noteq> []"

definition hold_hub :: "env \<Rightarrow> string \<Rightarrow> 'a task" where
  "hold_hub E reason = call E (\<lambda>w now. holdHub w reason)"

definition initializeHubRecovery :: "env \<Rightarrow> recovery_reader \<Rightarrow> unit task" where
  "initializeHubRecovery E R =
     seq (call E (\<lambda>w now. assertHubReady)) (\<lambda>_. seq (gets doc) (\<lambda>d.
     seq (if scope d = None \<or> hubStartNonce d \<noteq> None \<or> d_relay d \<noteq> None
            \<or> list_ex (\<lambda>j. truthy (j_ascTxHash j) \<or> has_history j \<or> j_state j \<in> {Submitted, Done, Dead})
                (map snd (jobs d))
          then hold_hub E ''HUB_SIGNER_BASELINE_REQUIRES_RECONCILIATION'' else ret ()) (\<lambda>_.
     seq (read_counts E R (scope_signer (the (scope d)))) (\<lambda>(latest, pend).
     seq (guard (integer0 latest \<and> integer0 pend) (HubSafetyError ''HUB_RECOVERY_OBSERVATION_UNAVAILABLE'')) (\<lambda>_.
     seq (if latest \<noteq> 0 \<or> pend \<noteq> 0
          then hold_hub E ''HUB_SIGNER_BASELINE_REQUIRES_RECONCILIATION'' else ret ()) (\<lambda>_.
     call E (\<lambda>w now. initializeHubSigner w 0)))))))"

text \<open>The first loop of the audit: one history entry for every finished job and none elsewhere.\<close>

fun collect_terminal :: "job list \<Rightarrow> (job \<times> relay_entry) list option" where
  "collect_terminal [] = Some []"
| "collect_terminal (j # r) =
     (if j_state j = Done \<or> j_state j = Dead
      then if length (history_of j) \<noteq> 1 \<or> \<not> truthy (j_queryId j) \<or> \<not> truthy (j_ascTxHash j) then None
        else map_option ((#) (j, hd (history_of j))) (collect_terminal r)
      else if has_history j then None else collect_terminal r)"

definition nonces_consecutive :: "int \<Rightarrow> (job \<times> relay_entry) list \<Rightarrow> bool" where
  "nonces_consecutive baseline ts \<longleftrightarrow>
     list_all (\<lambda>i. integer0 (h_nonce (snd (ts ! i))) \<and> h_nonce (snd (ts ! i)) = baseline + int i) [0..<length ts]"

definition receipt_matches :: "string \<Rightarrow> string \<Rightarrow> int \<Rightarrow> int \<Rightarrow> relay_entry \<Rightarrow> evm_receipt option \<Rightarrow> bool" where
  "receipt_matches signer asc head confirmations h rc = (case rc of None \<Rightarrow> False
     | Some x \<Rightarrow> \<not> (er_hash x \<noteq> h_hash h \<or> to_lower (er_from x) \<noteq> signer
         \<or> map_option to_lower (er_to x) \<noteq> Some asc
         \<or> er_status x \<noteq> Some (if h_status h = Success then 1 else 0) \<or> er_blockNumber x \<noteq> h_blockNumber h
         \<or> er_blockHash x \<noteq> h_blockHash h \<or> \<not> integer0 (er_blockNumber x) \<or> \<not> is_hash (er_blockHash x)
         \<or> head < er_blockNumber x \<or> head - er_blockNumber x + 1 < confirmations))"

definition block_is :: "source_block option \<Rightarrow> int \<Rightarrow> string \<Rightarrow> bool" where
  "block_is b n h = (case b of None \<Rightarrow> False | Some x \<Rightarrow> b_number x = n \<and> b_hash x = Some h)"

text \<open>A check whose failure puts the hub on hold.\<close>

definition require_hub :: "env \<Rightarrow> bool \<Rightarrow> string \<Rightarrow> unit task" where
  "require_hub E b reason = (if b then ret () else hold_hub E reason)"

fun check_terminal ::
  "env \<Rightarrow> recovery_reader \<Rightarrow> string \<Rightarrow> string \<Rightarrow> int \<Rightarrow> int \<Rightarrow> (job \<times> relay_entry) list \<Rightarrow> unit task" where
  "check_terminal E R signer asc head confirmations [] = ret ()"
| "check_terminal E R signer asc head confirmations ((j, h) # r) =
     seq (await E (\<lambda>n. rr_receipt R n (h_hash h))) (\<lambda>rc.
     seq (require_hub E (receipt_matches signer asc head confirmations h rc)
       ''HUB_TERMINAL_HISTORY_NOT_CANONICAL'') (\<lambda>_.
     seq (await E (\<lambda>n. rr_block R n (h_blockNumber h))) (\<lambda>block.
     seq (require_hub E (block_is block (h_blockNumber h) (h_blockHash h))
       ''HUB_TERMINAL_HISTORY_NOT_CANONICAL'') (\<lambda>_.
     seq (if h_status h = Success
          then seq (await E (\<lambda>n. rr_processed R n (the (j_queryId j)) (h_blockNumber h))) (\<lambda>p.
            require_hub E p ''HUB_TERMINAL_QUERY_NOT_CANONICAL'')
          else ret ()) (\<lambda>_.
     seq (await E (\<lambda>n. rr_block R n (h_blockNumber h))) (\<lambda>again.
     seq (require_hub E (block_is again (h_blockNumber h) (h_blockHash h))
       ''HUB_TERMINAL_HISTORY_NOT_CANONICAL'') (\<lambda>_.
     check_terminal E R signer asc head confirmations r)))))))"

definition skip_plausible :: "int \<Rightarrow> int \<Rightarrow> job \<Rightarrow> bool" where
  "skip_plausible head confirmations j = (case j_skipObservation j of None \<Rightarrow> False
     | Some ob \<Rightarrow> truthy (j_queryId j) \<and> integer0 (so_blockNumber ob) \<and> is_hash (so_blockHash ob)
         \<and> so_blockNumber ob \<le> head \<and> confirmations \<le> head - so_blockNumber ob + 1)"

fun check_skipped :: "env \<Rightarrow> recovery_reader \<Rightarrow> int \<Rightarrow> int \<Rightarrow> job list \<Rightarrow> unit task" where
  "check_skipped E R head confirmations [] = ret ()"
| "check_skipped E R head confirmations (j # r) =
     (if j_state j \<noteq> Skipped then check_skipped E R head confirmations r
      else let ob = the (j_skipObservation j) in
        seq (require_hub E (skip_plausible head confirmations j) ''HUB_SKIP_OBSERVATION_NOT_CANONICAL'') (\<lambda>_.
        seq (await E (\<lambda>n. rr_block R n (so_blockNumber ob))) (\<lambda>block.
        seq (if block_is block (so_blockNumber ob) (so_blockHash ob)
             then await E (\<lambda>n. rr_processed R n (the (j_queryId j)) (so_blockNumber ob))
             else ret False) (\<lambda>p.
        seq (require_hub E p ''HUB_SKIP_OBSERVATION_NOT_CANONICAL'') (\<lambda>_.
        seq (await E (\<lambda>n. rr_block R n (so_blockNumber ob))) (\<lambda>again.
        seq (require_hub E (block_is again (so_blockNumber ob) (so_blockHash ob))
          ''HUB_SKIP_OBSERVATION_NOT_CANONICAL'') (\<lambda>_.
        check_skipped E R head confirmations r)))))))"

definition nonce_verdict :: "data \<Rightarrow> int \<Rightarrow> int \<Rightarrow> int \<Rightarrow> bool" where
  "nonce_verdict d expected latest pend = (case d_relay d of
     Some r \<Rightarrow> r_nonce r = expected \<and> latest \<in> {expected, expected + 1} \<and> pend \<in> {expected, expected + 1}
   | None \<Rightarrow> latest = expected \<and> pend = expected)"

text \<open>The audit of the snapshot \<open>d\<close>.\<close>

definition audit :: "env \<Rightarrow> recovery_reader \<Rightarrow> int \<Rightarrow> data \<Rightarrow> unit task" where
  "audit E R confirmations d =
     (case scope d of None \<Rightarrow> throw (HubSafetyError ''HUB_RECOVERY_SCOPE_UNBOUND'')
      | Some sc \<Rightarrow>
     let signer = to_lower (scope_signer sc); asc = to_lower (scope_asc sc) in
     case hubStartNonce d of None \<Rightarrow> hold_hub E ''HUB_SIGNER_BASELINE_REQUIRES_RECONCILIATION''
     | Some baseline \<Rightarrow>
     seq (require_hub E (integer0 baseline) ''HUB_SIGNER_BASELINE_REQUIRES_RECONCILIATION'') (\<lambda>_.
     case collect_terminal (map snd (jobs d)) of
       None \<Rightarrow> hold_hub E ''HUB_TERMINAL_HISTORY_REQUIRES_RECONCILIATION''
     | Some ts \<Rightarrow>
     let terminal = sort_key (\<lambda>t. h_nonce (snd t)) ts in
     seq (require_hub E (nonces_consecutive baseline terminal) ''HUB_NONCE_HISTORY_REQUIRES_RECONCILIATION'') (\<lambda>_.
     seq (await E (rr_head R)) (\<lambda>head.
     seq (guard (integer0 head) (HubSafetyError ''HUB_RECOVERY_OBSERVATION_UNAVAILABLE'')) (\<lambda>_.
     seq (check_terminal E R signer asc head confirmations terminal) (\<lambda>_.
     seq (check_skipped E R head confirmations (map snd (jobs d))) (\<lambda>_.
     seq (await E (\<lambda>n. rr_count R n signer False)) (\<lambda>latest.
     seq (await E (\<lambda>n. rr_count R n signer True)) (\<lambda>pend.
     seq (guard (integer0 latest \<and> integer0 pend \<and> latest \<le> pend)
       (HubSafetyError ''HUB_RECOVERY_OBSERVATION_UNAVAILABLE'')) (\<lambda>_.
     seq (gets doc) (\<lambda>d'.
     if evidenceIdentity d' \<noteq> evidenceIdentity d then ret ()
     else require_hub E (nonce_verdict d (baseline + int (length terminal)) latest pend)
       ''HUB_SIGNER_NONCE_DIVERGED'')))))))))))"

definition reconcileHubRecovery :: "env \<Rightarrow> recovery_reader \<Rightarrow> int \<Rightarrow> unit task" where
  "reconcileHubRecovery E R confirmations =
     seq (call E (\<lambda>w now. assertHubReady)) (\<lambda>_.
     seq (guard (safe_integer confirmations \<and> 1 \<le> confirmations)
       (HubSafetyError ''HUB_RECOVERY_SETTINGS_INVALID'')) (\<lambda>_.
     seq (gets doc) (audit E R confirmations)))"

section \<open>What the audit guarantees\<close>

lemma collect_terminal_Some:
  "collect_terminal js = Some ts \<Longrightarrow>
     ts = map (\<lambda>j. (j, hd (history_of j))) (filter (\<lambda>j. j_state j = Done \<or> j_state j = Dead) js)
     \<and> (\<forall>j \<in> set js. if j_state j = Done \<or> j_state j = Dead then length (history_of j) = 1 else history_of j = [])"
  by (induction js arbitrary: ts) (auto simp: has_history_def split: if_splits)

lemma collect_terminal_None:
  "j \<in> set js \<Longrightarrow> j_state j = Dead \<Longrightarrow> history_of j = [] \<Longrightarrow> collect_terminal js = None"
  by (induction js) auto

lemma nonces_consecutive_map:
  assumes "nonces_consecutive b ts"
  shows "map (\<lambda>t. h_nonce (snd t)) ts = map (\<lambda>i. b + int i) [0..<length ts]"
proof (rule nth_equalityI)
  fix i assume "i < length (map (\<lambda>t. h_nonce (snd t)) ts)"
  then have i: "i \<in> set [0..<length ts]" by simp
  then have "h_nonce (snd (ts ! i)) = b + int i"
    using assms unfolding nonces_consecutive_def list_all_iff by blast
  with i show "map (\<lambda>t. h_nonce (snd t)) ts ! i = map (\<lambda>i. b + int i) [0..<length ts] ! i" by simp
qed simp

lemma hold_hub_never: "hold_hub E reason w \<noteq> (Inr x, t)"
  by (simp add: hold_hub_def call_def holdHub_def split: prod.splits)
    (simp add: seq_def throw_def split: prod.splits sum.splits)

lemma yields_hold_hub [yields_intro]: "yields k (hold_hub E reason) Q"
  by (simp add: triple_cases hold_hub_never)

lemma yields_require [yields_intro]:
  "(b \<Longrightarrow> yields k (f ()) Q) \<Longrightarrow> yields k (seq (require_hub E b reason) f) Q"
  by (cases b) (simp_all add: require_hub_def triple_cases seq_Inr hold_hub_never)

text \<open>A finished relay as the audit saw it on the hub.\<close>

definition terminal_seen ::
  "recovery_reader \<Rightarrow> string \<Rightarrow> string \<Rightarrow> int \<Rightarrow> int \<Rightarrow> job \<times> relay_entry \<Rightarrow> bool" where
  "terminal_seen R signer asc head confirmations t \<longleftrightarrow> (\<exists>n1 n2 n3 rc b b'. n1 < n2 \<and> n2 < n3
     \<and> rr_receipt R n1 (h_hash (snd t)) = Some rc \<and> receipt_matches signer asc head confirmations (snd t) rc
     \<and> rr_block R n2 (h_blockNumber (snd t)) = Some b \<and> block_is b (h_blockNumber (snd t)) (h_blockHash (snd t))
     \<and> rr_block R n3 (h_blockNumber (snd t)) = Some b' \<and> block_is b' (h_blockNumber (snd t)) (h_blockHash (snd t))
     \<and> (h_status (snd t) = Success \<longrightarrow>
          (\<exists>n. n2 < n \<and> n < n3 \<and> rr_processed R n (the (j_queryId (fst t))) (h_blockNumber (snd t)) = Some True)))"

lemma terminal_seenI:
  "n1 < n2 \<Longrightarrow> n2 < n3 \<Longrightarrow> rr_receipt R n1 (h_hash h) = Some rc \<Longrightarrow> receipt_matches signer asc head conf h rc
    \<Longrightarrow> rr_block R n2 (h_blockNumber h) = Some b \<Longrightarrow> block_is b (h_blockNumber h) (h_blockHash h)
    \<Longrightarrow> rr_block R n3 (h_blockNumber h) = Some b' \<Longrightarrow> block_is b' (h_blockNumber h) (h_blockHash h)
    \<Longrightarrow> (h_status h = Success \<Longrightarrow>
          \<exists>n. n2 < n \<and> n < n3 \<and> rr_processed R n (the (j_queryId j)) (h_blockNumber h) = Some True)
    \<Longrightarrow> terminal_seen R signer asc head conf (j, h)"
  unfolding terminal_seen_def fst_conv snd_conv by blast

lemma check_terminal_yields:
  "yields k (check_terminal E R signer asc head conf ts)
     (\<lambda>_ w. k \<le> w_tick w \<and> (\<forall>t \<in> set ts. terminal_seen R signer asc head conf t))"
proof (induction ts arbitrary: k)
  case Nil
  show ?case unfolding check_terminal.simps by (rule yields_ret) simp
next
  case (Cons t ts)
  obtain j h where t: "t = (j, h)" by force
  let ?Q = "\<lambda>_ w. k \<le> w_tick w \<and> (\<forall>x \<in> set (t # ts). terminal_seen R signer asc head conf x)"
  have rest: "yields (Suc n3) (check_terminal E R signer asc head conf ts) ?Q"
    if "k \<le> n3" "terminal_seen R signer asc head conf t" for n3
    by (rule triple_weaken [OF Cons.IH]) (use that in auto)
  show ?case
  proof (cases "h_status h = Success")
    case True
    show ?thesis
      unfolding t check_terminal.simps if_P [OF True] seq_assoc unfolding t [symmetric]
    proof (intro yields_await yields_require rest)
      fix rc n1 b n2 p n b' n3
      assume "k \<le> n1" "Suc n1 \<le> n2" "Suc n2 \<le> n" "Suc n \<le> n3"
        and r: "rr_receipt R n1 (h_hash h) = Some rc" "receipt_matches signer asc head conf h rc"
          "rr_block R n2 (h_blockNumber h) = Some b" "block_is b (h_blockNumber h) (h_blockHash h)"
          "rr_block R n3 (h_blockNumber h) = Some b'" "block_is b' (h_blockNumber h) (h_blockHash h)"
        and "rr_processed R n (the (j_queryId j)) (h_blockNumber h) = Some p" p
      then have "\<exists>n. n2 < n \<and> n < n3 \<and> rr_processed R n (the (j_queryId j)) (h_blockNumber h) = Some True"
        "n1 < n2" "n2 < n3" by (auto intro!: exI [of _ n])
      with r show "terminal_seen R signer asc head conf t" unfolding t by (blast intro: terminal_seenI)
    qed simp
  next
    case False
    show ?thesis
      unfolding t check_terminal.simps if_not_P [OF False] seq_ret unfolding t [symmetric]
    proof (intro yields_await yields_require rest)
      fix rc n1 b n2 b' n3
      assume "k \<le> n1" "Suc n1 \<le> n2" "Suc n2 \<le> n3"
        and r: "rr_receipt R n1 (h_hash h) = Some rc" "receipt_matches signer asc head conf h rc"
          "rr_block R n2 (h_blockNumber h) = Some b" "block_is b (h_blockNumber h) (h_blockHash h)"
          "rr_block R n3 (h_blockNumber h) = Some b'" "block_is b' (h_blockNumber h) (h_blockHash h)"
      then have "n1 < n2" "n2 < n3" by auto
      with r False show "terminal_seen R signer asc head conf t" unfolding t by (blast intro: terminal_seenI)
    qed simp
  qed
qed

lemma hold_hub_ticks: "keeps (\<lambda>w. k \<le> w_tick w) (hold_hub E reason)"
  unfolding hold_hub_def by (rule ticks)

lemma require_hub_ticks: "keeps (\<lambda>w. k \<le> w_tick w) (require_hub E b reason)"
  unfolding require_hub_def by (intro tick_intro hold_hub_ticks)

lemma check_skipped_ticks: "keeps (\<lambda>w. k \<le> w_tick w) (check_skipped E R head conf js)"
proof (induction js)
  case Nil
  show ?case unfolding check_skipped.simps by (rule tick_intro)
next
  case (Cons j js)
  show ?case unfolding check_skipped.simps Let_def by (intro tick_intro require_hub_ticks Cons)
qed

text \<open>What a normal return of the audit of \<open>d\<close> means.\<close>

definition audited :: "recovery_reader \<Rightarrow> int \<Rightarrow> data \<Rightarrow> world \<Rightarrow> bool" where
  "audited R confirmations d w \<longleftrightarrow> (\<exists>sc baseline ts head.
     scope d = Some sc \<and> hubStartNonce d = Some baseline \<and> (\<exists>n0. rr_head R n0 = Some head)
     \<and> set ts = (\<lambda>j. (j, hd (history_of j))) ` {j \<in> snd ` set (jobs d). j_state j \<in> {Done, Dead}}
     \<and> (\<forall>j \<in> snd ` set (jobs d). length (history_of j) = (if j_state j \<in> {Done, Dead} then 1 else 0))
     \<and> map (\<lambda>t. h_nonce (snd t)) ts = map (\<lambda>i. baseline + int i) [0..<length ts]
     \<and> (\<forall>t \<in> set ts. terminal_seen R (to_lower (scope_signer sc)) (to_lower (scope_asc sc)) head confirmations t)
     \<and> (evidenceIdentity (doc w) = evidenceIdentity d \<longrightarrow> (\<exists>n1 n2 latest pend. n1 < n2
          \<and> rr_count R n1 (to_lower (scope_signer sc)) False = Some latest
          \<and> rr_count R n2 (to_lower (scope_signer sc)) True = Some pend
          \<and> nonce_verdict d (baseline + int (length ts)) latest pend)))"

lemma yields_verdict:
  assumes "\<And>w. P (doc w) \<Longrightarrow> Q w" and "\<And>w. b \<Longrightarrow> Q w"
  shows "yields k (seq (gets doc) (\<lambda>d. if P d then ret () else require_hub E b reason)) (\<lambda>_. Q)"
  using assms by (auto simp: triple_cases require_hub_def hold_hub_never split: if_splits)

lemma audit_yields: "yields k (audit E R conf d) (\<lambda>_. audited R conf d)"
proof (cases "scope d")
  case None
  then show ?thesis by (simp add: audit_def triple_cases)
next
  case (Some sc)
  note sc = Some
  show ?thesis
  proof (cases "hubStartNonce d")
    case None
    then show ?thesis using sc by (simp add: audit_def yields_hold_hub)
  next
    case (Some baseline)
    note bl = Some
    show ?thesis
    proof (cases "collect_terminal (map snd (jobs d))")
      case None
      then show ?thesis
        unfolding audit_def sc bl option.case Let_def by (intro yields_require) (simp add: yields_hold_hub)
    next
      case (Some us)
      define ts where "ts = sort_key (\<lambda>t. h_nonce (snd t)) us"
      note ct = collect_terminal_Some [OF Some]
      have set_ts: "set ts = (\<lambda>j. (j, hd (history_of j))) ` {j \<in> snd ` set (jobs d). j_state j \<in> {Done, Dead}}"
        using ct unfolding ts_def by auto
      have len: "\<forall>j \<in> snd ` set (jobs d). length (history_of j) = (if j_state j \<in> {Done, Dead} then 1 else 0)"
        using ct by (auto split: if_splits)
      show ?thesis
        unfolding audit_def sc bl Some option.case Let_def ts_def [symmetric]
      proof (intro yields_require yields_await yields_guard yields_seq [OF check_terminal_yields]
          yields_any [OF check_skipped_ticks] yields_verdict)
        fix head n0 n1 latest n2 pend w
        assume c: "nonces_consecutive baseline ts" and "rr_head R n0 = Some head" and s: "\<forall>t \<in> set ts. terminal_seen R
            (to_lower (scope_signer sc)) (to_lower (scope_asc sc)) head conf t"
        then have hd: "\<exists>n0. rr_head R n0 = Some head" by blast
        note base = sc bl hd set_ts len nonces_consecutive_map [OF c] s
        show "evidenceIdentity (doc w) \<noteq> evidenceIdentity d \<Longrightarrow> audited R conf d w"
          unfolding audited_def using base by blast
        assume "Suc n1 \<le> n2" "rr_count R n1 (to_lower (scope_signer sc)) False = Some latest"
          "rr_count R n2 (to_lower (scope_signer sc)) True = Some pend"
          "nonce_verdict d (baseline + int (length ts)) latest pend"
        then have "\<exists>n1 n2 latest pend. n1 < n2
          \<and> rr_count R n1 (to_lower (scope_signer sc)) False = Some latest
          \<and> rr_count R n2 (to_lower (scope_signer sc)) True = Some pend
          \<and> nonce_verdict d (baseline + int (length ts)) latest pend" by (meson Suc_le_eq)
        then show "audited R conf d w" unfolding audited_def using base by blast
      qed
    qed
  qed
qed

section \<open>The audit uses the store only through its calls\<close>

lemma hold_hub_keeps [task_intro]:
  "rely ok E \<Longrightarrow> reason \<noteq> [] \<Longrightarrow> keeps (runs_from ok w0) (hold_hub E reason)"
  unfolding hold_hub_def by (intro task_intro)

lemma require_hub_keeps [task_intro]:
  "rely ok E \<Longrightarrow> reason \<noteq> [] \<Longrightarrow> keeps (runs_from ok w0) (require_hub E b reason)"
  unfolding require_hub_def by (intro task_intro)

lemma check_terminal_keeps [task_intro]:
  assumes "rely ok E"
  shows "keeps (runs_from ok w0) (check_terminal E R signer asc head conf ts)"
proof (induction ts)
  case Nil
  show ?case unfolding check_terminal.simps by (rule task_intro)
next
  case (Cons t ts)
  obtain j h where t: "t = (j, h)" by force
  show ?case unfolding t check_terminal.simps by (intro task_intro Cons assms) simp_all
qed

lemma check_skipped_keeps [task_intro]:
  assumes "rely ok E"
  shows "keeps (runs_from ok w0) (check_skipped E R head conf js)"
proof (induction js)
  case Nil
  show ?case unfolding check_skipped.simps by (rule task_intro)
next
  case (Cons j js)
  show ?case unfolding check_skipped.simps Let_def by (intro task_intro Cons assms) simp_all
qed

lemma reconcile_calls:
  assumes "rely ok E"
  shows "calls_only ok (reconcileHubRecovery E R conf)"
  unfolding reconcileHubRecovery_def audit_def Let_def
  by (intro allI task_intro assms) simp_all

lemma initialize_calls:
  assumes "rely ok E"
  shows "calls_only ok (initializeHubRecovery E R)"
  unfolding initializeHubRecovery_def read_counts_def split_def
  by (intro allI task_intro assms) simp_all

lemma assert_hub_call:
  assumes "\<not> truthy (hubHold (doc w))"
  shows "seq (call E (\<lambda>w now. assertHubReady)) f w = f () (w\<lparr>w_tick := Suc (w_tick w)\<rparr>)"
  using assms by (simp add: seq_def call_def assertHubReady_def doc_def)

lemma assert_hub_Inr:
  assumes "seq (call E (\<lambda>w now. assertHubReady)) f w = (Inr x, t)"
  shows "f () (w\<lparr>w_tick := Suc (w_tick w)\<rparr>) = (Inr x, t)"
proof (cases "truthy (hubHold (doc w))")
  case True
  with assms show ?thesis by (simp add: seq_def call_def assertHubReady_def doc_def)
next
  case False
  from assert_hub_call [OF False, of E f] assms show ?thesis by simp
qed

lemma doc_tick [simp]: "doc (w\<lparr>w_tick := n\<rparr>) = doc w"
  by (simp add: doc_def)

lemma initialize_signer_baseline:
  "call E (\<lambda>w now. initializeHubSigner w n) w = (Inr x, t) \<Longrightarrow> hubStartNonce (doc t) = Some n"
  by (auto simp: call_def initializeHubSigner_def commit_Inr doc_def split: prod.splits if_splits option.splits)

section \<open>A concrete audit\<close>

definition sample_scope :: worker_scope where
  "sample_scope = \<lparr>sourceChainId = 11155111, hubChainId = 102031, chainKey = 1, scope_source = ''0xab'',
     scope_asc = ''0x01'', scope_signer = ''0x02'', startBlock = 10\<rparr>"

definition sample_recovery :: recovery_reader where
  "sample_recovery = \<lparr>rr_count = (\<lambda>_ _ _. Some 1), rr_head = (\<lambda>_. Some 50),
     rr_block = (\<lambda>_ h. Some (Some \<lparr>b_number = h, b_hash = Some (sample_hash CHR ''9'')\<rparr>)),
     rr_receipt = (\<lambda>_ h. Some (Some \<lparr>er_hash = h, er_from = ''0x02'', er_to = Some ''0x01'',
       er_status = Some 1, er_blockNumber = 7, er_blockHash = sample_hash CHR ''9''\<rparr>)),
     rr_processed = (\<lambda>_ _ _. Some True)\<rparr>"

text \<open>A store after one finished relay, with its scope and baseline.\<close>

definition sample_done_job :: job where
  "sample_done_job = sample_job\<lparr>j_txHash := ''0xa'', j_state := Done, j_ascTxHash := Some ''0xd'', j_queryId := Some ''0xc'',
     j_relayHistory := Some [\<lparr>h_hash = ''0xd'', h_nonce = 0, h_status = Success, h_blockNumber = 7,
       h_blockHash = sample_hash CHR ''9''\<rparr>]\<rparr>"

definition sample_audit_world :: world where
  "sample_audit_world = \<lparr>w_store = \<lparr>mem = empty_data\<lparr>scope := Some sample_scope, hubStartNonce := Some 0,
       jobs := [(''0xa'', sample_done_job)]\<rparr>, disk = None\<rparr>, w_tick = 0, w_active = False, w_stop = False, w_sent = []\<rparr>"

section \<open>Properties\<close>

text \<open>The finished jobs with their one recorded transaction.\<close>

definition finished :: "data \<Rightarrow> (job \<times> relay_entry) set" where
  "finished d = {(j, h). j \<in> snd ` set (jobs d) \<and> j_state j \<in> {Done, Dead} \<and> history_of j = [h]}"

lemma audited_finished:
  assumes "set ts = (\<lambda>j. (j, hd (history_of j))) ` {j \<in> snd ` set (jobs d). j_state j \<in> {Done, Dead}}"
    and "\<forall>j \<in> snd ` set (jobs d). length (history_of j) = (if j_state j \<in> {Done, Dead} then 1 else 0)"
  shows "finished d = set ts"
proof -
  have "history_of j = [h] \<longleftrightarrow> h = hd (history_of j)" if "j \<in> snd ` set (jobs d)" "j_state j \<in> {Done, Dead}" for j h
    using assms(2) that by (cases "history_of j") auto
  then show ?thesis unfolding assms(1) finished_def by auto
qed

lemma consecutive_unique:
  assumes "map f ts = map (\<lambda>i. b + int i) [0..<length ts]"
  shows "b \<le> n \<and> n < b + int (length ts) \<longleftrightarrow> (\<exists>t \<in> set ts. f t = n)" "t \<in> set ts \<Longrightarrow> u \<in> set ts \<Longrightarrow> f t = f u \<Longrightarrow> t = u"
proof -
  have at: "f (ts ! i) = b + int i" if "i < length ts" for i
    using arg_cong [OF assms, of "\<lambda>xs. xs ! i"] that by simp
  show "b \<le> n \<and> n < b + int (length ts) \<longleftrightarrow> (\<exists>t \<in> set ts. f t = n)"
  proof
    assume n: "b \<le> n \<and> n < b + int (length ts)"
    then have "nat (n - b) < length ts" by linarith
    with at [OF this] n show "\<exists>t \<in> set ts. f t = n" by (intro bexI [of _ "ts ! nat (n - b)"]) simp_all
  next
    assume "\<exists>t \<in> set ts. f t = n"
    then obtain i where "i < length ts" "f (ts ! i) = n" by (auto simp: in_set_conv_nth)
    with at [of i] show "b \<le> n \<and> n < b + int (length ts)" by simp
  qed
  assume "t \<in> set ts" "u \<in> set ts" "f t = f u"
  then obtain i j where ij: "i < length ts" "j < length ts" "t = ts ! i" "u = ts ! j" "f (ts ! i) = f (ts ! j)" by (auto simp: in_set_conv_nth)
  from ij(5) have "i = j" unfolding at [OF ij(1)] at [OF ij(2)] by simp
  with ij(3,4) show "t = u" by simp
qed

lemma verdict_covers:
  assumes m: "map (\<lambda>t. h_nonce (snd t)) ts = map (\<lambda>i. baseline + int i) [0..<length ts]"
    and v: "nonce_verdict d (baseline + int (length ts)) latest pend"
  shows "(\<forall>n. baseline \<le> n \<and> n < max latest pend \<longrightarrow> (\<exists>!t. t \<in> set ts \<and> h_nonce (snd t) = n)
        \<or> (\<exists>r. d_relay d = Some r \<and> r_nonce r = n)) \<and> (\<forall>t \<in> set ts. h_nonce (snd t) < latest \<and> h_nonce (snd t) < pend)"
proof (intro conjI allI impI ballI)
  note cons = consecutive_unique [OF m]
  fix n assume n: "baseline \<le> n \<and> n < max latest pend"
  show "(\<exists>!t. t \<in> set ts \<and> h_nonce (snd t) = n) \<or> (\<exists>r. d_relay d = Some r \<and> r_nonce r = n)"
  proof (cases "n < baseline + int (length ts)")
    case True
    with n cons show ?thesis by blast
  next
    case False
    with n v show ?thesis by (auto simp: nonce_verdict_def split: option.splits)
  qed
next
  fix t assume "t \<in> set ts"
  then have "h_nonce (snd t) < baseline + int (length ts)" using consecutive_unique(1) [OF m] by blast
  with v show "h_nonce (snd t) < latest" "h_nonce (snd t) < pend" by (auto simp: nonce_verdict_def split: option.splits)
qed

text \<open>C21. When the audit returns, the recorded history of the signer is sound, whatever other tasks did meanwhile: the
  finished jobs have exactly one recorded transaction each and no other job has any, no two of them have the same nonce, and
  each was seen on the hub with its recorded outcome at its recorded block, deep enough and canonical before and after.
  If the evidence in the store did not change during the audit, the chain's nonces are accounted for as well: every nonce
  from the baseline up to the counts that were read is the nonce of exactly one of these transactions, or the nonce of the
  one open relay, and every one of these transactions is below the counts. Otherwise the counts are not judged.\<close>

theorem audit_accounts_for_nonces:
  assumes "reconcileHubRecovery E R confirmations w = (Inr (), w')"
  shows "\<exists>sc baseline n0 head. scope (doc w) = Some sc \<and> hubStartNonce (doc w) = Some baseline \<and> rr_head R n0 = Some head
    \<and> (\<forall>j \<in> snd ` set (jobs (doc w)). length (history_of j) = (if j_state j \<in> {Done, Dead} then 1 else 0))
    \<and> inj_on (\<lambda>t. h_nonce (snd t)) (finished (doc w))
    \<and> (\<forall>t \<in> finished (doc w). baseline \<le> h_nonce (snd t)
        \<and> terminal_seen R (to_lower (scope_signer sc)) (to_lower (scope_asc sc)) head confirmations t)
    \<and> (evidenceIdentity (doc w') = evidenceIdentity (doc w) \<longrightarrow> (\<exists>n1 n2 latest pend. n1 < n2
        \<and> rr_count R n1 (to_lower (scope_signer sc)) False = Some latest \<and> rr_count R n2 (to_lower (scope_signer sc)) True = Some pend
        \<and> (\<forall>n. baseline \<le> n \<and> n < max latest pend \<longrightarrow>
            (\<exists>!t. t \<in> finished (doc w) \<and> h_nonce (snd t) = n) \<or> (\<exists>r. d_relay (doc w) = Some r \<and> r_nonce r = n))
        \<and> (\<forall>t \<in> finished (doc w). h_nonce (snd t) < latest \<and> h_nonce (snd t) < pend)))"
proof -
  note body = assert_hub_Inr [OF assms [unfolded reconcileHubRecovery_def]]
  have "audit E R confirmations (doc w) (w\<lparr>w_tick := Suc (w_tick w)\<rparr>) = (Inr (), w')"
    using body unfolding io_run io_run_guard doc_tick by (cases "safe_integer confirmations \<and> 1 \<le> confirmations") simp_all
  from tripleD_Inr [OF audit_yields [of 0] _ this] have "audited R confirmations (doc w) w'" by simp
  then obtain sc baseline ts n0 head where hd: "rr_head R n0 = Some head" and a: "scope (doc w) = Some sc" "hubStartNonce (doc w) = Some baseline"
    "set ts = (\<lambda>j. (j, hd (history_of j))) ` {j \<in> snd ` set (jobs (doc w)). j_state j \<in> {Done, Dead}}"
    "\<forall>j \<in> snd ` set (jobs (doc w)). length (history_of j) = (if j_state j \<in> {Done, Dead} then 1 else 0)"
    "map (\<lambda>t. h_nonce (snd t)) ts = map (\<lambda>i. baseline + int i) [0..<length ts]"
    "\<forall>t \<in> set ts. terminal_seen R (to_lower (scope_signer sc)) (to_lower (scope_asc sc)) head confirmations t"
    "evidenceIdentity (doc w') = evidenceIdentity (doc w) \<longrightarrow> (\<exists>n1 n2 latest pend. n1 < n2
          \<and> rr_count R n1 (to_lower (scope_signer sc)) False = Some latest
          \<and> rr_count R n2 (to_lower (scope_signer sc)) True = Some pend
          \<and> nonce_verdict (doc w) (baseline + int (length ts)) latest pend)"
    unfolding audited_def by (elim exE conjE) (rule that; assumption)
  note fin = audited_finished [OF a(3,4)]
  note cons = consecutive_unique [OF a(5)]
  note verdict = verdict_covers [OF a(5)]
  have "inj_on (\<lambda>t. h_nonce (snd t)) (set ts)" "\<forall>t \<in> set ts. baseline \<le> h_nonce (snd t)"
    using cons by (auto intro!: inj_onI)
  moreover have "evidenceIdentity (doc w') = evidenceIdentity (doc w) \<longrightarrow> (\<exists>n1 n2 latest pend. n1 < n2
        \<and> rr_count R n1 (to_lower (scope_signer sc)) False = Some latest \<and> rr_count R n2 (to_lower (scope_signer sc)) True = Some pend
        \<and> (\<forall>n. baseline \<le> n \<and> n < max latest pend \<longrightarrow> (\<exists>!t. t \<in> set ts \<and> h_nonce (snd t) = n) \<or> (\<exists>r. d_relay (doc w) = Some r \<and> r_nonce r = n))
        \<and> (\<forall>t \<in> set ts. h_nonce (snd t) < latest \<and> h_nonce (snd t) < pend))"
    using a(7) verdict by blast
  ultimately show ?thesis unfolding fin using a(1,2,4,6) hd
    by (intro exI [of _ sc] exI [of _ baseline] exI [of _ n0] exI [of _ head]) simp
qed

theorem audit_accounts_for_nonces_witness:
  "fst (reconcileHubRecovery quiet_env sample_recovery 6 sample_audit_world) = Inr ()
    \<and> (\<exists>!t. t \<in> finished (doc sample_audit_world) \<and> h_nonce (snd t) = 0)"
proof -
  have lower: "to_lower ''0x01'' = ''0x01''" "to_lower ''0x02'' = ''0x02''" "is_hash (sample_hash CHR ''9'')"
    by code_simp+
  have "\<exists>k. reconcileHubRecovery quiet_env sample_recovery 6 sample_audit_world = (Inr (), sample_audit_world\<lparr>w_tick := k\<rparr>)"
    by (simp add: reconcileHubRecovery_def assert_hub_call audit_def require_hub_def await_quiet seq_assoc Let_def lower
        sample_audit_world_def doc_def empty_data_def sample_scope_def sample_done_job_def sample_job_def
        history_of_def truthy_def nonces_consecutive_def receipt_matches_def block_is_def nonce_verdict_def
        sample_recovery_def integer_min_def safe_integer_def)
  then obtain k where run: "reconcileHubRecovery quiet_env sample_recovery 6 sample_audit_world = (Inr (), sample_audit_world\<lparr>w_tick := k\<rparr>)" by blast
  have "rr_count sample_recovery n s p = Some 1" "hubStartNonce (doc sample_audit_world) = Some 0" "d_relay (doc sample_audit_world) = None" for n s p
    by (simp_all add: sample_recovery_def sample_audit_world_def doc_def empty_data_def)
  then have "\<exists>!t. t \<in> finished (doc sample_audit_world) \<and> h_nonce (snd t) = 0"
    using audit_accounts_for_nonces [OF run] by auto
  with run show ?thesis by simp
qed

text \<open>C38. A job that failed permanently without ever being signed stops the whole worker: the audit
  demands one recorded transaction of every dead job, so it puts the hub on hold.\<close>

theorem unsigned_dead_job_holds_hub:
  assumes "obj_get (jobs (doc w)) h = Some j" and "j_state j = Dead" and "history_of j = []"
    and "scope (doc w) = Some sc" and "hubStartNonce (doc w) = Some b" and "integer0 b"
    and "\<not> truthy (hubHold (doc w))" and "safe_integer confirmations" and "1 \<le> confirmations"
  shows "\<exists>w'. reconcileHubRecovery quiet_env R confirmations w
      = (Inl (HubSafetyError ''HUB_TERMINAL_HISTORY_REQUIRES_RECONCILIATION''), w')
    \<and> hubHold (doc w') = Some ''HUB_TERMINAL_HISTORY_REQUIRES_RECONCILIATION''"
proof -
  have "j \<in> set (map snd (jobs (doc w)))" using assms(1) map_of_SomeD by force
  then have "collect_terminal (map snd (jobs (doc w))) = None" using assms(2,3) collect_terminal_None by blast
  then show ?thesis
    using assms(4-9)
    by (simp add: reconcileHubRecovery_def assert_hub_call audit_def require_hub_def hold_hub_def)
      (simp add: call_def holdHub_def seq_def commit_Written quiet_env_def doc_def)
qed

definition sample_dead_world :: world where
  "sample_dead_world = \<lparr>w_store = (sample2\<lparr>mem := (mem sample2)\<lparr>scope := Some sample_scope, hubStartNonce := Some 0,
       jobs := obj_put (sample_hash CHR ''a'') (sample_job\<lparr>j_state := Dead, j_attempts := 8\<rparr>) (jobs (mem sample2))\<rparr>\<rparr>),
     w_tick = 0, w_active = False, w_stop = False, w_sent = []\<rparr>"

theorem unsigned_dead_job_holds_hub_witness:
  "\<exists>w'. reconcileHubRecovery quiet_env sample_recovery 6 sample_dead_world
      = (Inl (HubSafetyError ''HUB_TERMINAL_HISTORY_REQUIRES_RECONCILIATION''), w')
    \<and> hubHold (doc w') = Some ''HUB_TERMINAL_HISTORY_REQUIRES_RECONCILIATION''"
proof (rule unsigned_dead_job_holds_hub [where b = 0 and sc = sample_scope])
  show "obj_get (jobs (doc sample_dead_world)) (sample_hash CHR ''a'') = Some (sample_job\<lparr>j_state := Dead, j_attempts := 8\<rparr>)"
    by (simp add: doc_def sample_dead_world_def obj_simps)
  show "\<not> truthy (hubHold (doc sample_dead_world))" by code_simp
qed (simp_all add: doc_def sample_dead_world_def sample_job_def history_of_def integer_min_def safe_integer_def)

text \<open>Initialisation succeeds only for a fresh signer: it then sets the baseline to zero, and before
  it did no job had been signed and both nonce counts were read as zero.\<close>

theorem initialize_only_fresh_signer:
  assumes "initializeHubRecovery E R w = (Inr (), w')"
  shows "hubStartNonce (doc w') = Some 0 \<and> hubStartNonce (doc w) = None \<and> d_relay (doc w) = None
    \<and> (\<forall>j \<in> snd ` set (jobs (doc w)). \<not> truthy (j_ascTxHash j) \<and> history_of j = [] \<and> j_state j \<notin> {Submitted, Done, Dead})
    \<and> (\<exists>sc n1 n2. scope (doc w) = Some sc \<and> n1 < n2 \<and> rr_count R n1 (scope_signer sc) False = Some 0
         \<and> rr_count R n2 (scope_signer sc) True = Some 0)"
proof -
  let ?bad = "\<lambda>d. scope d = None \<or> hubStartNonce d \<noteq> None \<or> d_relay d \<noteq> None
            \<or> list_ex (\<lambda>j. truthy (j_ascTxHash j) \<or> has_history j \<or> j_state j \<in> {Submitted, Done, Dead})
                (map snd (jobs d))"
  note body = assert_hub_Inr [OF assms [unfolded initializeHubRecovery_def], unfolded io_run doc_tick]
  have fresh: "\<not> ?bad (doc w)"
  proof
    assume bad: "?bad (doc w)"
    from body [unfolded if_P [OF bad]] show False by (simp add: seq_Inr hold_hub_never)
  qed
  let ?sg = "scope_signer (the (scope (doc w)))"
  let ?rest = "seq (read_counts E R ?sg) (\<lambda>(latest, pend).
     seq (guard (integer0 latest \<and> integer0 pend) (HubSafetyError ''HUB_RECOVERY_OBSERVATION_UNAVAILABLE'')) (\<lambda>_.
     seq (if latest \<noteq> 0 \<or> pend \<noteq> 0
          then hold_hub E ''HUB_SIGNER_BASELINE_REQUIRES_RECONCILIATION'' else ret ()) (\<lambda>_.
     call E (\<lambda>w now. initializeHubSigner w 0))))"
  have run: "?rest (w\<lparr>w_tick := Suc (w_tick w)\<rparr>) = (Inr (), w')"
    using body [unfolded if_not_P [OF fresh] seq_ret] .
  have "yields 0 ?rest (\<lambda>_ t. hubStartNonce (doc t) = Some 0 \<and> (\<exists>n1 n2. n1 < n2
      \<and> rr_count R n1 ?sg False = Some 0 \<and> rr_count R n2 ?sg True = Some 0))"
    unfolding read_counts_def seq_assoc seq_ret split_conv
  proof (intro yields_await yields_guard)
    fix latest n1 pend n2
    assume n: "Suc n1 \<le> n2" "rr_count R n1 ?sg False = Some latest" "rr_count R n2 ?sg True = Some pend"
    show "yields (Suc n2) (seq (if latest \<noteq> 0 \<or> pend \<noteq> 0 then hold_hub E ''HUB_SIGNER_BASELINE_REQUIRES_RECONCILIATION''
          else ret ()) (\<lambda>_. call E (\<lambda>w now. initializeHubSigner w 0)))
        (\<lambda>_ t. hubStartNonce (doc t) = Some 0 \<and> (\<exists>n1 n2. n1 < n2
          \<and> rr_count R n1 ?sg False = Some 0 \<and> rr_count R n2 ?sg True = Some 0))"
    proof (cases "latest \<noteq> 0 \<or> pend \<noteq> 0")
      case True
      then show ?thesis by (simp add: triple_cases seq_Inr hold_hub_never)
    next
      case False
      then have "\<exists>n1 n2. n1 < n2 \<and> rr_count R n1 ?sg False = Some 0 \<and> rr_count R n2 ?sg True = Some 0"
        using n by (metis Suc_le_eq)
      then have "yields (Suc n2) (call E (\<lambda>w now. initializeHubSigner w 0))
        (\<lambda>_ t. hubStartNonce (doc t) = Some 0 \<and> (\<exists>n1 n2. n1 < n2
          \<and> rr_count R n1 ?sg False = Some 0 \<and> rr_count R n2 ?sg True = Some 0))"
        by (auto simp: triple_cases initialize_signer_baseline)
      with False show ?thesis by simp
    qed
  qed
  from tripleD_Inr [OF this _ run] obtain n1 n2 where c: "hubStartNonce (doc w') = Some 0" "n1 < n2"
    "rr_count R n1 ?sg False = Some 0" "rr_count R n2 ?sg True = Some 0" by auto
  obtain sc where "scope (doc w) = Some sc" using fresh by auto
  with c have "\<exists>sc n1 n2. scope (doc w) = Some sc \<and> n1 < n2 \<and> rr_count R n1 (scope_signer sc) False = Some 0
      \<and> rr_count R n2 (scope_signer sc) True = Some 0" by (metis option.sel)
  with c(1) fresh show ?thesis by (auto simp: list_ex_iff has_history_def)
qed

definition sample_fresh_world :: world where
  "sample_fresh_world = \<lparr>w_store = sample2\<lparr>mem := (mem sample2)\<lparr>scope := Some sample_scope\<rparr>\<rparr>,
     w_tick = 0, w_active = False, w_stop = False, w_sent = []\<rparr>"

theorem initialize_only_fresh_signer_witness:
  "hubStartNonce (doc (snd (initializeHubRecovery quiet_env (sample_recovery\<lparr>rr_count := (\<lambda>_ _ _. Some 0)\<rparr>)
     sample_fresh_world))) = Some 0"
proof -
  let ?R = "sample_recovery\<lparr>rr_count := (\<lambda>_ _ _. Some 0)\<rparr>"
  have "fst (initializeHubRecovery quiet_env ?R sample_fresh_world) = Inr ()" by code_simp
  then have "initializeHubRecovery quiet_env ?R sample_fresh_world =
      (Inr (), snd (initializeHubRecovery quiet_env ?R sample_fresh_world))" by (simp add: prod_eq_iff)
  from initialize_only_fresh_signer [OF this] show ?thesis by simp
qed

end
