(* ===== verification/Attrs.thy ===== *)
theory Attrs
  imports Prelude
begin

text \<open>
  The packed scalar word of a mark (\<^verbatim>\<open>pipeline/attrs.ts\<close>), the method bitmap
  (\<^verbatim>\<open>pipeline/methods.ts\<close>) and the consumer policy schema (\<^verbatim>\<open>pipeline/policy.ts\<close>).
  A \<^verbatim>\<open>BigInt\<close> is an \<^typ>\<open>int\<close>; the 32-bit \<^verbatim>\<open>&\<close> of JavaScript works on \<^typ>\<open>32 word\<close>.
\<close>

section \<open>Hexadecimal text of a 32-byte word\<close>

definition hex_char :: "nat \<Rightarrow> char" where
  "hex_char d = ''0123456789abcdef'' ! d"

definition hex_val :: "char \<Rightarrow> nat" where
  "hex_val c = (let n = of_char (lower_char c) in if n \<le> 57 then n - 48 else n - 87)"

fun hex_digits :: "nat \<Rightarrow> nat \<Rightarrow> string" where
  "hex_digits 0 v = []"
| "hex_digits (Suc n) v = hex_digits n (v div 16) @ [hex_char (v mod 16)]"

text \<open>\<^verbatim>\<open>ethers.zeroPadValue(ethers.toBeHex(v), 32)\<close> of a value below \<open>2 ^ 256\<close>, and
  \<^verbatim>\<open>BigInt(s)\<close> of a \<^verbatim>\<open>0x\<close> string.\<close>

definition bytes32_of :: "int \<Rightarrow> string" where
  "bytes32_of v = ''0x'' @ hex_digits 64 (nat v)"

definition bigint_of :: "string \<Rightarrow> int" where
  "bigint_of s = int (foldl (\<lambda>a c. a * 16 + hex_val c) 0 (drop 2 s))"

section \<open>Packing\<close>

record mark_attrs =
  kind :: int
  assurance :: int
  regime :: int
  jurisdiction :: int
  methods :: int
  issuedAt :: int
  expiry :: int
  epoch :: int

datatype attrs_error = NotSafeInteger string | OutOfRange string | NotBytes32

text \<open>\<^verbatim>\<open>LIMITS\<close>, with the field it bounds, in the order of its keys.\<close>

definition attr_limits :: "mark_attrs \<Rightarrow> (string \<times> int \<times> int) list" where
  "attr_limits a =
     [(''kind'', kind a, 0xff), (''assurance'', assurance a, 0xff), (''regime'', regime a, 0xffff),
      (''jurisdiction'', jurisdiction a, 0xffff), (''methods'', methods a, 0xffffffff),
      (''issuedAt'', issuedAt a, 0xffffffffff), (''expiry'', expiry a, 0xffffffffff),
      (''epoch'', epoch a, 0xffffffff)]"

fun check_limits :: "(string \<times> int \<times> int) list \<Rightarrow> attrs_error option" where
  "check_limits [] = None"
| "check_limits ((k, v, mx) # r) =
     (if \<not> safe_integer v then Some (NotSafeInteger k)
      else if v < 0 \<or> v > mx then Some (OutOfRange k)
      else check_limits r)"

definition packed_word :: "mark_attrs \<Rightarrow> int" where
  "packed_word a =
     push_bit 248 (kind a) OR push_bit 240 (assurance a) OR push_bit 224 (regime a) OR
     push_bit 208 (jurisdiction a) OR push_bit 176 (methods a) OR push_bit 136 (issuedAt a) OR
     push_bit 96 (expiry a) OR push_bit 64 (epoch a)"

definition packAttrs :: "mark_attrs \<Rightarrow> attrs_error + string" where
  "packAttrs a =
     (case check_limits (attr_limits a) of Some e \<Rightarrow> Inl e | None \<Rightarrow> Inr (bytes32_of (packed_word a)))"

definition attr_at :: "int \<Rightarrow> nat \<Rightarrow> int \<Rightarrow> int" where
  "attr_at v shift msk = drop_bit shift v AND msk"

definition unpacked_word :: "int \<Rightarrow> mark_attrs" where
  "unpacked_word v =
     \<lparr>kind = attr_at v 248 0xff, assurance = attr_at v 240 0xff, regime = attr_at v 224 0xffff,
      jurisdiction = attr_at v 208 0xffff, methods = attr_at v 176 0xffffffff,
      issuedAt = attr_at v 136 0xffffffffff, expiry = attr_at v 96 0xffffffffff,
      epoch = attr_at v 64 0xffffffff\<rparr>"

definition unpackAttrs :: "string \<Rightarrow> attrs_error + mark_attrs" where
  "unpackAttrs s = (if is_hash s then Inr (unpacked_word (bigint_of s)) else Inl NotBytes32)"

section \<open>Wire schema\<close>

definition SUPPORTED_METHODS :: int where
  "SUPPORTED_METHODS = 0x001f07ff"

definition and32 :: "int \<Rightarrow> int \<Rightarrow> 32 word" where
  "and32 a b = word_of_int a AND word_of_int b"

definition unsupported32 :: "int \<Rightarrow> 32 word" where
  "unsupported32 m = word_of_int m AND NOT (word_of_int SUPPORTED_METHODS)"

definition validCredentialAttrs :: "string \<Rightarrow> int option \<Rightarrow> bool" where
  "validCredentialAttrs s now =
     (if \<not> is_hash s then False
      else let a = unpacked_word (bigint_of s) in
        bigint_of s AND 0xffffffffffffffff = 0
        \<and> (kind a = 1 \<or> kind a = 2) \<and> assurance a \<ge> 1 \<and> assurance a \<le> 5
        \<and> (regime a = 1 \<or> regime a = 2) \<and> jurisdiction a \<ge> 1 \<and> jurisdiction a \<le> 999
        \<and> unsupported32 (methods a) = 0 \<and> issuedAt a > 0 \<and> expiry a > issuedAt a
        \<and> (case now of None \<Rightarrow> True
           | Some t \<Rightarrow> safe_integer t \<and> t \<ge> 0 \<and> issuedAt a \<le> t \<and> expiry a > t))"

section \<open>Methods\<close>

definition Methods :: "(string \<times> nat) list" where
  "Methods =
     [(''WALLET_CONTROL'', 0), (''ID_DOC_IMAGE'', 1), (''ID_DOC_AUTHENTICITY'', 2), (''FACE_MATCH'', 3),
      (''LIVENESS'', 4), (''BANK_ACCOUNT'', 5), (''MOBILE_CARRIER'', 6), (''VIDEO_CALL'', 7),
      (''IN_PERSON'', 8), (''EPASSPORT_NFC'', 9), (''GOV_EID'', 10), (''SANCTIONS_SCREENED'', 16),
      (''PEP_SCREENED'', 17), (''ADVERSE_MEDIA'', 18), (''JURISDICTION_CHECK'', 19),
      (''ONCHAIN_EXPOSURE'', 20)]"

definition method_bit :: "nat \<Rightarrow> int" where
  "method_bit n = push_bit n 1"

definition describeMethods :: "int \<Rightarrow> string list" where
  "describeMethods m = map fst (filter (\<lambda>(k, n). and32 m (method_bit n) \<noteq> 0) Methods)"

section \<open>Consumer policies\<close>

record policy_input =
  requireAll :: int
  minAssurance :: int
  maxAge :: int
  requiredRegime :: int
  requiredJurisdiction :: int
  trustedIssuer :: string
  requireRoster :: bool

text \<open>\<open>isAddress\<close> is \<^verbatim>\<open>ethers.isAddress\<close>. The model's record is typed, so the test
  that \<^verbatim>\<open>requireRoster\<close> is a boolean holds by construction.\<close>

definition validatePolicy :: "(string \<Rightarrow> bool) \<Rightarrow> policy_input \<Rightarrow> int \<Rightarrow> bool" where
  "validatePolicy isAddress p k =
     (let ranges = [(requireAll p, 0xffffffff), (minAssurance p, 5), (maxAge p, 0xffffffffff),
                    (requiredRegime p, 2), (requiredJurisdiction p, 999)] in
      \<not> (k \<noteq> 1 \<and> k \<noteq> 2
         \<or> list_ex (\<lambda>(v, mx). \<not> safe_integer v \<or> v < 0 \<or> v > mx) ranges
         \<or> unsupported32 (requireAll p) \<noteq> 0 \<or> \<not> isAddress (trustedIssuer p)))"

datatype policy_warning =
    NoMethod | NoAssuranceMinimum | ExposureNotSupported | NoAgeCeiling | AnyRegime | AnyJurisdiction
  | AnyIssuer | DirectProofOnly | RosterTrust

definition zeroAddress :: string where
  "zeroAddress = ''0x0000000000000000000000000000000000000000''"

definition policyWarnings :: "(string \<Rightarrow> bool) \<Rightarrow> policy_input \<Rightarrow> int \<Rightarrow> unit + policy_warning list" where
  "policyWarnings isAddress p k =
     (if \<not> validatePolicy isAddress p k then Inl ()
      else Inr (
        (if requireAll p = 0 then [NoMethod] else []) @
        (if minAssurance p = 0 then [NoAssuranceMinimum] else []) @
        (if and32 (requireAll p) (method_bit 20) \<noteq> 0 then [ExposureNotSupported] else []) @
        (if maxAge p = 0 then [NoAgeCeiling] else []) @
        (if requiredRegime p = 0 then [AnyRegime] else []) @
        (if requiredJurisdiction p = 0 then [AnyJurisdiction] else []) @
        (if to_lower (trustedIssuer p) = zeroAddress then [AnyIssuer] else []) @
        (if \<not> requireRoster p then [DirectProofOnly] else [RosterTrust])))"

section \<open>Lemmas\<close>

lemma length_hex_digits [simp]: "length (hex_digits n v) = n"
  by (induction n arbitrary: v) auto

lemma hex_char_digit:
  assumes "d < 16"
  shows "lower_hex_digit (hex_char d)" and "hex_val (hex_char d) = d"
proof -
  have "\<forall>d < 16. lower_hex_digit (hex_char d) \<and> hex_val (hex_char d) = d" by code_simp
  then show "lower_hex_digit (hex_char d)" and "hex_val (hex_char d) = d" using assms by auto
qed

lemma hex_digits_lower: "list_all lower_hex_digit (hex_digits n v)"
  by (induction n arbitrary: v) (auto simp: hex_char_digit)

lemma hex_digits_value: "foldl (\<lambda>a c. a * 16 + hex_val c) 0 (hex_digits n v) = v mod 16 ^ n"
proof (induction n arbitrary: v)
  case 0
  then show ?case by simp
next
  case (Suc n)
  have "v mod (16 * 16 ^ n) = 16 * (v div 16 mod 16 ^ n) + v mod 16"
    by (rule mod_mult2_eq)
  with Suc show ?case by (simp add: hex_char_digit)
qed

lemma bytes32_of_hash: "is_lower_hex 64 (bytes32_of v)"
  by (simp add: bytes32_of_def is_lower_hex_def hex_digits_lower)

lemma bigint_bytes32:
  assumes "0 \<le> v" and "v < 2 ^ 256"
  shows "bigint_of (bytes32_of v) = v"
proof -
  have "nat v < 16 ^ 64" using assms by (simp add: nat_less_iff)
  then show ?thesis
    using assms(1) by (simp add: bigint_of_def bytes32_of_def hex_digits_value)
qed

definition attrs_in_range :: "mark_attrs \<Rightarrow> bool" where
  "attrs_in_range a \<longleftrightarrow>
     0 \<le> kind a \<and> kind a < 2 ^ 8 \<and> 0 \<le> assurance a \<and> assurance a < 2 ^ 8 \<and>
     0 \<le> regime a \<and> regime a < 2 ^ 16 \<and> 0 \<le> jurisdiction a \<and> jurisdiction a < 2 ^ 16 \<and>
     0 \<le> methods a \<and> methods a < 2 ^ 32 \<and> 0 \<le> issuedAt a \<and> issuedAt a < 2 ^ 40 \<and>
     0 \<le> expiry a \<and> expiry a < 2 ^ 40 \<and> 0 \<le> epoch a \<and> epoch a < 2 ^ 32"

lemma check_limits_None:
  "check_limits (attr_limits a) = None \<longleftrightarrow> attrs_in_range a"
  by (auto simp: attr_limits_def attrs_in_range_def safe_integer_def)

lemma bit_in_range: "0 \<le> (f::int) \<Longrightarrow> f < 2 ^ w \<Longrightarrow> bit f j \<Longrightarrow> j < w"
  by (metis bit_take_bit_iff take_bit_int_eq_self_iff)

lemma attr_at_bit: "bit (attr_at v s (2 ^ w - 1)) i \<longleftrightarrow> i < w \<and> bit v (s + i)"
proof -
  have "attr_at v s (2 ^ w - 1) = take_bit w (drop_bit s v)"
    by (simp add: attr_at_def take_bit_eq_mask mask_eq_exp_minus_1)
  then show ?thesis by (simp add: bit_take_bit_iff bit_drop_bit_eq)
qed

lemma attr_at_numerals:
  "attr_at v s 0xff = attr_at v s (2 ^ 8 - 1)" "attr_at v s 0xffff = attr_at v s (2 ^ 16 - 1)"
  "attr_at v s 0xffffffff = attr_at v s (2 ^ 32 - 1)"
  "attr_at v s 0xffffffffff = attr_at v s (2 ^ 40 - 1)"
  by simp_all

lemma packed_word_bit:
  "bit (packed_word a) n \<longleftrightarrow>
     248 \<le> n \<and> bit (kind a) (n - 248) \<or> 240 \<le> n \<and> bit (assurance a) (n - 240) \<or>
     224 \<le> n \<and> bit (regime a) (n - 224) \<or> 208 \<le> n \<and> bit (jurisdiction a) (n - 208) \<or>
     176 \<le> n \<and> bit (methods a) (n - 176) \<or> 136 \<le> n \<and> bit (issuedAt a) (n - 136) \<or>
     96 \<le> n \<and> bit (expiry a) (n - 96) \<or> 64 \<le> n \<and> bit (epoch a) (n - 64)"
  by (simp add: packed_word_def bit_or_iff bit_push_bit_iff)

lemma attrs_bits:
  assumes "attrs_in_range a"
  shows "bit (kind a) j \<Longrightarrow> j < 8" "bit (assurance a) j \<Longrightarrow> j < 8" "bit (regime a) j \<Longrightarrow> j < 16"
    "bit (jurisdiction a) j \<Longrightarrow> j < 16" "bit (methods a) j \<Longrightarrow> j < 32" "bit (issuedAt a) j \<Longrightarrow> j < 40"
    "bit (expiry a) j \<Longrightarrow> j < 40" "bit (epoch a) j \<Longrightarrow> j < 32"
  using assms unfolding attrs_in_range_def by (auto intro: bit_in_range)

lemma attr_at_eqI:
  assumes "0 \<le> f" and "f < 2 ^ w" and "\<And>i. i < w \<Longrightarrow> bit v (s + i) = bit f i"
  shows "attr_at v s (2 ^ w - 1) = f"
  by (rule bit_eqI) (use assms bit_in_range in \<open>auto simp: attr_at_bit\<close>)

lemma attrs_no_bits:
  assumes "attrs_in_range a"
  shows "8 \<le> j \<Longrightarrow> \<not> bit (kind a) j" "8 \<le> j \<Longrightarrow> \<not> bit (assurance a) j"
    "16 \<le> j \<Longrightarrow> \<not> bit (regime a) j" "16 \<le> j \<Longrightarrow> \<not> bit (jurisdiction a) j"
    "32 \<le> j \<Longrightarrow> \<not> bit (methods a) j" "40 \<le> j \<Longrightarrow> \<not> bit (issuedAt a) j"
    "40 \<le> j \<Longrightarrow> \<not> bit (expiry a) j" "32 \<le> j \<Longrightarrow> \<not> bit (epoch a) j"
  using attrs_bits [OF assms] by (meson not_le)+

lemma unpack_pack_word:
  assumes r: "attrs_in_range a"
  shows "unpacked_word (packed_word a) = a"
proof -
  note n = attrs_no_bits [OF r] and d = r [unfolded attrs_in_range_def]
  have "attr_at (packed_word a) 248 (2 ^ 8 - 1) = kind a"
    by (rule attr_at_eqI) (use d in \<open>simp_all add: packed_word_bit n\<close>)
  moreover have "attr_at (packed_word a) 240 (2 ^ 8 - 1) = assurance a"
    by (rule attr_at_eqI) (use d in \<open>simp_all add: packed_word_bit n\<close>)
  moreover have "attr_at (packed_word a) 224 (2 ^ 16 - 1) = regime a"
    by (rule attr_at_eqI) (use d in \<open>simp_all add: packed_word_bit n\<close>)
  moreover have "attr_at (packed_word a) 208 (2 ^ 16 - 1) = jurisdiction a"
    by (rule attr_at_eqI) (use d in \<open>simp_all add: packed_word_bit n\<close>)
  moreover have "attr_at (packed_word a) 176 (2 ^ 32 - 1) = methods a"
    by (rule attr_at_eqI) (use d in \<open>simp_all add: packed_word_bit n\<close>)
  moreover have "attr_at (packed_word a) 136 (2 ^ 40 - 1) = issuedAt a"
    by (rule attr_at_eqI) (use d in \<open>simp_all add: packed_word_bit n\<close>)
  moreover have "attr_at (packed_word a) 96 (2 ^ 40 - 1) = expiry a"
    by (rule attr_at_eqI) (use d in \<open>simp_all add: packed_word_bit n\<close>)
  moreover have "attr_at (packed_word a) 64 (2 ^ 32 - 1) = epoch a"
    by (rule attr_at_eqI) (use d in \<open>simp_all add: packed_word_bit n\<close>)
  ultimately show ?thesis unfolding unpacked_word_def attr_at_numerals by simp
qed

lemma packed_word_bounds:
  assumes r: "attrs_in_range a"
  shows "0 \<le> packed_word a" and "packed_word a < 2 ^ 256"
proof -
  show pos: "0 \<le> packed_word a"
    using r by (simp add: packed_word_def attrs_in_range_def)
  have "take_bit 256 (packed_word a) = packed_word a"
    by (rule bit_eqI) (use attrs_bits [OF r] in \<open>fastforce simp: bit_take_bit_iff packed_word_bit\<close>)
  then show "packed_word a < 2 ^ 256"
    using take_bit_int_less_exp [of 256 "packed_word a"] by simp
qed

lemma packed_word_reserved:
  assumes "attrs_in_range a"
  shows "packed_word a AND 0xffffffffffffffff = 0"
proof -
  have "packed_word a AND (2 ^ 64 - 1) = take_bit 64 (packed_word a)"
    by (simp add: take_bit_eq_mask mask_eq_exp_minus_1)
  also have "\<dots> = 0"
    by (rule bit_eqI) (simp add: bit_take_bit_iff packed_word_bit)
  finally show ?thesis by simp
qed

lemma packAttrs_Inr: "packAttrs a = Inr s \<longleftrightarrow> attrs_in_range a \<and> s = bytes32_of (packed_word a)"
  by (auto simp: packAttrs_def check_limits_None [symmetric] split: option.splits)

lemma bigint_packAttrs:
  assumes "packAttrs a = Inr s"
  shows "bigint_of s = packed_word a"
proof -
  have r: "attrs_in_range a" and s: "s = bytes32_of (packed_word a)"
    using assms unfolding packAttrs_Inr by blast+
  show ?thesis unfolding s by (rule bigint_bytes32 [OF packed_word_bounds [OF r]])
qed

section \<open>Properties\<close>

text \<open>C39. Packing and unpacking are inverse: whatever \<^verbatim>\<open>packAttrs\<close> accepts,
  \<^verbatim>\<open>unpackAttrs\<close> gives back field by field, and the text is a canonical 32-byte string.\<close>

theorem pack_unpack_roundtrip:
  assumes "packAttrs a = Inr s"
  shows "unpackAttrs s = Inr a \<and> is_lower_hex 64 s"
proof -
  have "is_lower_hex 64 s" using assms by (auto simp: packAttrs_Inr bytes32_of_hash)
  moreover have "attrs_in_range a" using assms by (simp add: packAttrs_Inr)
  ultimately show ?thesis
    using bigint_packAttrs [OF assms]
    by (simp add: unpackAttrs_def is_lower_hex_is_hex unpack_pack_word)
qed

definition sample_attrs :: mark_attrs where
  "sample_attrs = \<lparr>kind = 1, assurance = 2, regime = 2, jurisdiction = 410, methods = 0x10024,
     issuedAt = 1788793880, expiry = 1789398680, epoch = 0\<rparr>"

lemma sample_attrs_range: "attrs_in_range sample_attrs"
  by (simp add: attrs_in_range_def sample_attrs_def)

theorem pack_unpack_roundtrip_witness:
  "\<exists>s. packAttrs sample_attrs = Inr s \<and> unpackAttrs s = Inr sample_attrs \<and> is_lower_hex 64 s"
proof -
  have "packAttrs sample_attrs = Inr (bytes32_of (packed_word sample_attrs))"
    by (simp add: packAttrs_Inr sample_attrs_range)
  from this pack_unpack_roundtrip [OF this] show ?thesis by blast
qed

text \<open>On a packed word the wire schema check of \<^verbatim>\<open>validCredentialAttrs\<close> is exactly the
  check of the unpacked fields: the reserved bits of a packed word never reject it.\<close>

theorem valid_packed_iff:
  assumes "packAttrs a = Inr s"
  shows "validCredentialAttrs s (Some t) \<longleftrightarrow>
    kind a \<in> {1, 2} \<and> assurance a \<in> {1..5} \<and> regime a \<in> {1, 2} \<and> jurisdiction a \<in> {1..999} \<and>
    unsupported32 (methods a) = 0 \<and> 0 < issuedAt a \<and> safe_integer t \<and> issuedAt a \<le> t \<and> t < expiry a"
proof -
  have r: "attrs_in_range a" and h: "is_hash s"
    using assms by (auto simp: packAttrs_Inr bytes32_of_hash is_lower_hex_is_hex)
  show ?thesis
    unfolding validCredentialAttrs_def bigint_packAttrs [OF assms] unpack_pack_word [OF r]
    by (auto simp: h packed_word_reserved [OF r] Let_def)
qed

theorem valid_packed_iff_witness:
  "\<exists>s. packAttrs sample_attrs = Inr s \<and> validCredentialAttrs s (Some 1788793880)
     \<and> \<not> validCredentialAttrs s (Some 1789398680)"
proof -
  have p: "packAttrs sample_attrs = Inr (bytes32_of (packed_word sample_attrs))"
    by (simp add: packAttrs_Inr sample_attrs_range)
  have "unsupported32 0x10024 = 0" by code_simp
  then show ?thesis
    using p valid_packed_iff [OF p, of 1788793880] valid_packed_iff [OF p, of 1789398680]
    by (simp add: sample_attrs_def safe_integer_def)
qed

end
