(* ===== verification/Worker.thy ===== *)
theory Worker
  imports Complex_Main Recovery Attrs
begin

text \<open>
  The worker itself: the processing of one job (\<^verbatim>\<open>worker/worker.ts\<close>), the proof helpers
  (\<^verbatim>\<open>worker/proof.ts\<close>), the bounded pool (\<^verbatim>\<open>worker/pool.ts\<close>) and retry with backoff
  (\<^verbatim>\<open>worker/retry.ts\<close>).
\<close>

section \<open>Proof helpers\<close>

record proof_data =
  pd_chainKey :: int
  pd_headerNumber :: int
  pd_txBytes :: string
  pd_root :: string
  pd_siblings :: "(string \<times> bool) list"
  pd_lowerEndpointDigest :: string
  pd_roots :: "string list"

text \<open>The loop from the last sibling to the first, over the \<^verbatim>\<open>isLeft\<close> flags.\<close>

definition txIndexFromProof :: "bool list \<Rightarrow> int" where
  "txIndexFromProof isLeft = foldl (\<lambda>idx b. push_bit 1 idx OR (if b then 1 else 0)) 0 (rev isLeft)"

text \<open>\<^verbatim>\<open>zeroPadValue(toBeHex(v), n)\<close> without its prefix, for a value of at most \<open>n\<close> bytes.\<close>

definition padded :: "nat \<Rightarrow> int \<Rightarrow> string" where
  "padded n v = hex_digits (2 * n) (nat v)"

definition query_preimage :: "int \<Rightarrow> int \<Rightarrow> int \<Rightarrow> string" where
  "query_preimage key height idx = ''0x'' @ padded 32 key @ padded 8 height @ padded 32 idx"

definition computeQueryId :: "(string \<Rightarrow> string) \<Rightarrow> int \<Rightarrow> int \<Rightarrow> int \<Rightarrow> string" where
  "computeQueryId keccak256 key height idx = keccak256 (query_preimage key height idx)"

section \<open>One job\<close>

record worker_cfg =
  cf_chainKey :: int
  cf_maxAttempts :: int
  cf_hubConfirmations :: int

text \<open>The services a job needs besides the two chains: the attestation watcher, the proof builder, gas
  estimation, and the call data of \<^verbatim>\<open>execute\<close>.\<close>

record services =
  sv_waitFor :: "nat \<Rightarrow> int \<Rightarrow> unit option"
  sv_proof :: "nat \<Rightarrow> string \<Rightarrow> proof_data option"
  sv_estimate :: "nat \<Rightarrow> string \<Rightarrow> int option"
  sv_encode :: "int \<Rightarrow> proof_data \<Rightarrow> string"
  sv_keccak :: "string \<Rightarrow> string"
  sv_reader :: source_reader
  sv_recovery :: recovery_reader
  sv_hub :: hub

definition assertCanonicalJob :: "env \<Rightarrow> source_reader \<Rightarrow> job \<Rightarrow> unit task" where
  "assertCanonicalJob E R j =
     seq (call E (\<lambda>w now. assertSourceReady)) (\<lambda>_.
     seq (guard (\<not> (\<not> truthy (j_blockHash j)
         \<or> (case j_transactionIndex j of None \<Rightarrow> True | Some i \<Rightarrow> \<not> safe_integer i)))
       (SourceSafetyError ''SOURCE_JOB_MISSING_HASH_COORDINATES'')) (\<lambda>_.
     seq (getBlock E R (Height (j_blockNumber j))) (\<lambda>block. seq (getBlock E R Finalized) (\<lambda>finalized.
     seq (guard (\<not> (\<not> truthy (Option.bind block b_hash) \<or> block_number block \<noteq> j_blockNumber j
         \<or> \<not> truthy (Option.bind finalized b_hash) \<or> block_number finalized < j_blockNumber j))
       (SourceSafetyError ''SOURCE_JOB_CANONICALITY_UNCONFIRMED'')) (\<lambda>_.
     if Option.bind block b_hash \<noteq> j_blockHash j
     then seq (if truthy (j_ascTxHash j)
               then call E (\<lambda>w now. holdSource w ''SOURCE_REORG_TOUCHES_RELAYED_JOB'') else ret ())
       (\<lambda>_. throw (SourceSafetyError ''SOURCE_JOB_NOT_CANONICAL_FINALIZED''))
     else throwIfStopped E)))))"

text \<open>The guards the worker passes to its sender.\<close>

definition guard_source :: "env \<Rightarrow> services \<Rightarrow> string \<Rightarrow> unit task" where
  "guard_source E S tx = seq (throwIfStopped E) (\<lambda>_. seq (gets doc) (\<lambda>d.
     case store_get d tx of None \<Rightarrow> throw (SourceSafetyError ''SOURCE_JOB_NOT_RUNNABLE'')
     | Some j \<Rightarrow> assertCanonicalJob E (sv_reader S) j))"

definition guard_hub :: "env \<Rightarrow> worker_cfg \<Rightarrow> services \<Rightarrow> unit task" where
  "guard_hub E C S = reconcileHubRecovery E (sv_recovery S) (cf_hubConfirmations C)"

definition worker_sender :: "env \<Rightarrow> worker_cfg \<Rightarrow> services \<Rightarrow> string \<Rightarrow> preparation option \<Rightarrow> unit task" where
  "worker_sender E C S = sender_step E (evm_transport E (sv_hub S)) (guard_source E S) (guard_hub E C S)"

text \<open>A failed estimation falls back to a bound that grows with the continuity proof. Integer division
  of a \<^verbatim>\<open>BigInt\<close> truncates; an estimate is never negative.\<close>

definition gas_of :: "int option \<Rightarrow> nat \<Rightarrow> int" where
  "gas_of est continuityBlocks =
     (case est of Some e \<Rightarrow> e * 135 div 100 | None \<Rightarrow> 21000 + int continuityBlocks * 5000 + 400000)"

definition estimateGas :: "env \<Rightarrow> services \<Rightarrow> string \<Rightarrow> nat \<Rightarrow> int task" where
  "estimateGas E S dat blocks =
     seq (try_catch (seq (await E (\<lambda>n. sv_estimate S n dat)) (\<lambda>e. ret (Some e))) (\<lambda>_. ret None)) (\<lambda>est.
     ret (gas_of est blocks))"

definition submit_job :: "env \<Rightarrow> worker_cfg \<Rightarrow> services \<Rightarrow> job \<Rightarrow> unit task" where
  "submit_job E C S j =
     seq (await E (\<lambda>n. sv_proof S n (j_txHash j))) (\<lambda>pd.
     seq (guard (pd_chainKey pd = cf_chainKey C \<and> pd_headerNumber pd = j_blockNumber j)
       (StoreError ''SOURCE_PROOF_COORDINATE_CHANGED'')) (\<lambda>_.
     let txIndex = txIndexFromProof (map snd (pd_siblings pd)) in
     seq (guard (Some txIndex = j_transactionIndex j) (SourceSafetyError ''SOURCE_PROOF_TX_INDEX_CHANGED'')) (\<lambda>_.
     let q = computeQueryId (sv_keccak S) (pd_chainKey pd) (pd_headerNumber pd) txIndex;
       dat = sv_encode S (j_action j) pd in
     seq (estimateGas E S dat (length (pd_roots pd))) (\<lambda>gasLimit.
     seq (gets (aborted E)) (\<lambda>b.
     if b then ret ()
     else worker_sender E C S (j_txHash j) (Some \<lparr>pr_queryId = q, pr_data = dat, pr_gasLimit = gasLimit\<rparr>))))))"

definition attested_patch :: job_patch where
  "attested_patch = no_patch\<lparr>p_state := Some Attested\<rparr>"

definition process :: "env \<Rightarrow> worker_cfg \<Rightarrow> services \<Rightarrow> job \<Rightarrow> unit task" where
  "process E C S j = seq (gets doc) (\<lambda>d.
     if owns_relay d (j_txHash j) then worker_sender E C S (j_txHash j) None
     else seq (guard (d_relay d = None) RelayBusy) (\<lambda>_.
       seq (guard (\<not> (j_state j = Submitted \<or> truthy (j_ascTxHash j)))
         (StoreError ''LEGACY_SUBMISSION_REQUIRES_RECONCILIATION'')) (\<lambda>_.
       seq (assertCanonicalJob E (sv_reader S) j) (\<lambda>_.
       seq (if j_state j = Discovered
            then seq (await E (\<lambda>n. sv_waitFor S n (j_blockNumber j))) (\<lambda>_.
              seq (assertCanonicalJob E (sv_reader S) j) (\<lambda>_.
              call E (\<lambda>w now. store_update w now (j_txHash j) attested_patch)))
            else ret ()) (\<lambda>_.
       submit_job E C S j)))))"

definition stop :: "world \<Rightarrow> world" where
  "stop w = w\<lparr>w_stop := True\<rparr>"

text \<open>The message of an exception.\<close>

definition message :: "store_error \<Rightarrow> string" where
  "message e = (case e of
     StoreWriteError \<Rightarrow> ''WORKER_STATE_WRITE_FAILED'' | SourceSafetyError s \<Rightarrow> s | HubSafetyError s \<Rightarrow> s
   | StoreError s \<Rightarrow> s | FileUnreadable \<Rightarrow> ''file error'' | WorkerStopped \<Rightarrow> ''WORKER_STOPPED''
   | RelayBusy \<Rightarrow> ''RELAY_NONCE_UNRESOLVED'' | RpcError \<Rightarrow> ''rpc error'')"

definition pending_patch :: job_patch where
  "pending_patch = no_patch\<lparr>p_state := Some Submitted, p_lastError := Some (Some ''RELAY_RECONCILIATION_PENDING'')\<rparr>"

definition failed_patch :: "int \<Rightarrow> string \<Rightarrow> job_patch" where
  "failed_patch attempts msg = no_patch\<lparr>p_attempts := Some attempts, p_lastError := Some (Some msg)\<rparr>"

definition dead_patch :: "int \<Rightarrow> string \<Rightarrow> job_patch" where
  "dead_patch attempts msg = (failed_patch attempts msg)\<lparr>p_state := Some Dead\<rparr>"

definition is_fatal :: "store_error \<Rightarrow> bool" where
  "is_fatal e = (case e of StoreWriteError \<Rightarrow> True | SourceSafetyError _ \<Rightarrow> True | _ \<Rightarrow> False)"

definition handle_failure :: "env \<Rightarrow> worker_cfg \<Rightarrow> job \<Rightarrow> store_error \<Rightarrow> unit task" where
  "handle_failure E C j e =
     (if is_fatal e then (\<lambda>w. (Inl e, stop w))
      else seq (gets (aborted E)) (\<lambda>stopped.
        if stopped \<or> e = RelayBusy then ret ()
        else seq (gets doc) (\<lambda>d.
          if owns_relay d (j_txHash j) then call E (\<lambda>w now. store_update w now (j_txHash j) pending_patch)
          else let attempts = (case store_get d (j_txHash j) of None \<Rightarrow> 0 | Some x \<Rightarrow> j_attempts x) + 1 in
            if attempts \<ge> cf_maxAttempts C
            then call E (\<lambda>w now. store_update w now (j_txHash j) (dead_patch attempts (message e)))
            else call E (\<lambda>w now. store_update w now (j_txHash j) (failed_patch attempts (message e))))))"

definition processReserved :: "env \<Rightarrow> worker_cfg \<Rightarrow> services \<Rightarrow> job \<Rightarrow> unit task" where
  "processReserved E C S j = try_catch (process E C S j) (handle_failure E C j)"

text \<open>The body of a dispatched reservation.\<close>

definition dispatched :: "env \<Rightarrow> worker_cfg \<Rightarrow> services \<Rightarrow> string \<Rightarrow> unit task" where
  "dispatched E C S tx = seq (gets doc) (\<lambda>d. seq (gets (aborted E)) (\<lambda>stopped.
     case store_get d tx of None \<Rightarrow> ret ()
     | Some current \<Rightarrow> if terminal_state (j_state current) \<or> stopped then ret () else processReserved E C S current))"

section \<open>The pool\<close>

record pool =
  capacity :: int
  tasks :: "string list"
  accepting :: bool

datatype pool_error = InvalidCapacity

definition new_pool :: "int \<Rightarrow> pool_error + pool" where
  "new_pool c = (if \<not> safe_integer c \<or> c < 1 then Inl InvalidCapacity
     else Inr \<lparr>capacity = c, tasks = [], accepting = True\<rparr>)"

definition pool_size :: "pool \<Rightarrow> int" where
  "pool_size p = int (length (tasks p))"

definition pool_has :: "pool \<Rightarrow> string \<Rightarrow> bool" where
  "pool_has p h \<longleftrightarrow> h \<in> set (tasks p)"

definition available :: "pool \<Rightarrow> int" where
  "available p = (if accepting p then capacity p - pool_size p else 0)"

text \<open>The reservation is made synchronously; the work itself starts later.\<close>

definition tryRun :: "string \<Rightarrow> pool \<Rightarrow> bool \<times> pool" where
  "tryRun h p = (if \<not> accepting p \<or> pool_has p h \<or> pool_size p \<ge> capacity p then (False, p)
     else (True, p\<lparr>tasks := tasks p @ [h]\<rparr>))"

text \<open>The \<^verbatim>\<open>finally\<close> of a task, whether it succeeded or its error was reported.\<close>

definition finish_task :: "string \<Rightarrow> pool \<Rightarrow> pool" where
  "finish_task h p = p\<lparr>tasks := removeAll h (tasks p)\<rparr>"

definition stop_pool :: "pool \<Rightarrow> pool" where
  "stop_pool p = p\<lparr>accepting := False\<rparr>"

text \<open>\<^verbatim>\<open>schedulePending\<close>: every ready job within the free capacity is offered to the pool.\<close>

definition schedulePending :: "data \<Rightarrow> pool \<Rightarrow> pool" where
  "schedulePending d p = foldl (\<lambda>q j. snd (tryRun (j_txHash j) q)) p
     (jobsReadyForDispatch d (pool_has p) (Some (available p)))"

inductive pool_step :: "pool \<Rightarrow> pool \<Rightarrow> bool" where
  pool_try: "pool_step p (snd (tryRun h p))"
| pool_finish: "pool_step p (finish_task h p)"
| pool_stop: "pool_step p (stop_pool p)"
| pool_schedule: "pool_step p (schedulePending d p)"

definition pool_ok :: "pool \<Rightarrow> bool" where
  "pool_ok p \<longleftrightarrow> 1 \<le> capacity p \<and> distinct (tasks p) \<and> pool_size p \<le> capacity p"

lemma tryRun_ok: "pool_ok p \<Longrightarrow> pool_ok (snd (tryRun h p))"
  by (auto simp: pool_ok_def tryRun_def pool_has_def pool_size_def)

lemma schedule_ok: "pool_ok p \<Longrightarrow> pool_ok (foldl (\<lambda>q j. snd (tryRun (j_txHash j) q)) p js)"
  by (induction js arbitrary: p) (simp_all add: tryRun_ok)

interpretation pool: inductive_invariant "\<lambda>p. \<exists>c. new_pool c = Inr p" pool_step pool_ok
proof
  show "\<exists>c. new_pool c = Inr p \<Longrightarrow> pool_ok p" for p
    by (auto simp: new_pool_def pool_ok_def pool_size_def split: if_splits)
next
  fix p q assume ok: "pool_ok p" and "pool_step p q"
  from \<open>pool_step p q\<close> show "pool_ok q"
  proof cases
    case (pool_finish h)
    have "int (length (removeAll h (tasks p))) \<le> capacity p"
      using ok length_removeAll_less_eq [of h "tasks p"] unfolding pool_ok_def pool_size_def by linarith
    then show ?thesis using ok pool_finish
      by (simp add: pool_ok_def finish_task_def pool_size_def distinct_removeAll)
  qed (use ok in \<open>auto simp: tryRun_ok schedulePending_def schedule_ok\<close>, auto simp: pool_ok_def stop_pool_def pool_size_def)
qed

text \<open>Offering a job that is free to a pool with room takes it.\<close>

lemma tryRun_takes: "accepting p \<Longrightarrow> pool_size p < capacity p \<Longrightarrow> h \<in> set (tasks (snd (tryRun h p)))"
  by (auto simp: tryRun_def pool_has_def)

section \<open>Retry\<close>

text \<open>\<open>random\<close> is the value of \<^verbatim>\<open>Math.random\<close>, in \<open>[0, 1)\<close>.\<close>

definition delayFor :: "int \<Rightarrow> int \<Rightarrow> int \<Rightarrow> nat \<Rightarrow> real \<Rightarrow> int" where
  "delayFor baseMs maxMs factor attempt random =
     (let raw = min maxMs (baseMs * factor ^ attempt) in \<lfloor>real_of_int raw * (1 / 2 + random * (1 / 2))\<rfloor>)"

datatype 'a retry_result = Returned 'a | GaveUp | Stopped

text \<open>
  The loop of \<^verbatim>\<open>withRetry\<close> from attempt \<open>i\<close> on. \<open>f i\<close> is the outcome of that attempt, \<open>stopped\<close> says
  whether the signal is raised at the check before and after it and during the sleep that follows;
  the second component counts the attempts made.
\<close>

fun withRetry :: "(nat \<Rightarrow> 'a option) \<Rightarrow> (nat \<Rightarrow> bool \<times> bool \<times> bool) \<Rightarrow> nat \<Rightarrow> nat \<Rightarrow> 'a retry_result \<times> nat" where
  "withRetry f stopped i 0 = (GaveUp, 0)"
| "withRetry f stopped i (Suc left) =
     (case stopped i of (before, after, during) \<Rightarrow>
        if before then (Stopped, 0)
        else if after then (Stopped, 1)
        else case f i of
          Some x \<Rightarrow> (Returned x, 1)
        | None \<Rightarrow>
            if left = 0 then (GaveUp, 1)
            else if during then (Stopped, 1)
            else (case withRetry f stopped (Suc i) left of (r, n) \<Rightarrow> (r, Suc n)))"

definition integerSetting :: "(string \<Rightarrow> int option) \<Rightarrow> string option \<Rightarrow> int \<Rightarrow> int \<Rightarrow> int option" where
  "integerSetting toNumber raw fallback lo =
     (let v = (if raw = None \<or> raw = Some [] then Some fallback else toNumber (the raw)) in
      case v of None \<Rightarrow> None | Some n \<Rightarrow> if \<not> safe_integer n \<or> n < lo then None else Some n)"

section \<open>Lemmas\<close>

lemma assertCanonicalJob_keeps [task_intro]:
  "rely ok E \<Longrightarrow> keeps (runs_from ok w0) (assertCanonicalJob E R j)"
  unfolding assertCanonicalJob_def getBlock_def by (intro task_intro) simp_all

lemma guard_source_calls: "rely ok E \<Longrightarrow> calls_only ok (guard_source E S h)"
  unfolding guard_source_def by (intro allI task_intro)

lemma guard_hub_calls: "rely ok E \<Longrightarrow> calls_only ok (guard_hub E C S)"
  unfolding guard_hub_def by (rule reconcile_calls)

lemma worker_contract:
  assumes "rely readable E"
  shows "relay_transport E (evm_transport E (sv_hub S)) (guard_source E S) (guard_hub E C S)"
  by (rule evm_contract [OF assms guard_source_calls [OF assms] guard_hub_calls [OF assms]])

interpretation worker: relay_transport quiet_env "evm_transport quiet_env (sv_hub S)"
  "guard_source quiet_env S" "guard_hub quiet_env C S" for C S
  by (rule worker_contract) (simp add: quiet_rely)

lemma worker_patches_ok:
  "patch_ok attested_patch" "patch_ok pending_patch" "patch_ok (failed_patch n m)" "patch_ok (dead_patch n m)"
  by (simp_all add: patch_ok_def attested_patch_def pending_patch_def failed_patch_def dead_patch_def no_patch_def)

lemma processReserved_safe:
  assumes "rely readable E"
  shows "keeps (relay_safe {}) (processReserved E C S j)"
proof -
  note worker = relay_transport.sender_safe [OF worker_contract [OF assms]]
  have call: "keeps (relay_safe {}) (call E op)" if "store_call readable op" for op :: "_ \<Rightarrow> _ \<Rightarrow> (store, store_error, unit) io"
    by (rule calls_only_safe) (blast intro: call_keeps assms that)
  have await: "keeps (relay_safe {}) (await E ans)" for ans :: "nat \<Rightarrow> 'b option"
    by (rule calls_only_safe) (blast intro: await_keeps assms)
  have canon: "keeps (relay_safe {}) (assertCanonicalJob E R x)" for R x
    by (rule calls_only_safe) (blast intro: assertCanonicalJob_keeps assms)
  have est: "keeps (relay_safe {}) (estimateGas E S d n)" for d n
    by (rule calls_only_safe) (unfold estimateGas_def, intro allI task_intro assms)
  have pf: "keeps (relay_safe {}) (await E (\<lambda>n. sv_proof S n h))" for h
    by (rule calls_only_safe) (blast intro: await_keeps assms)
  have submit: "keeps (relay_safe {}) (submit_job E C S x)" for x
    unfolding submit_job_def worker_sender_def Let_def by (intro keeps_rules pf est worker)
  have "keeps (relay_safe {}) (process E C S j)"
    unfolding process_def worker_sender_def
    by (intro keeps_rules worker canon await call store_calls worker_patches_ok submit)
  moreover have "keeps (relay_safe {}) (\<lambda>w. (Inl e, stop w))" for e
    by (simp add: triple_cases relay_safe_def stop_def doc_def)
  ultimately show ?thesis
    unfolding processReserved_def handle_failure_def Let_def
    by (intro keeps_rules call store_calls worker_patches_ok)
qed

lemma txIndex_Cons: "txIndexFromProof (b # bs) = 2 * txIndexFromProof bs + (if b then 1 else 0)"
proof -
  have "push_bit 1 (n :: int) OR (if b then 1 else 0) = 2 * n + (if b then 1 else 0)" for n
  proof -
    have "push_bit 1 n AND (if b then 1 else 0) = 0" 
      by (cases b) (simp_all add: and_one_eq push_bit_eq_mult)
    then have "push_bit 1 n OR (if b then 1 else 0) = push_bit 1 n + (if b then 1 else 0)"
      by (rule disjunctive_add_eq_or [symmetric])
    then show ?thesis by (simp add: push_bit_eq_mult)
  qed
  then show ?thesis by (simp add: txIndexFromProof_def)
qed

lemma padded_length [simp]: "length (padded n v) = 2 * n"
  by (simp add: padded_def)

lemma padded_inj:
  assumes "padded n v = padded n v'" and "0 \<le> v" "v < 16 ^ (2 * n)" "0 \<le> v'" "v' < 16 ^ (2 * n)"
  shows "v = v'"
proof -
  have "nat v mod 16 ^ (2 * n) = nat v' mod 16 ^ (2 * n)"
    using arg_cong [OF assms(1), of "foldl (\<lambda>a c. a * 16 + hex_val c) 0"]
    unfolding padded_def hex_digits_value .
  moreover have "nat v < 16 ^ (2 * n)" "nat v' < 16 ^ (2 * n)"
    using assms by (simp_all add: nat_less_iff)
  ultimately have "nat v = nat v'" by simp
  then show ?thesis using assms by simp
qed

lemma canonical_yields:
  "yields k (assertCanonicalJob E R j) (\<lambda>_ _. \<exists>n1 n2 b f. n1 < n2
     \<and> rd_block R n1 (Height (j_blockNumber j)) = Some (Some b) \<and> b_hash b = j_blockHash j
     \<and> rd_block R n2 Finalized = Some (Some f) \<and> j_blockNumber j \<le> b_number f)"
  unfolding assertCanonicalJob_def getBlock_def
proof (intro yields_call yields_await yields_guard yields_if)
  fix block n1 finalized n2
  assume n: "Suc n1 \<le> n2" "rd_block R n1 (Height (j_blockNumber j)) = Some block"
    "rd_block R n2 Finalized = Some finalized"
    and g: "\<not> (\<not> truthy (Option.bind block b_hash) \<or> block_number block \<noteq> j_blockNumber j
         \<or> \<not> truthy (Option.bind finalized b_hash) \<or> block_number finalized < j_blockNumber j)"
  show "yields (Suc n2) (seq (if truthy (j_ascTxHash j)
      then call E (\<lambda>w now. holdSource w ''SOURCE_REORG_TOUCHES_RELAYED_JOB'') else ret ())
      (\<lambda>_. throw (SourceSafetyError ''SOURCE_JOB_NOT_CANONICAL_FINALIZED''))) Q" for Q
    by (simp add: triple_cases seq_Inr)
  assume h: "\<not> Option.bind block b_hash \<noteq> j_blockHash j"
  obtain b f where "block = Some b" "finalized = Some f"
    using g by (cases block; cases finalized) (auto simp: truthy_def)
  then have "\<exists>n1 n2 b f. n1 < n2
     \<and> rd_block R n1 (Height (j_blockNumber j)) = Some (Some b) \<and> b_hash b = j_blockHash j
     \<and> rd_block R n2 Finalized = Some (Some f) \<and> j_blockNumber j \<le> b_number f"
    using n g h by (intro exI [of _ n1] exI [of _ n2] exI [of _ b] exI [of _ f]) (auto simp: block_number_def)
  then show "yields (Suc n2) (throwIfStopped E) (\<lambda>_ _. \<exists>n1 n2 b f. n1 < n2
     \<and> rd_block R n1 (Height (j_blockNumber j)) = Some (Some b) \<and> b_hash b = j_blockHash j
     \<and> rd_block R n2 Finalized = Some (Some f) \<and> j_blockNumber j \<le> b_number f)"
    by (simp add: triple_cases)
qed

section \<open>A concrete worker\<close>

definition sample_services :: services where
  "sample_services = \<lparr>sv_waitFor = (\<lambda>_ _. Some ()), sv_proof = (\<lambda>_ _. None), sv_estimate = (\<lambda>_ _. Some 100),
     sv_encode = (\<lambda>_ _. ''0x03''), sv_keccak = (\<lambda>s. s), sv_reader = sample_reader, sv_recovery = sample_recovery,
     sv_hub = sample_hub\<rparr>"

definition sample_cfg :: worker_cfg where
  "sample_cfg = \<lparr>cf_chainKey = 1, cf_maxAttempts = 1, cf_hubConfirmations = 6\<rparr>"

definition sample_job_world :: world where
  "sample_job_world = \<lparr>w_store = sample2, w_tick = 0, w_active = False, w_stop = False, w_sent = []\<rparr>"

section \<open>Properties\<close>

text \<open>C26. Processing a job never loses track of a broadcast: whatever step of \<^verbatim>\<open>processReserved\<close>
  succeeds, throws or is interleaved with other tasks, afterwards every transaction sent so far is
  in the relay slot of the state file or has its receipt recorded there.\<close>

theorem processing_accounts_for_broadcasts:
  assumes "rely readable E" and "store_ok (w_store w)" and "synced (w_store w)"
    and "\<forall>r \<in> set (w_sent w). accounted r (doc w)"
    and "processReserved E C S j w = (res, w')"
  shows "\<forall>r \<in> set (w_sent w'). accounted r (doc w') \<and> load (disk (w_store w')) = Inr (doc w')"
proof -
  have "relay_safe {} w" using assms(2-4) by (simp add: relay_safe_def)
  then have "relay_safe {} (snd (processReserved E C S j w))"
    by (rule keepsD [OF processReserved_safe [OF assms(1)]])
  then have "relay_safe {} w'" unfolding assms(5) snd_conv .
  then show ?thesis by (auto simp: relay_safe_def synced_def doc_def)
qed

definition sample_processed :: "(store_error + unit) \<times> world" where
  "sample_processed = processReserved quiet_env sample_cfg sample_services sample_job sample_relay_world"

theorem processing_accounts_for_broadcasts_witness:
  "w_sent (snd sample_processed) = [sample_relay] \<and> accounted sample_relay (doc (snd sample_processed))"
proof -
  have "store_ok (w_store sample_relay_world)" "synced (w_store sample_relay_world)"
    "w_sent sample_relay_world = []"
    using readable_write.reachable_inv [OF sample_reachable(3)] by (simp_all add: sample_relay_world_def)
  moreover have "processReserved quiet_env sample_cfg sample_services sample_job sample_relay_world
      = (fst sample_processed, snd sample_processed)" by (simp add: sample_processed_def)
  ultimately have "\<forall>r \<in> set (w_sent (snd sample_processed)). accounted r (doc (snd sample_processed))"
    using processing_accounts_for_broadcasts [OF quiet_rely, of sample_relay_world sample_cfg sample_services sample_job
        "fst sample_processed" "snd sample_processed"] by simp
  moreover have "w_sent (snd sample_processed) = [sample_relay]" by code_simp
  ultimately show ?thesis by simp
qed

text \<open>A failure that is not fatal, of a job that holds no signature, is counted: the attempt number
  and the message are saved, and the job is given up exactly when the configured number of
  attempts is reached; the worker itself goes on.\<close>

theorem failed_attempt_is_counted:
  assumes "process E C S j w = (Inl e, w1)" and "\<not> is_fatal e" and "e \<noteq> RelayBusy" and "\<not> aborted E w1"
    and "\<not> owns_relay (doc w1) (j_txHash j)" and "obj_get (jobs (doc w1)) (j_txHash j) = Some x"
    and "e_write E (w_tick w1) = Written"
  shows "\<exists>w2 y. processReserved E C S j w = (Inr (), w2) \<and> obj_get (jobs (doc w2)) (j_txHash j) = Some y
    \<and> j_attempts y = j_attempts x + 1 \<and> j_lastError y = Some (message e)
    \<and> j_state y = (if j_attempts x + 1 \<ge> cf_maxAttempts C then Dead else j_state x)
    \<and> disk (w_store w2) = Some (doc w2)"
proof -
  have no: "\<not> (case d_relay (doc w1) of None \<Rightarrow> False | Some r \<Rightarrow> r_sourceTxHash r = j_txHash j)"
    using assms(5) by (simp add: owns_relay_def)
  have "processReserved E C S j w = handle_failure E C j e w1"
    using assms(1) by (simp add: processReserved_def try_catch_def)
  then show ?thesis
    using assms no
    by (simp add: handle_failure_def store_get_def Let_def)
      (auto simp: call_def store_update_def doc_def commit_Written obj_simps apply_patch_def patched_def
        dead_patch_def failed_patch_def no_patch_def)
qed

definition offline_services :: services where
  "offline_services = sample_services\<lparr>sv_reader := sample_reader\<lparr>rd_block := (\<lambda>_ _. None)\<rparr>\<rparr>"

theorem failed_attempt_is_counted_witness:
  "\<exists>w2 y. processReserved quiet_env sample_cfg offline_services sample_job sample_job_world = (Inr (), w2)
    \<and> obj_get (jobs (doc w2)) (sample_hash CHR ''a'') = Some y \<and> j_state y = Dead \<and> j_lastError y = Some ''rpc error''"
proof -
  have d: "doc (sample_job_world\<lparr>w_tick := n\<rparr>) = mem sample2" "doc sample_job_world = mem sample2" for n
    by (simp_all add: doc_def sample_job_world_def)
  have m: "d_relay (mem sample2) = None" "sourceHold (mem sample2) = None"
    "map_option j_attempts (obj_get (jobs (mem sample2)) (sample_hash CHR ''a'')) = Some 0" by code_simp+
  then obtain x where x: "obj_get (jobs (mem sample2)) (sample_hash CHR ''a'') = Some x" "j_attempts x = 0" by auto
  have h: "j_txHash sample_job = sample_hash CHR ''a''" "j_blockHash sample_job = Some (sample_hash CHR ''b'')"
    "j_state sample_job = Discovered" "j_ascTxHash sample_job = None" "j_transactionIndex sample_job = Some 3"
    by (simp_all add: sample_job_def)
  have "process quiet_env sample_cfg offline_services sample_job sample_job_world
      = (Inl RpcError, sample_job_world\<lparr>w_tick := Suc (Suc 0)\<rparr>)"
    by (simp add: process_def d m h owns_relay_def truthy_def assertCanonicalJob_def getBlock_def offline_services_def)
      (simp add: seq_def call_def await_def assertSourceReady_def quiet_env_def sample_job_world_def m truthy_def
        safe_integer_def sample_hash_def)
  from failed_attempt_is_counted [OF this, of x] show ?thesis
    by (simp add: d x h is_fatal_def aborted_def quiet_env_def message_def owns_relay_def m sample_cfg_def)
      (auto simp add: sample_job_world_def)
qed

text \<open>A job passes the canonicality check only if the source chain still has its block under the
  hash it was found in, and the finalized head has reached it.\<close>

theorem canonical_check_is_sound:
  assumes "assertCanonicalJob E R j w = (Inr (), w')"
  shows "\<exists>n1 n2 b f. n1 < n2 \<and> rd_block R n1 (Height (j_blockNumber j)) = Some (Some b) \<and> b_hash b = j_blockHash j
     \<and> rd_block R n2 Finalized = Some (Some f) \<and> j_blockNumber j \<le> b_number f"
  using tripleD_Inr [OF canonical_yields [of 0] _ assms] by simp

theorem canonical_check_is_sound_witness:
  "\<exists>n b. rd_block sample_reader n (Height 12) = Some (Some b) \<and> b_hash b = j_blockHash sample_job"
proof -
  have "fst (assertCanonicalJob quiet_env sample_reader sample_job sample_job_world) = Inr ()" by code_simp
  then have "assertCanonicalJob quiet_env sample_reader sample_job sample_job_world =
      (Inr (), snd (assertCanonicalJob quiet_env sample_reader sample_job sample_job_world))" by (simp add: prod_eq_iff)
  from canonical_check_is_sound [OF this] show ?thesis by (auto simp: sample_job_def)
qed

text \<open>The preimage of a query id determines chain, block and transaction index: two different source
  transactions share an id only if the hash function collides on their two preimages.\<close>

theorem query_id_identifies_transaction:
  assumes "computeQueryId keccak256 k h i = computeQueryId keccak256 k' h' i'"
    and "inj_on keccak256 {query_preimage k h i, query_preimage k' h' i'}"
    and "k \<in> {0..<2 ^ 256}" "k' \<in> {0..<2 ^ 256}" "h \<in> {0..<2 ^ 64}" "h' \<in> {0..<2 ^ 64}"
    and "i \<in> {0..<2 ^ 256}" "i' \<in> {0..<2 ^ 256}"
  shows "k = k' \<and> h = h' \<and> i = i'"
proof -
  have "query_preimage k h i = query_preimage k' h' i'"
    using inj_onD [OF assms(2), of "query_preimage k h i" "query_preimage k' h' i'"] assms(1)
    unfolding computeQueryId_def by blast
  then have e: "padded 32 k = padded 32 k'" "padded 8 h = padded 8 h'" "padded 32 i = padded 32 i'"
    by (simp_all add: query_preimage_def)
  have p: "(2 :: int) ^ 256 = 16 ^ (2 * 32)" "(2 :: int) ^ 64 = 16 ^ (2 * 8)" by simp_all
  show ?thesis
    using padded_inj [OF e(1)] padded_inj [OF e(2)] padded_inj [OF e(3)] assms(3-8) unfolding p by simp
qed

theorem query_id_identifies_transaction_witness:
  "computeQueryId (\<lambda>s. s) 1 100 2 \<noteq> computeQueryId (\<lambda>s. s) 1 100 3"
  using query_id_identifies_transaction [of "\<lambda>s. s" 1 100 2 1 100 3] by auto

text \<open>The transaction index read from a Merkle proof has the \<^verbatim>\<open>isLeft\<close> flags as its bits, lowest
  level first.\<close>

theorem txIndex_bits: "bit (txIndexFromProof bs) i \<longleftrightarrow> i < length bs \<and> bs ! i"
proof (induction bs arbitrary: i)
  case Nil
  then show ?case by (simp add: txIndexFromProof_def)
next
  case (Cons b bs)
  have "bit (txIndexFromProof (b # bs)) i \<longleftrightarrow> (if i = 0 then b else bit (txIndexFromProof bs) (i - 1))"
    by (cases i) (auto simp: txIndex_Cons bit_Suc bit_0)
  with Cons show ?case by (cases i) simp_all
qed

text \<open>C40. The pool never runs more tasks than its capacity, never the same job twice, and reports a free
  capacity that is never negative.\<close>

theorem pool_is_bounded:
  assumes "reachable (\<lambda>p. \<exists>c. new_pool c = Inr p) pool_step p"
  shows "pool_size p \<le> capacity p \<and> distinct (tasks p) \<and> 0 \<le> available p"
  using pool.reachable_inv [OF assms] by (auto simp: pool_ok_def available_def)

theorem pool_is_bounded_witness:
  "pool_size (snd (tryRun ''0xa'' \<lparr>capacity = 1, tasks = [], accepting = True\<rparr>)) = 1
   \<and> 0 \<le> available (snd (tryRun ''0xa'' \<lparr>capacity = 1, tasks = [], accepting = True\<rparr>))"
proof -
  have "new_pool 1 = Inr \<lparr>capacity = 1, tasks = [], accepting = True\<rparr>" by (simp add: new_pool_def safe_integer_def)
  then have "reachable (\<lambda>p. \<exists>c. new_pool c = Inr p) pool_step
      (snd (tryRun ''0xa'' \<lparr>capacity = 1, tasks = [], accepting = True\<rparr>))"
    by (intro reachable_step [where step = pool_step, OF _ pool_try] reachable_init) blast
  from pool_is_bounded [OF this] show ?thesis
    by (simp add: tryRun_def pool_has_def pool_size_def)
qed

text \<open>A backoff delay lies between half the capped exponential delay and the delay itself.\<close>

theorem backoff_bounds:
  assumes "0 \<le> random" and "random < 1" and "0 \<le> baseMs" and "0 \<le> maxMs" and "0 \<le> factor"
  shows "min maxMs (baseMs * factor ^ n) div 2 \<le> delayFor baseMs maxMs factor n random
    \<and> delayFor baseMs maxMs factor n random \<le> min maxMs (baseMs * factor ^ n)"
proof -
  define raw where "raw = min maxMs (baseMs * factor ^ n)"
  have raw: "0 \<le> raw" using assms by (simp add: raw_def)
  have "real_of_int raw * (1 / 2) \<le> real_of_int raw * (1 / 2 + random * (1 / 2))"
    using raw assms by (intro mult_left_mono) simp_all
  moreover have "real_of_int raw * (1 / 2 + random * (1 / 2)) \<le> real_of_int raw * 1"
    using raw assms by (intro mult_left_mono) simp_all
  ultimately show ?thesis
    unfolding delayFor_def Let_def raw_def [symmetric]
    by (auto simp: le_floor_iff floor_le_iff)
qed

theorem backoff_bounds_witness:
  "delayFor 1000 60000 2 3 (1 / 2) = 6000 \<and> delayFor 1000 60000 2 3 (1 / 2) \<le> 8000"
  using backoff_bounds [of "1 / 2" 1000 60000 2 3] by (simp add: delayFor_def)

end
