(* ===== verification/Canonical.thy ===== *)
theory Canonical
  imports Prelude "HOL-Library.Multiset"
begin

text \<open>
  Deterministic serialisation, \<^verbatim>\<open>pipeline/canonical.ts\<close>. A value is what \<^verbatim>\<open>JSON.stringify\<close> can
  print: a member that is absent and one whose value is \<^verbatim>\<open>undefined\<close> are the same here, because
  printing drops both. Numbers are integers or not finite; a \<^verbatim>\<open>Date\<close> is a value of its own because
  the code refuses it. The members of an object are listed in the order in which JavaScript
  enumerates them.
\<close>

section \<open>Values\<close>

datatype json =
    JNull | JBool bool | JNum int | JNonFinite | JStr string | JArr "json list"
  | JObj "(string \<times> json) list" | JDate

datatype canonical_error = NonFiniteNumber | DateValue

section \<open>Printing\<close>

text \<open>\<^verbatim>\<open>JSON.stringify\<close> for these values.\<close>

definition digit_char :: "nat \<Rightarrow> char" where
  "digit_char d = char_of (48 + d)"

fun dec_nat :: "nat \<Rightarrow> string" where
  "dec_nat n = (if n < 10 then [digit_char n] else dec_nat (n div 10) @ [digit_char (n mod 10)])"

declare dec_nat.simps [simp del]

definition dec_int :: "int \<Rightarrow> string" where
  "dec_int n = (if n < 0 then CHR ''-'' # dec_nat (nat (- n)) else dec_nat (nat n))"

definition low_hex :: "nat \<Rightarrow> char" where
  "low_hex d = (if d < 10 then char_of (48 + d) else char_of (87 + d))"

definition escape :: "char \<Rightarrow> string" where
  "escape c =
     (if c = CHR 0x22 then [CHR 0x5C, CHR 0x22] else if c = CHR 0x5C then [CHR 0x5C, CHR 0x5C]
      else if c = CHR 0x08 then [CHR 0x5C, CHR ''b''] else if c = CHR 0x0C then [CHR 0x5C, CHR ''f'']
      else if c = CHR 0x0A then [CHR 0x5C, CHR ''n''] else if c = CHR 0x0D then [CHR 0x5C, CHR ''r'']
      else if c = CHR 0x09 then [CHR 0x5C, CHR ''t'']
      else let n = of_char c :: nat in
        if n < 32 then [CHR 0x5C, CHR ''u'', CHR ''0'', CHR ''0'', low_hex (n div 16), low_hex (n mod 16)]
        else [c])"

definition quote :: "string \<Rightarrow> string" where
  "quote s = CHR 0x22 # concat (map escape s) @ [CHR 0x22]"

fun stringify :: "json \<Rightarrow> string" where
  "stringify JNull = ''null''"
| "stringify (JBool b) = (if b then ''true'' else ''false'')"
| "stringify (JNum n) = dec_int n"
| "stringify JNonFinite = ''null''"
| "stringify (JStr s) = quote s"
| "stringify (JArr xs) = ''['' @ join '','' (map stringify xs) @ '']''"
| "stringify (JObj kvs) = ''{'' @ join '','' (map (\<lambda>(k, v). quote k @ '':'' @ stringify v) kvs) @ ''}''"
| "stringify JDate = ''null''"

section \<open>Sorting\<close>

text \<open>
  JavaScript enumerates the keys that are array indices first, in numeric order, and the others
  in the order of their insertion; assigning to \<^verbatim>\<open>__proto__\<close> of an object literal sets its
  prototype and adds no member.
\<close>

definition digit :: "char \<Rightarrow> bool" where
  "digit c \<longleftrightarrow> 48 \<le> (of_char c :: nat) \<and> (of_char c :: nat) \<le> 57"

lemma digit_bits [code]:
  "digit (Char b0 b1 b2 b3 b4 b5 b6 b7) \<longleftrightarrow> \<not> b7 \<and> \<not> b6 \<and> b5 \<and> b4 \<and> \<not> (b3 \<and> (b1 \<or> b2))"
  by (cases b0; cases b1; cases b2; cases b3; cases b4; cases b5; cases b6; cases b7; simp add: digit_def)

definition index_value :: "string \<Rightarrow> nat" where
  "index_value k = foldl (\<lambda>a c. a * 10 + (of_char c - 48)) 0 k"

definition index_key :: "string \<Rightarrow> bool" where
  "index_key k \<longleftrightarrow> k \<noteq> [] \<and> list_all digit k \<and> (k = ''0'' \<or> hd k \<noteq> CHR ''0'') \<and> length k \<le> 10
     \<and> index_value k < 4294967295"

definition own_order :: "(string \<times> json) list \<Rightarrow> (string \<times> json) list" where
  "own_order kvs = sort_key (index_value \<circ> fst) (filter (index_key \<circ> fst) kvs) @ filter (Not \<circ> index_key \<circ> fst) kvs"

fun sortDeep :: "json \<Rightarrow> canonical_error + json" where
  "sortDeep JNonFinite = Inl NonFiniteNumber"
| "sortDeep JDate = Inl DateValue"
| "sortDeep (JArr xs) = (case map_err sortDeep xs of Inl e \<Rightarrow> Inl e | Inr ys \<Rightarrow> Inr (JArr ys))"
| "sortDeep (JObj kvs) =
     (case map_err (\<lambda>kv. case sortDeep (snd kv) of Inl e \<Rightarrow> Inl e | Inr w \<Rightarrow> Inr (fst kv, w)) (sort_key fst kvs) of
        Inl e \<Rightarrow> Inl e
      | Inr ws \<Rightarrow> Inr (JObj (own_order (filter (\<lambda>kw. fst kw \<noteq> ''__proto__'') ws))))"
| "sortDeep v = Inr v"

definition canonicalJson :: "json \<Rightarrow> canonical_error + string" where
  "canonicalJson v = (case sortDeep v of Inl e \<Rightarrow> Inl e | Inr w \<Rightarrow> Inr (stringify w))"

section \<open>Printing can be read back\<close>

lemma of_digit_char: "d < 10 \<Longrightarrow> of_char (digit_char d) = 48 + d"
  by (simp add: digit_char_def)

lemma digit_digit_char: "d < 10 \<Longrightarrow> digit (digit_char d)"
  by (simp add: digit_def of_digit_char)

lemma dec_nat_digits: "list_all digit (dec_nat n) \<and> dec_nat n \<noteq> []"
proof (induction n rule: dec_nat.induct)
  case (1 n)
  then show ?case using dec_nat.simps [of n] by (simp add: digit_digit_char)
qed

lemma dec_nat_value: "index_value (dec_nat n) = n"
proof (induction n rule: dec_nat.induct)
  case (1 n)
  then show ?case by (subst dec_nat.simps) (auto simp: index_value_def of_digit_char)
qed

text \<open>What may follow a value: the end, or a delimiter.\<close>

definition delimited :: "string \<Rightarrow> bool" where
  "delimited r \<longleftrightarrow> r = [] \<or> hd r \<in> set '',]}''"

lemma delimited_takeWhile: "delimited r \<Longrightarrow> takeWhile digit (dec_nat n @ r) = dec_nat n"
proof -
  assume "delimited r"
  then have "takeWhile digit r = []" by (cases r) (auto simp: delimited_def digit_def)
  then show ?thesis using dec_nat_digits [of n] by (simp add: takeWhile_append2 list_all_iff)
qed

lemma dec_nat_read: "dec_nat n @ r = dec_nat m @ q \<Longrightarrow> delimited r \<Longrightarrow> delimited q \<Longrightarrow> n = m \<and> r = q"
  by (metis delimited_takeWhile dec_nat_value same_append_eq)

lemma dec_nat_head: "hd (dec_nat n @ r) \<noteq> CHR ''-''"
proof -
  have "digit (hd (dec_nat n))" using dec_nat_digits [of n] by (cases "dec_nat n") auto
  then show ?thesis using dec_nat_digits [of n] by (auto simp: digit_def)
qed

lemma dec_int_read:
  assumes "dec_int n @ r = dec_int m @ q" "delimited r" "delimited q"
  shows "n = m \<and> r = q"
proof -
  have "hd (dec_int k @ x) = CHR ''-'' \<longleftrightarrow> k < 0" for k x
    using dec_nat_head [of "nat k" x] by (simp add: dec_int_def)
  then have "(n < 0) = (m < 0)" using assms(1) by metis
  with assms show ?thesis
    using dec_nat_read [of "nat n" r "nat m" q] dec_nat_read [of "nat (- n)" r "nat (- m)" q]
    by (cases "n < 0") (auto simp: dec_int_def)
qed

fun unescape :: "string \<Rightarrow> (char \<times> string) option" where
  "unescape (b # e # r) =
     (if b = CHR 0x5C then
        (if e = CHR 0x22 then Some (CHR 0x22, r) else if e = CHR 0x5C then Some (CHR 0x5C, r)
         else if e = CHR ''b'' then Some (char_of (8 :: nat), r) else if e = CHR ''f'' then Some (char_of (12 :: nat), r)
         else if e = CHR ''n'' then Some (char_of (10 :: nat), r) else if e = CHR ''r'' then Some (char_of (13 :: nat), r)
         else if e = CHR ''t'' then Some (char_of (9 :: nat), r)
         else (case r of _ # _ # h # l # q \<Rightarrow>
                 Some (char_of ((if h = CHR ''0'' then 0 else 16)
                   + (let n = of_char l :: nat in if n < 58 then n - 48 else n - 87)), q)
               | _ \<Rightarrow> None))
      else Some (b, e # r))"
| "unescape [b] = Some (b, [])"
| "unescape [] = None"

lemma low_hex_read:
  assumes "d < 16"
  shows "(let n = of_char (low_hex d) :: nat in if n < 58 then n - 48 else n - 87) = d"
  using assms by (simp add: low_hex_def)

lemma escape_control: "(of_char c :: nat) < 32 \<Longrightarrow>
  char_of ((if low_hex (of_char c div 16) = CHR ''0'' then 0 else 16) + (of_char c mod 16 :: nat)) = c"
proof -
  assume lt: "(of_char c :: nat) < 32"
  then have "of_char c div 16 = (0 :: nat) \<or> of_char c div 16 = (1 :: nat)" by linarith
  then have "(if low_hex (of_char c div 16) = CHR ''0'' then 0 else 16) + of_char c mod 16 = (of_char c :: nat)"
    using lt by (auto simp: low_hex_def char_of_def bit_0 mod_if)
  then show ?thesis by (metis char_of_char)
qed

lemma unescape_escape: "unescape (escape c @ r) = Some (c, r)"
proof (cases "c \<in> {CHR 0x22, CHR 0x5C, CHR 0x08, CHR 0x0C, CHR 0x0A, CHR 0x0D, CHR 0x09}")
  case True
  then show ?thesis by (auto simp: escape_def char_of_def bit_0)
next
  case False
  then show ?thesis
    using escape_control [of c] low_hex_read [of "of_char c mod 16"]
    by (cases r) (auto simp: escape_def Let_def)
qed

lemma escape_head: "escape c @ r \<noteq> CHR 0x22 # q"
  by (auto simp: escape_def Let_def split: if_splits)

lemma escapes_read:
  "concat (map escape s) @ CHR 0x22 # r = concat (map escape t) @ CHR 0x22 # q \<Longrightarrow> s = t \<and> r = q"
proof (induction s arbitrary: t)
  case Nil
  then show ?case using escape_head [of "hd t" "concat (map escape (tl t)) @ CHR 0x22 # q" r] by (cases t) auto
next
  case (Cons c s)
  show ?case
  proof (cases t)
    case Nil
    then show ?thesis using Cons.prems escape_head [of c "concat (map escape s) @ CHR 0x22 # r" q] by simp
  next
    case (Cons d u)
    have "escape c @ concat (map escape s) @ CHR 0x22 # r = escape d @ concat (map escape u) @ CHR 0x22 # q"
      using Cons.prems Cons by simp
    then have "c = d \<and> concat (map escape s) @ CHR 0x22 # r = concat (map escape u) @ CHR 0x22 # q"
      by (metis Pair_inject option.inject unescape_escape)
    then show ?thesis using Cons.IH [of u] Cons by simp
  qed
qed

lemma quote_read: "quote s @ r = quote t @ q \<Longrightarrow> s = t \<and> r = q"
  using escapes_read [of s r t q] by (simp add: quote_def)

fun plain :: "json \<Rightarrow> bool" where
  "plain JNonFinite = False"
| "plain JDate = False"
| "plain (JArr xs) = list_all plain xs"
| "plain (JObj kvs) = list_all (\<lambda>kv. plain (snd kv)) kvs"
| "plain _ = True"

text \<open>A printer whose output determines the value and where it ends.\<close>

definition readable :: "('a \<Rightarrow> string) \<Rightarrow> 'a set \<Rightarrow> 'a \<Rightarrow> bool" where
  "readable f S x \<longleftrightarrow> (\<forall>y \<in> S. \<forall>r q. f x @ r = f y @ q \<longrightarrow> delimited r \<longrightarrow> delimited q \<longrightarrow> x = y \<and> r = q)"

lemma readableD: "readable f S x \<Longrightarrow> y \<in> S \<Longrightarrow> f x @ r = f y @ q \<Longrightarrow> delimited r \<Longrightarrow> delimited q \<Longrightarrow> x = y \<and> r = q"
  by (simp add: readable_def)

definition opens :: "string \<Rightarrow> bool" where
  "opens s \<longleftrightarrow> s \<noteq> [] \<and> hd s \<notin> set '',]}''"

lemma join_Cons: "join sep (x # xs) = x @ (if xs = [] then [] else sep @ join sep xs)"
  by (cases xs) auto

lemma join_opens: "opens (f x) \<Longrightarrow> c \<in> set '',]}'' \<Longrightarrow> join sep (map f (x # xs)) @ z \<noteq> c # r"
  by (cases "f x") (auto simp: join_Cons opens_def)

lemma join_read:
  assumes "\<And>x. x \<in> set xs \<Longrightarrow> readable f S x" "set ys \<subseteq> S"
    and "\<And>x. x \<in> set xs \<union> set ys \<Longrightarrow> opens (f x)" "c = CHR '']'' \<or> c = CHR ''}''"
    and "join '','' (map f xs) @ c # r = join '','' (map f ys) @ c # q"
  shows "xs = ys \<and> r = q"
  using assms
proof (induction xs arbitrary: ys)
  case Nil
  show ?case
  proof (cases ys)
    case (Cons y zs)
    have "c \<in> set '',]}''" using Nil.prems(4) by auto
    moreover have "opens (f y)" using Nil.prems(3) Cons by simp
    moreover have "join '','' (map f (y # zs)) @ c # q = c # r" using Nil.prems(5) Cons by simp
    ultimately show ?thesis using join_opens [of f y c "'',''" zs "c # q" r] by simp
  qed (use Nil.prems(5) in simp)
next
  case (Cons x xs)
  show ?case
  proof (cases ys)
    case Nil
    have "c \<in> set '',]}''" using Cons.prems(4) by auto
    moreover have "opens (f x)" using Cons.prems(3) by simp
    moreover have "join '','' (map f (x # xs)) @ c # r = c # q" using Cons.prems(5) Nil by simp
    ultimately show ?thesis using join_opens [of f x c "'',''" xs "c # r" q] by simp
  next
    case (Cons y zs)
    define a where "a = (if xs = [] then c # r else CHR '','' # join '','' (map f xs) @ c # r)"
    define b where "b = (if zs = [] then c # q else CHR '','' # join '','' (map f zs) @ c # q)"
    have "f x @ a = f y @ b" using Cons.prems(5) by (auto simp: Cons join_Cons a_def b_def)
    moreover have "delimited a" "delimited b" using Cons.prems(4) by (auto simp: a_def b_def delimited_def)
    ultimately have xy: "x = y" and ab: "a = b"
      using readableD [of f S x y a b] Cons.prems(1) [of x] Cons.prems(2) Cons by auto
    have "(xs = []) = (zs = [])" using ab Cons.prems(4) by (auto simp: a_def b_def split: if_splits)
    then show ?thesis
    proof (cases "xs = []")
      case False
      then have "join '','' (map f xs) @ c # r = join '','' (map f zs) @ c # q"
        using ab \<open>(xs = []) = (zs = [])\<close> by (simp add: a_def b_def)
      moreover have "set zs \<subseteq> S" using Cons.prems(2) Cons by auto
      ultimately have "xs = zs \<and> r = q"
        using Cons.IH [of zs] Cons.prems(1,3,4) Cons by auto
      then show ?thesis using xy Cons by simp
    qed (use ab xy Cons in \<open>auto simp: a_def b_def\<close>)
  qed
qed

fun shape :: "json \<Rightarrow> nat" where
  "shape JNull = 0" | "shape (JBool b) = (if b then 1 else 2)" | "shape (JNum n) = 3" | "shape (JStr s) = 4"
| "shape (JArr xs) = 5" | "shape (JObj kvs) = 6" | "shape JNonFinite = 7" | "shape JDate = 7"

definition head_shape :: "char \<Rightarrow> nat" where
  "head_shape c = (if c = CHR ''n'' then 0 else if c = CHR ''t'' then 1 else if c = CHR ''f'' then 2
     else if c = CHR 0x22 then 4 else if c = CHR ''['' then 5 else if c = CHR ''{'' then 6 else 3)"

lemma dec_int_head: "dec_int n \<noteq> [] \<and> (digit (hd (dec_int n)) \<or> hd (dec_int n) = CHR ''-'')"
  using dec_nat_digits [of "nat n"] by (cases "dec_nat (nat n)") (auto simp: dec_int_def)

lemma number_head: "digit c \<or> c = CHR ''-'' \<Longrightarrow> head_shape c = 3 \<and> c \<notin> set '',]}''"
proof -
  have "\<forall>x \<in> set (''ntf[{,]}'' @ [CHR 0x22]). \<not> digit x" by code_simp
  moreover assume "digit c \<or> c = CHR ''-''"
  ultimately have "c \<notin> set (''ntf[{,]}'' @ [CHR 0x22])" by auto
  then show ?thesis by (simp add: head_shape_def)
qed

lemma stringify_head:
  assumes "plain j"
  shows "opens (stringify j) \<and> head_shape (hd (stringify j)) = shape j"
proof (cases j)
  case (JNum n)
  then show ?thesis using dec_int_head [of n] number_head by (simp add: opens_def)
qed (use assms in \<open>auto simp: opens_def head_shape_def quote_def\<close>)

lemma same_shape:
  assumes "stringify j @ r = stringify i @ q" "plain j" "plain i"
  shows "shape j = shape i"
proof -
  have "hd (stringify j) = hd (stringify i)"
    using assms(1) stringify_head [OF assms(2)] stringify_head [OF assms(3)]
    by (metis hd_append2 opens_def)
  then show ?thesis using stringify_head [OF assms(2)] stringify_head [OF assms(3)] by metis
qed

lemma readable_member:
  assumes "readable stringify (Collect plain) v"
  shows "readable (\<lambda>(k, v). quote k @ '':'' @ stringify v) {kv. plain (snd kv)} (k, v)"
  unfolding readable_def
proof (intro ballI allI impI)
  fix y r q assume y: "y \<in> {kv. plain (snd kv)}" and d: "delimited r" "delimited q"
    and e: "(case (k, v) of (k, v) \<Rightarrow> quote k @ '':'' @ stringify v) @ r
      = (case y of (k, v) \<Rightarrow> quote k @ '':'' @ stringify v) @ q"
  obtain k' v' where kv: "y = (k', v')" by (cases y)
  have "quote k @ '':'' @ stringify v @ r = quote k' @ '':'' @ stringify v' @ q" using e kv by simp
  from quote_read [OF this] have "k = k'" "stringify v @ r = stringify v' @ q" by simp_all
  then show "(k, v) = y \<and> r = q" using readableD [OF assms] d y kv by auto
qed

lemma stringify_readable: "plain j \<Longrightarrow> readable stringify (Collect plain) j"
proof (induction j)
  case (JNum n)
  show ?case unfolding readable_def
  proof (intro ballI allI impI)
    fix i r q assume i: "i \<in> Collect plain" and e: "stringify (JNum n) @ r = stringify i @ q" and d: "delimited r" "delimited q"
    obtain m where "i = JNum m" using same_shape [OF e] i by (cases i) (auto split: if_splits)
    with e d dec_int_read [of n r m q] show "JNum n = i \<and> r = q" by simp
  qed
next
  case (JStr s)
  show ?case unfolding readable_def
  proof (intro ballI allI impI)
    fix i r q assume i: "i \<in> Collect plain" and e: "stringify (JStr s) @ r = stringify i @ q" and d: "delimited r" "delimited q"
    obtain t where "i = JStr t" using same_shape [OF e] i by (cases i) (auto split: if_splits)
    with e quote_read [of s r t q] show "JStr s = i \<and> r = q" by simp
  qed
next
  case (JArr xs)
  show ?case unfolding readable_def
  proof (intro ballI allI impI)
    fix i r q assume i: "i \<in> Collect plain" and e: "stringify (JArr xs) @ r = stringify i @ q" and d: "delimited r" "delimited q"
    obtain ys where ys: "i = JArr ys" using same_shape [OF e] i JArr.prems by (cases i) (auto split: if_splits)
    have "xs = ys \<and> r = q"
      by (rule join_read [where f = stringify and S = "Collect plain" and c = "CHR '']''"])
        (use JArr i ys e stringify_head in \<open>auto simp: list_all_iff\<close>)
    then show "JArr xs = i \<and> r = q" using ys by simp
  qed
next
  case (JObj kvs)
  show ?case unfolding readable_def
  proof (intro ballI allI impI)
    fix i r q assume i: "i \<in> Collect plain" and e: "stringify (JObj kvs) @ r = stringify i @ q" and d: "delimited r" "delimited q"
    obtain kws where kws: "i = JObj kws" using same_shape [OF e] i JObj.prems by (cases i) (auto split: if_splits)
    have "kvs = kws \<and> r = q"
    proof (rule join_read [where f = "\<lambda>(k, v). quote k @ '':'' @ stringify v" and S = "{kv. plain (snd kv)}" and c = "CHR ''}''"])
      show "readable (\<lambda>(k, v). quote k @ '':'' @ stringify v) {kv. plain (snd kv)} kv" if kv: "kv \<in> set kvs" for kv
      proof -
        have "plain (snd kv)" using JObj.prems kv by (auto simp: list_all_iff)
        then have "readable stringify (Collect plain) (snd kv)" using JObj.IH [OF kv, of "snd kv"] by (cases kv) auto
        then show ?thesis using readable_member [of "snd kv" "fst kv"] by simp
      qed
    qed (use i kws e in \<open>auto simp: list_all_iff opens_def quote_def\<close>)
    then show "JObj kvs = i \<and> r = q" using kws by simp
  qed
next
  case (JBool b)
  show ?case unfolding readable_def
  proof (intro ballI allI impI)
    fix i r q assume i: "i \<in> Collect plain" and e: "stringify (JBool b) @ r = stringify i @ q" and d: "delimited r" "delimited q"
    have "i = JBool b" using same_shape [OF e] i by (cases i) (auto split: if_splits)
    with e show "JBool b = i \<and> r = q" by (auto split: if_splits)
  qed
next
  case JNull
  show ?case unfolding readable_def
  proof (intro ballI allI impI)
    fix i r q assume i: "i \<in> Collect plain" and e: "stringify JNull @ r = stringify i @ q" and d: "delimited r" "delimited q"
    have "i = JNull" using same_shape [OF e] i by (cases i) (auto split: if_splits)
    with e show "JNull = i \<and> r = q" by auto
  qed
qed auto

lemma stringify_inj: "stringify j = stringify i \<Longrightarrow> plain j \<Longrightarrow> plain i \<Longrightarrow> j = i"
  using readableD [OF stringify_readable [of j], of i "[]" "[]"] by (simp add: delimited_def)

section \<open>Canonical form\<close>

lemma map_err_set: "map_err f xs = Inr ys \<Longrightarrow> y \<in> set ys \<Longrightarrow> \<exists>x \<in> set xs. f x = Inr y"
  by (induction xs arbitrary: ys) (auto split: sum.splits)

lemma sortDeep_plain: "sortDeep j = Inr w \<Longrightarrow> plain w"
proof (induction j arbitrary: w rule: sortDeep.induct)
  case (3 xs)
  then obtain ys where ys: "map_err sortDeep xs = Inr ys" "w = JArr ys" by (auto split: sum.splits)
  then have "plain y" if "y \<in> set ys" for y using map_err_set [OF ys(1) that] "3.IH" by blast
  then show ?case using ys(2) by (simp add: list_all_iff)
next
  case (4 kvs)
  show ?case
  proof (cases "map_err (\<lambda>kv. case sortDeep (snd kv) of Inl e \<Rightarrow> Inl e | Inr w \<Rightarrow> Inr (fst kv, w)) (sort_key fst kvs)")
    case (Inr ws)
    have "plain (snd kw)" if kw: "kw \<in> set ws" for kw
    proof -
      from map_err_set [OF Inr kw] obtain kv where "kv \<in> set (sort_key fst kvs)"
        "(case sortDeep (snd kv) of Inl e \<Rightarrow> Inl e | Inr w \<Rightarrow> Inr (fst kv, w)) = Inr kw" by blast
      then show ?thesis using "4.IH" [of kv] by (auto split: sum.splits)
    qed
    then show ?thesis using 4 Inr by (auto simp: list_all_iff own_order_def)
  qed (use 4 in simp)
qed auto

text \<open>Equal up to the order of members, at every depth.\<close>

inductive same_json :: "json \<Rightarrow> json \<Rightarrow> bool" where
  same_refl: "same_json j j"
| same_arr: "list_all2 same_json xs ys \<Longrightarrow> same_json (JArr xs) (JArr ys)"
| same_obj: "list_all2 (\<lambda>kv kw. fst kv = fst kw \<and> same_json (snd kv) (snd kw)) kvs kws
     \<Longrightarrow> mset kws = mset kxs \<Longrightarrow> distinct (map fst kxs) \<Longrightarrow> same_json (JObj kvs) (JObj kxs)"

lemma map_err_all2: "list_all2 (\<lambda>x y. f x = f y) xs ys \<Longrightarrow> map_err f xs = map_err f ys"
  by (induction rule: list_all2_induct) (simp_all split: sum.split)

lemma insort_all2:
  assumes "list_all2 R xs ys" "R x y" "\<And>a b. R a b \<Longrightarrow> f a = (g b :: 'k :: linorder)"
  shows "list_all2 R (insort_key f x xs) (insort_key g y ys)"
  using assms(1)
proof (induction rule: list_all2_induct)
  case (Cons a as b bs)
  then show ?case using assms(2) assms(3) [OF assms(2)] assms(3) [OF Cons.hyps(1)] by simp
qed (use assms(2) in simp)

lemma sort_all2:
  assumes "list_all2 R xs ys" "\<And>a b. R a b \<Longrightarrow> f a = (g b :: 'k :: linorder)"
  shows "list_all2 R (sort_key f xs) (sort_key g ys)"
  using assms(1) by (induction rule: list_all2_induct) (auto simp: insort_all2 [OF _ _ assms(2)])

lemma same_sortDeep: "same_json x y \<Longrightarrow> sortDeep x = sortDeep y"
proof (induction rule: same_json.induct)
  case (same_arr xs ys)
  then have "list_all2 (\<lambda>x y. sortDeep x = sortDeep y) xs ys" by (auto elim: list_all2_mono)
  then show ?case by (simp add: map_err_all2)
next
  case (same_obj kvs kws kxs)
  let ?f = "\<lambda>kv. case sortDeep (snd kv) of Inl e \<Rightarrow> Inl e | Inr w \<Rightarrow> Inr (fst kv, w)"
  have "list_all2 (\<lambda>kv kw. fst kv = fst kw \<and> sortDeep (snd kv) = sortDeep (snd kw)) kvs kws"
    using same_obj.IH by (rule list_all2_mono) blast
  then have "list_all2 (\<lambda>kv kw. fst kv = fst kw \<and> sortDeep (snd kv) = sortDeep (snd kw)) (sort_key fst kvs) (sort_key fst kws)"
    by (rule sort_all2) simp
  then have "map_err ?f (sort_key fst kvs) = map_err ?f (sort_key fst kws)"
    by (intro map_err_all2, elim list_all2_mono) (simp split: sum.split)
  moreover have "sort_key fst kws = sort_key fst kxs"
    using same_obj.hyps
    by (intro sort_key_eq_sort_key) (auto simp: distinct_map dest: mset_eq_setD)
  ultimately show ?case by simp
qed simp

text \<open>C20. Two values that differ only in the order of object members, at any depth, have the same canonical
  text, so the digest of an evidence step does not depend on how its object was built.\<close>

theorem canonical_order_independent:
  assumes "same_json x y"
  shows "canonicalJson x = canonicalJson y"
  using same_sortDeep [OF assms] by (simp add: canonicalJson_def)

theorem canonical_order_independent_witness:
  "canonicalJson (JObj [(''b'', JNum 1), (''a'', JArr [JNull])]) = canonicalJson (JObj [(''a'', JArr [JNull]), (''b'', JNum 1)])"
proof (rule canonical_order_independent, rule same_obj)
  show "list_all2 (\<lambda>kv kw. fst kv = fst kw \<and> same_json (snd kv) (snd kw))
      [(''b'', JNum 1), (''a'', JArr [JNull])] [(''b'', JNum 1), (''a'', JArr [JNull])]"
    by (simp add: same_refl)
qed simp_all

text \<open>Conversely the text determines the sorted value.\<close>

lemma canonical_injective:
  assumes "canonicalJson x = Inr s" "canonicalJson y = Inr s"
  shows "sortDeep x = sortDeep y"
proof -
  obtain v w where "sortDeep x = Inr v" "sortDeep y = Inr w" "stringify v = s" "stringify w = s"
    using assms by (auto simp: canonicalJson_def split: sum.splits)
  then show ?thesis using stringify_inj sortDeep_plain by metis
qed

text \<open>A member called \<^verbatim>\<open>__proto__\<close> is the exception: it never reaches the text.\<close>

lemma proto_member_is_dropped:
  "canonicalJson (JObj [(''__proto__'', JNum 1)]) = canonicalJson (JObj [])"
  by code_simp

lemma sortDeep_total: "plain j \<Longrightarrow> \<exists>w. sortDeep j = Inr w"
proof (induction j rule: sortDeep.induct)
  case (3 xs)
  then obtain ys where "map_err sortDeep xs = Inr ys"
    using map_err_total [of xs sortDeep] by (auto simp: list_all_iff)
  then show ?case by simp
next
  case (4 kvs)
  let ?f = "\<lambda>kv. case sortDeep (snd kv) of Inl e \<Rightarrow> Inl e | Inr w \<Rightarrow> Inr (fst kv, w)"
  have "\<exists>y. ?f kv = Inr y" if "kv \<in> set (sort_key fst kvs)" for kv
    using "4.IH" [OF that] "4.prems" that by (auto simp: list_all_iff)
  then obtain ws where "map_err ?f (sort_key fst kvs) = Inr ws" using map_err_total [of _ ?f] by blast
  then show ?case by simp
qed auto

text \<open>The members of a canonical object, by name.\<close>

lemma map_err_members:
  "map_err (\<lambda>kv. case g (snd kv) of Inl e \<Rightarrow> Inl e | Inr w \<Rightarrow> Inr (fst kv, w)) kvs = Inr ws
     \<Longrightarrow> map fst ws = map fst kvs \<and> (\<forall>k v. map_of kvs k = Some v \<longrightarrow> (\<exists>w. g v = Inr w \<and> map_of ws k = Some w))"
proof (induction kvs arbitrary: ws)
  case (Cons kv kvs)
  obtain w zs where z: "g (snd kv) = Inr w" "ws = (fst kv, w) # zs"
    "map_err (\<lambda>kv. case g (snd kv) of Inl e \<Rightarrow> Inl e | Inr w \<Rightarrow> Inr (fst kv, w)) kvs = Inr zs"
    using Cons.prems by (auto split: sum.splits)
  show ?case using Cons.IH [OF z(3)] z(1,2) by (cases kv) auto
qed simp

lemma own_order_get:
  assumes "distinct (map fst ws)"
  shows "map_of (own_order ws) k = map_of ws k"
proof -
  have set: "set (own_order ws) = set ws" by (auto simp: own_order_def)
  have "map fst (own_order ws) = map fst (sort_key (index_value \<circ> fst) (filter (index_key \<circ> fst) ws))
      @ map fst (filter (Not \<circ> index_key \<circ> fst) ws)" by (simp add: own_order_def)
  moreover have "distinct (map fst (sort_key (index_value \<circ> fst) (filter (index_key \<circ> fst) ws)))"
    using assms by (simp add: distinct_map inj_on_def)
  moreover have "distinct (map fst (filter (Not \<circ> index_key \<circ> fst) ws))"
    using assms by (simp add: distinct_map inj_on_def)
  ultimately have d: "distinct (map fst (own_order ws))" by auto
  show ?thesis using set d assms by (metis map_of_eq_Some_iff not_None_eq)
qed

lemma sortDeep_obj_get:
  assumes "sortDeep (JObj kvs) = Inr j" "distinct (map fst kvs)" "k \<noteq> ''__proto__''" "map_of kvs k = Some v"
  shows "\<exists>ws w. j = JObj ws \<and> sortDeep v = Inr w \<and> map_of ws k = Some w"
proof -
  let ?f = "\<lambda>kv. case sortDeep (snd kv) of Inl e \<Rightarrow> Inl e | Inr w \<Rightarrow> Inr (fst kv, w)"
  obtain ws where ws: "map_err ?f (sort_key fst kvs) = Inr ws"
    "j = JObj (own_order (filter (\<lambda>kw. fst kw \<noteq> ''__proto__'') ws))"
    using assms(1) by (auto split: sum.splits)
  have d: "distinct (map fst (sort_key fst kvs))" using assms(2) by (simp add: distinct_map)
  have "map_of (sort_key fst kvs) k = Some v" using assms(2,4) d by (simp add: map_of_eq_Some_iff)
  then obtain w where w: "sortDeep v = Inr w" "map_of ws k = Some w"
    using map_err_members [where g = sortDeep, OF ws(1)] by blast
  have dw: "distinct (map fst ws)" using map_err_members [where g = sortDeep, OF ws(1)] d by simp
  then have df: "distinct (map fst (filter (\<lambda>kw. fst kw \<noteq> ''__proto__'') ws))" by (simp add: distinct_map inj_on_def)
  have "map_of (filter (\<lambda>kw. fst kw \<noteq> ''__proto__'') ws) k = Some w"
    using w(2) dw df assms(3) by (simp add: map_of_eq_Some_iff)
  then show ?thesis using ws(2) w(1) own_order_get [OF df] by auto
qed

lemma same_member:
  assumes "sortDeep (JObj kvs) = sortDeep (JObj kws)" "sortDeep (JObj kvs) = Inr j" "distinct (map fst kvs)" "distinct (map fst kws)"
    and "k \<noteq> ''__proto__''" "map_of kvs k = Some v" "map_of kws k = Some u"
  shows "sortDeep v = sortDeep u"
proof -
  obtain ws w where "j = JObj ws" "sortDeep v = Inr w" "map_of ws k = Some w"
    using sortDeep_obj_get [OF assms(2,3,5,6)] by blast
  moreover obtain ws' w' where "j = JObj ws'" "sortDeep u = Inr w'" "map_of ws' k = Some w'"
    using sortDeep_obj_get [of kws j k u] assms by auto
  ultimately show ?thesis by simp
qed

lemma same_array:
  assumes "sortDeep (JArr xs) = sortDeep (JArr ys)" "sortDeep (JArr xs) = Inr j"
  shows "list_all2 (\<lambda>x y. sortDeep x = sortDeep y) xs ys"
proof -
  obtain zs where "map_err sortDeep xs = Inr zs" "map_err sortDeep ys = Inr zs"
    using assms by (auto split: sum.splits)
  then show ?thesis using map_err_nth [of sortDeep xs zs] map_err_nth [of sortDeep ys zs]
    by (auto simp: list_all2_conv_all_nth)
qed

lemma same_members:
  assumes "sortDeep (JObj kvs) = sortDeep (JObj kws)" "plain (JObj kvs)"
    and "map fst kvs = map fst kws" "distinct (map fst kvs)" "''__proto__'' \<notin> set (map fst kvs)"
  shows "list_all2 (\<lambda>a b. sortDeep (snd a) = sortDeep (snd b)) kvs kws"
proof -
  obtain j where j: "sortDeep (JObj kvs) = Inr j" using sortDeep_total [OF assms(2)] by blast
  have len: "length kvs = length kws" using assms(3) by (metis length_map)
  have "sortDeep (snd (kvs ! i)) = sortDeep (snd (kws ! i))" if i: "i < length kvs" for i
  proof (rule same_member [OF assms(1) j assms(4)])
    have e: "fst (kvs ! i) = fst (kws ! i)" using assms(3) i len by (metis nth_map)
    show "distinct (map fst kws)" using assms(3,4) by simp
    show "fst (kvs ! i) \<noteq> ''__proto__''" using assms(5) i by (metis nth_mem length_map nth_map)
    show "map_of kvs (fst (kvs ! i)) = Some (snd (kvs ! i))" using assms(4) i by (simp add: map_of_eq_Some_iff)
    show "map_of kws (fst (kvs ! i)) = Some (snd (kws ! i))" using assms(3,4) i len e by (simp add: map_of_eq_Some_iff)
  qed
  then show ?thesis using len by (simp add: list_all2_conv_all_nth)
qed

end
