(* ===== verification/Roster.thy ===== *)
theory Roster
  imports Attrs
begin

text \<open>
  The epoch roster, \<^verbatim>\<open>pipeline/roster.ts\<close>: a positional Merkle tree over keys in sorted order with
  a sentinel at each end, proofs of membership and proofs of absence. \<^verbatim>\<open>ethers\<close> is a parameter;
  what is assumed of its hash is the shape of its output and, for soundness, that it does not
  collide on the finitely many preimages of the tree and the proof at hand.
\<close>

section \<open>Keys, marks and nodes\<close>

record crypto =
  keccak :: "string \<Rightarrow> string"
  encodeKey :: "string \<Rightarrow> string \<Rightarrow> string"
  encodeMark :: "string \<Rightarrow> string \<Rightarrow> string \<Rightarrow> string \<Rightarrow> string option"
  address_of :: "string \<Rightarrow> string option"

record roster_entry =
  re_subject :: string
  re_attrs :: string
  re_claimsRoot :: string
  re_evidenceHash :: string
  re_issuer :: string

datatype roster_error =
    InvalidAddress | InvalidBytes32 | InvalidLeafCount | DuplicateSubject | SentinelCollision
  | IndexOutOfRange | TargetPresent | OutsideSentinels

definition subjectKey :: "crypto \<Rightarrow> string \<Rightarrow> string \<Rightarrow> roster_error + string" where
  "subjectKey C ns s = (case address_of C s of None \<Rightarrow> Inl InvalidAddress
     | Some a \<Rightarrow> Inr (keccak C (encodeKey C ns a)))"

definition markHash :: "crypto \<Rightarrow> roster_entry \<Rightarrow> roster_error + string" where
  "markHash C e = (case address_of C (re_issuer e) of None \<Rightarrow> Inl InvalidAddress
     | Some a \<Rightarrow> (case encodeMark C (re_attrs e) (re_claimsRoot e) (re_evidenceHash e) a of
         None \<Rightarrow> Inl InvalidBytes32 | Some m \<Rightarrow> Inr (keccak C m)))"

text \<open>\<^verbatim>\<open>solidityPacked(['bytes1', 'bytes32', 'bytes32'], ...)\<close>: the bytes, so the letter case of the
  arguments does not matter.\<close>

definition packed3 :: "string \<Rightarrow> string \<Rightarrow> string \<Rightarrow> string" where
  "packed3 tag a b = tag @ drop 2 (to_lower a) @ drop 2 (to_lower b)"

definition leaf_preimage :: "string \<Rightarrow> string \<Rightarrow> string" where
  "leaf_preimage key mark = packed3 ''0x00'' key mark"

definition node_preimage :: "string \<Rightarrow> string \<Rightarrow> string" where
  "node_preimage l r = packed3 ''0x01'' l r"

definition root_preimage :: "int \<Rightarrow> string \<Rightarrow> string" where
  "root_preimage n r = ''0x02'' @ hex_digits 64 (nat n) @ drop 2 (to_lower r)"

definition leafOf :: "crypto \<Rightarrow> string \<Rightarrow> string \<Rightarrow> roster_error + string" where
  "leafOf C key mark = (if is_hash key \<and> is_hash mark then Inr (keccak C (leaf_preimage key mark))
     else Inl InvalidBytes32)"

definition hashNode :: "crypto \<Rightarrow> string \<Rightarrow> string \<Rightarrow> roster_error + string" where
  "hashNode C l r = (if is_hash l \<and> is_hash r then Inr (keccak C (node_preimage l r)) else Inl InvalidBytes32)"

definition rosterRoot :: "crypto \<Rightarrow> string \<Rightarrow> int \<Rightarrow> roster_error + string" where
  "rosterRoot C r n = (if \<not> safe_integer n \<or> n < 2 then Inl InvalidLeafCount
     else if is_hash r then Inr (keccak C (root_preimage n r)) else Inl InvalidBytes32)"

section \<open>The tree\<close>

definition MIN_KEY :: string where
  "MIN_KEY = ''0x'' @ replicate 64 CHR ''0''"

definition MAX_KEY :: string where
  "MAX_KEY = ''0x'' @ replicate 64 CHR ''f''"

definition SENTINEL_MARK :: string where
  "SENTINEL_MARK = ''0x'' @ replicate 64 CHR ''0''"

record roster_tree =
  t_entries :: "roster_entry list"
  t_keys :: "string list"
  t_marks :: "string list"
  t_leaves :: "string list"
  t_layers :: "string list list"
  t_root :: string

fun adjacent_equal :: "'a list \<Rightarrow> bool" where
  "adjacent_equal (a # b # r) = (a = b \<or> adjacent_equal (b # r))"
| "adjacent_equal _ = False"

text \<open>The next layer; an odd tail is paired with itself, keeping its position.\<close>

fun level_up :: "crypto \<Rightarrow> string list \<Rightarrow> roster_error + string list" where
  "level_up C [] = Inr []"
| "level_up C [a] = (case hashNode C a a of Inl e \<Rightarrow> Inl e | Inr x \<Rightarrow> Inr [x])"
| "level_up C (a # b # r) = (case hashNode C a b of Inl e \<Rightarrow> Inl e
     | Inr x \<Rightarrow> (case level_up C r of Inl e \<Rightarrow> Inl e | Inr xs \<Rightarrow> Inr (x # xs)))"

lemma level_up_length: "level_up C xs = Inr ys \<Longrightarrow> length ys = (length xs + 1) div 2"
  by (induction C xs arbitrary: ys rule: level_up.induct) (auto split: sum.splits)

function layers_from :: "crypto \<Rightarrow> string list \<Rightarrow> roster_error + string list list" where
  "layers_from C ls = (if length ls > 1
     then (case level_up C ls of Inl e \<Rightarrow> Inl e
       | Inr up \<Rightarrow> (case layers_from C up of Inl e \<Rightarrow> Inl e | Inr r \<Rightarrow> Inr (ls # r)))
     else Inr [ls])"
  by pat_completeness auto
termination
  by (relation "measure (\<lambda>(C, ls). length ls)") (auto dest: level_up_length)

declare layers_from.simps [simp del]

definition buildRoster :: "crypto \<Rightarrow> string \<Rightarrow> roster_entry list \<Rightarrow> roster_error + roster_tree" where
  "buildRoster C ns entries =
     (case map_err (\<lambda>e. case subjectKey C ns (re_subject e) of Inl x \<Rightarrow> Inl x | Inr k \<Rightarrow> Inr (e, k)) entries of
        Inl x \<Rightarrow> Inl x
      | Inr withKeys0 \<Rightarrow>
        let withKeys = sort_key snd withKeys0 in
        if adjacent_equal (map snd withKeys) then Inl DuplicateSubject
        else if list_ex (\<lambda>(e, k). k = MIN_KEY \<or> k = MAX_KEY) withKeys then Inl SentinelCollision
        else case map_err (markHash C) (map fst withKeys) of Inl x \<Rightarrow> Inl x
        | Inr ms \<Rightarrow>
          let keys = MIN_KEY # map snd withKeys @ [MAX_KEY]; marks = SENTINEL_MARK # ms @ [SENTINEL_MARK] in
          case map_err (\<lambda>(k, m). leafOf C k m) (zip keys marks) of Inl x \<Rightarrow> Inl x
          | Inr leaves \<Rightarrow>
            (case layers_from C leaves of Inl x \<Rightarrow> Inl x
             | Inr layers \<Rightarrow>
               (case rosterRoot C (hd (last layers)) (int (length leaves)) of Inl x \<Rightarrow> Inl x
                | Inr root \<Rightarrow> Inr \<lparr>t_entries = map fst withKeys, t_keys = keys, t_marks = marks,
                    t_leaves = leaves, t_layers = layers, t_root = root\<rparr>)))"

section \<open>Membership\<close>

record inclusion_proof =
  ip_index :: int
  ip_leafCount :: int
  ip_siblings :: "string list"

fun siblings_from :: "string list list \<Rightarrow> nat \<Rightarrow> string list" where
  "siblings_from (layer # next # r) idx =
     (let pair = (if even idx then idx + 1 else idx - 1) in
      (if pair < length layer then layer ! pair else layer ! idx) # siblings_from (next # r) (idx div 2))"
| "siblings_from _ idx = []"

definition inclusionProof :: "roster_tree \<Rightarrow> int \<Rightarrow> roster_error + inclusion_proof" where
  "inclusionProof t i =
     (if \<not> safe_integer i \<or> i < 0 \<or> i \<ge> int (length (t_leaves t)) then Inl IndexOutOfRange
      else Inr \<lparr>ip_index = i, ip_leafCount = int (length (t_leaves t)), ip_siblings = siblings_from (t_layers t) (nat i)\<rparr>)"

text \<open>The loop of \<^verbatim>\<open>verifyInclusion\<close>: the accumulated hash at the top, or \<^verbatim>\<open>false\<close>.\<close>

fun climb :: "crypto \<Rightarrow> string \<Rightarrow> int \<Rightarrow> int \<Rightarrow> string list \<Rightarrow> roster_error + (string \<times> int \<times> int) option" where
  "climb C acc idx width [] = Inr (Some (acc, idx, width))"
| "climb C acc idx width (s # r) =
     (if width \<le> 1 then Inr None
      else let pair = (if even idx then idx + 1 else idx - 1) in
        if pair \<ge> width \<and> to_lower s \<noteq> to_lower acc then Inr None
        else case (if even idx then hashNode C acc s else hashNode C s acc) of
          Inl e \<Rightarrow> Inl e
        | Inr acc' \<Rightarrow> climb C acc' (idx div 2) ((width + 1) div 2) r)"

definition verifyInclusion :: "crypto \<Rightarrow> string \<Rightarrow> string \<Rightarrow> inclusion_proof \<Rightarrow> roster_error + bool" where
  "verifyInclusion C root leaf p =
     (if \<not> safe_integer (ip_index p) \<or> \<not> safe_integer (ip_leafCount p) \<or> ip_leafCount p < 2 \<or> ip_index p < 0
        \<or> ip_index p \<ge> ip_leafCount p \<or> length (ip_siblings p) > 256 then Inr False
      else case climb C leaf (ip_index p) (ip_leafCount p) (ip_siblings p) of
        Inl e \<Rightarrow> Inl e
      | Inr None \<Rightarrow> Inr False
      | Inr (Some (acc, idx, width)) \<Rightarrow>
          if width = 1 \<and> idx = 0
          then (case rosterRoot C acc (ip_leafCount p) of Inl e \<Rightarrow> Inl e
                | Inr r \<Rightarrow> Inr (to_lower r = to_lower root))
          else Inr False)"

section \<open>Absence\<close>

record non_inclusion_proof =
  np_left :: inclusion_proof
  np_leftKey :: string
  np_leftMark :: string
  np_right :: inclusion_proof
  np_rightKey :: string
  np_rightMark :: string

fun find_index :: "('a \<Rightarrow> bool) \<Rightarrow> 'a list \<Rightarrow> nat option" where
  "find_index P [] = None"
| "find_index P (x # xs) = (if P x then Some 0 else map_option Suc (find_index P xs))"

definition nonInclusionProof :: "crypto \<Rightarrow> roster_tree \<Rightarrow> string \<Rightarrow> string \<Rightarrow> roster_error + non_inclusion_proof" where
  "nonInclusionProof C t target ns =
     (case subjectKey C ns target of Inl e \<Rightarrow> Inl e
      | Inr tk \<Rightarrow>
        if tk \<in> set (t_keys t) then Inl TargetPresent
        else case find_index (\<lambda>k. k > tk) (t_keys t) of
          None \<Rightarrow> Inl OutsideSentinels
        | Some 0 \<Rightarrow> Inl OutsideSentinels
        | Some (Suc lo) \<Rightarrow>
            (case inclusionProof t (int lo) of Inl e \<Rightarrow> Inl e
             | Inr l \<Rightarrow> (case inclusionProof t (int (Suc lo)) of Inl e \<Rightarrow> Inl e
               | Inr r \<Rightarrow> Inr \<lparr>np_left = l, np_leftKey = t_keys t ! lo, np_leftMark = t_marks t ! lo,
                   np_right = r, np_rightKey = t_keys t ! Suc lo, np_rightMark = t_marks t ! Suc lo\<rparr>)))"

definition canonicalBytes32 :: "string \<Rightarrow> string option" where
  "canonicalBytes32 s = (if is_hash s then Some (to_lower s) else None)"

definition verifyNonInclusion ::
  "crypto \<Rightarrow> string \<Rightarrow> string \<Rightarrow> non_inclusion_proof \<Rightarrow> string \<Rightarrow> roster_error + bool" where
  "verifyNonInclusion C root target p ns =
     (case subjectKey C ns target of Inl e \<Rightarrow> Inl e
      | Inr tk \<Rightarrow>
        (case (canonicalBytes32 (np_leftKey p), canonicalBytes32 (np_rightKey p)) of
           (Some leftKey, Some rightKey) \<Rightarrow>
             if \<not> (leftKey < tk \<and> tk < rightKey) then Inr False
             else if ip_index (np_right p) \<noteq> ip_index (np_left p) + 1 then Inr False
             else if ip_leafCount (np_left p) \<noteq> ip_leafCount (np_right p)
               \<or> length (ip_siblings (np_left p)) \<noteq> length (ip_siblings (np_right p)) then Inr False
             else (case leafOf C leftKey (np_leftMark p) of Inl e \<Rightarrow> Inl e
               | Inr leftLeaf \<Rightarrow> (case leafOf C rightKey (np_rightMark p) of Inl e \<Rightarrow> Inl e
                 | Inr rightLeaf \<Rightarrow> (case verifyInclusion C root leftLeaf (np_left p) of Inl e \<Rightarrow> Inl e
                   | Inr False \<Rightarrow> Inr False
                   | Inr True \<Rightarrow> verifyInclusion C root rightLeaf (np_right p))))
         | _ \<Rightarrow> Inr False))"

section \<open>Layers\<close>

text \<open>What the documentation of \<^verbatim>\<open>ethers.keccak256\<close> promises: 32 bytes in lower-case hexadecimal.\<close>

definition keccak_ok :: "crypto \<Rightarrow> bool" where
  "keccak_ok C \<longleftrightarrow> (\<forall>x. is_lower_hex 64 (keccak C x))"

abbreviation all_lower :: "string list \<Rightarrow> bool" where
  "all_lower xs \<equiv> (\<forall>x \<in> set xs. is_lower_hex 64 x)"

definition right_of :: "string list \<Rightarrow> nat \<Rightarrow> string" where
  "right_of xs k = (if 2 * k + 1 < length xs then xs ! (2 * k + 1) else xs ! (2 * k))"

lemma keccak_hash: "keccak_ok C \<Longrightarrow> is_lower_hex 64 (keccak C x)" "keccak_ok C \<Longrightarrow> is_hash (keccak C x)"
  by (auto simp: keccak_ok_def intro: is_lower_hex_is_hex)

lemma level_up_total: "all_lower xs \<Longrightarrow> \<exists>ys. level_up C xs = Inr ys"
  by (induction C xs rule: level_up.induct) (auto simp: hashNode_def is_lower_hex_is_hex)

lemma level_up_nth:
  "level_up C xs = Inr ys \<Longrightarrow> k < length ys \<Longrightarrow> ys ! k = keccak C (node_preimage (xs ! (2 * k)) (right_of xs k))"
proof (induction C xs arbitrary: ys k rule: level_up.induct)
  case (3 C a b r)
  then show ?case
    by (cases k) (auto simp: hashNode_def right_of_def split: sum.splits if_splits)
qed (auto simp: hashNode_def right_of_def split: if_splits)

lemma level_up_lower: "keccak_ok C \<Longrightarrow> level_up C xs = Inr ys \<Longrightarrow> all_lower ys"
  using level_up_nth [of C xs ys] by (metis in_set_conv_nth keccak_hash(1))

lemma layers_from_cases:
  assumes "layers_from C ls = Inr layers"
  obtains "length ls \<le> 1" "layers = [ls]"
  | up r where "length ls > 1" "level_up C ls = Inr up" "layers_from C up = Inr r" "layers = ls # r"
  using assms by (subst (asm) layers_from.simps) (auto split: if_splits sum.splits)

lemma layers_from_hd: "layers_from C ls = Inr layers \<Longrightarrow> layers \<noteq> [] \<and> hd layers = ls"
  by (erule layers_from_cases) auto

lemma layers_from_total: "keccak_ok C \<Longrightarrow> all_lower ls \<Longrightarrow> \<exists>layers. layers_from C ls = Inr layers"
proof (induction "length ls" arbitrary: ls rule: less_induct)
  case less
  show ?case
  proof (cases "length ls > 1")
    case True
    obtain up where up: "level_up C ls = Inr up" using level_up_total less.prems by blast
    have "length up < length ls" using level_up_length [OF up] True by simp
    with less.hyps [of up] less.prems(1) level_up_lower [OF less.prems(1) up] obtain r
      where "layers_from C up = Inr r" by blast
    with True up show ?thesis by (subst layers_from.simps) simp
  qed (subst layers_from.simps, simp)
qed

lemma layers_top:
  assumes "keccak_ok C" "all_lower ls" "ls \<noteq> []" "layers_from C ls = Inr layers"
  shows "is_lower_hex 64 (hd (last layers))"
  using assms
proof (induction "length ls" arbitrary: ls layers rule: less_induct)
  case less
  from less.prems(4) show ?case
  proof (rule layers_from_cases)
    assume "layers = [ls]"
    with less.prems show ?thesis by (cases ls) auto
  next
    fix up r assume u: "length ls > 1" "level_up C ls = Inr up" "layers_from C up = Inr r" "layers = ls # r"
    have "length up < length ls" "up \<noteq> []" using level_up_length [OF u(2)] u(1) by auto
    from less.hyps [OF this(1) less.prems(1) level_up_lower [OF less.prems(1) u(2)] this(2) u(3)]
    show ?thesis using u(4) layers_from_hd [OF u(3)] by simp
  qed
qed

section \<open>Climbing\<close>

definition sibling_of :: "string list \<Rightarrow> nat \<Rightarrow> string" where
  "sibling_of ls i =
     (let pair = (if even i then i + 1 else i - 1) in if pair < length ls then ls ! pair else ls ! i)"

lemma sibling_of_even: "sibling_of ls (2 * k) = right_of ls k"
  by (simp add: sibling_of_def right_of_def)

lemma sibling_of_odd: "2 * k + 1 < length ls \<Longrightarrow> sibling_of ls (2 * k + 1) = ls ! (2 * k) \<and> right_of ls k = ls ! (2 * k + 1)"
  by (simp add: sibling_of_def right_of_def)

lemma sibling_of_in: "i < length ls \<Longrightarrow> sibling_of ls i \<in> set ls"
  by (auto simp: sibling_of_def Let_def)

lemma siblings_step:
  assumes "length ls > 1" and "r \<noteq> []"
  shows "siblings_from (ls # r) i = sibling_of ls i # siblings_from r (i div 2)"
  using assms by (cases r) (simp_all add: Let_def sibling_of_def)

lemma node_of_sibling:
  assumes "i < length ls" "all_lower ls" "level_up C ls = Inr up"
  shows "(if even i then hashNode C (ls ! i) (sibling_of ls i) else hashNode C (sibling_of ls i) (ls ! i))
    = Inr (up ! (i div 2))"
proof -
  have k: "i div 2 < length up" using level_up_length [OF assms(3)] assms(1) by linarith
  have h: "is_hash (ls ! i)" "is_hash (sibling_of ls i)"
    using assms(1,2) sibling_of_in by (auto intro: is_lower_hex_is_hex)
  note up = level_up_nth [OF assms(3) k]
  show ?thesis
  proof (cases "even i")
    case True
    then obtain m where "i = 2 * m" by blast
    then show ?thesis using up h by (simp add: sibling_of_even hashNode_def)
  next
    case False
    then obtain m where m: "i = 2 * m + 1" by (elim oddE)
    then show ?thesis using up h sibling_of_odd [of m ls] assms(1) by (simp add: hashNode_def)
  qed
qed

text \<open>Completeness of the path: from any leaf, its siblings lead to the top.\<close>

lemma climb_complete:
  assumes "keccak_ok C" "all_lower ls" "i < length ls" "layers_from C ls = Inr layers"
  shows "climb C (ls ! i) (int i) (int (length ls)) (siblings_from layers i) = Inr (Some (hd (last layers), 0, 1))"
  using assms
proof (induction "length ls" arbitrary: ls i layers rule: less_induct)
  case less
  from less.prems(4) show ?case
  proof (rule layers_from_cases)
    assume "length ls \<le> 1" "layers = [ls]"
    with less.prems(3) show ?thesis by (cases ls) auto
  next
    fix up r assume u: "length ls > 1" "level_up C ls = Inr up" "layers_from C up = Inr r" "layers = ls # r"
    have len: "length up = (length ls + 1) div 2" using level_up_length [OF u(2)] .
    have k: "i div 2 < length up" using len less.prems(3) by linarith
    have guard: "\<not> ((if even (int i) then int i + 1 else int i - 1) \<ge> int (length ls)
        \<and> to_lower (sibling_of ls i) \<noteq> to_lower (ls ! i))"
      using less.prems(3) by (auto simp: sibling_of_def Let_def)
    have lt: "length up < length ls" using len u(1) by linarith
    have ih: "climb C (up ! (i div 2)) (int (i div 2)) (int (length up)) (siblings_from r (i div 2))
        = Inr (Some (hd (last r), 0, 1))"
      using less.hyps [OF lt less.prems(1) level_up_lower [OF less.prems(1) u(2)] k u(3)] .
    have r: "r \<noteq> []" using layers_from_hd [OF u(3)] by simp
    have "siblings_from layers i = sibling_of ls i # siblings_from r (i div 2)"
      unfolding u(4) by (rule siblings_step [OF u(1) r])
    moreover have "(int (length ls) + 1) div 2 = int (length up)" using len by simp
    moreover have "int i div 2 = int (i div 2)" by simp
    moreover have "(if even (int i) then hashNode C (ls ! i) (sibling_of ls i) else hashNode C (sibling_of ls i) (ls ! i))
        = Inr (up ! (i div 2))"
      using node_of_sibling [OF less.prems(3,2) u(2)] by simp
    ultimately show ?thesis
      using guard u(1,4) r ih by (simp add: Let_def)
  qed
qed


section \<open>Binding of the preimages\<close>

lemma is_lower_hex_eqI: "is_lower_hex n s \<Longrightarrow> is_lower_hex n t \<Longrightarrow> drop 2 s = drop 2 t \<Longrightarrow> s = t"
  by (metis is_lower_hex_split)

lemma packed3_bind:
  assumes "is_hash a" "is_hash b" "is_hash c" "is_hash d" "length t = length u" "packed3 t a b = packed3 u c d"
  shows "t = u" "to_lower a = to_lower c" "to_lower b = to_lower d"
proof -
  have l: "length (drop 2 (to_lower a)) = 64" "length (drop 2 (to_lower c)) = 64"
    using assms(1,3) by (simp_all add: is_hex_def)
  have e: "t = u" "drop 2 (to_lower a) = drop 2 (to_lower c)" "drop 2 (to_lower b) = drop 2 (to_lower d)"
    using assms(5,6) l by (auto simp: packed3_def)
  show "t = u" "to_lower a = to_lower c" "to_lower b = to_lower d"
    using e assms(1-4) by (auto intro!: is_lower_hex_eqI [of 64] is_hex_to_lower)
qed

lemmas node_bind = packed3_bind(2,3) [where t = "''0x01''" and u = "''0x01''", folded node_preimage_def, simplified]
lemmas leaf_bind = packed3_bind(2,3) [where t = "''0x00''" and u = "''0x00''", folded leaf_preimage_def, simplified]

text \<open>The finitely many preimages of a tree and of a path; soundness asks that the hash does not
  collide on them.\<close>

definition collision_free :: "crypto \<Rightarrow> string list \<Rightarrow> bool" where
  "collision_free C xs \<longleftrightarrow> distinct (map (keccak C) (remdups xs))"

lemma collision_freeD: "collision_free C xs \<Longrightarrow> x \<in> set xs \<Longrightarrow> y \<in> set xs \<Longrightarrow> keccak C x = keccak C y \<Longrightarrow> x = y"
  by (auto simp: collision_free_def distinct_map dest: inj_onD)

lemma collision_free_mono: "collision_free C xs \<Longrightarrow> set ys \<subseteq> set xs \<Longrightarrow> collision_free C ys"
  by (auto simp: collision_free_def distinct_map intro: inj_on_subset)

definition level_preimages :: "string list \<Rightarrow> string list" where
  "level_preimages ls = map (\<lambda>k. node_preimage (ls ! (2 * k)) (right_of ls k)) [0..<(length ls + 1) div 2]"

fun climb_preimages :: "crypto \<Rightarrow> string \<Rightarrow> int \<Rightarrow> string list \<Rightarrow> string list" where
  "climb_preimages C acc idx [] = []"
| "climb_preimages C acc idx (s # r) =
     (let p = (if even idx then node_preimage acc s else node_preimage s acc)
      in p # climb_preimages C (keccak C p) (idx div 2) r)"

text \<open>Soundness of the path: whatever leads to the top started from the leaf at that position.\<close>

lemma climb_sound:
  assumes "keccak_ok C" "all_lower ls" "ls \<noteq> []" "layers_from C ls = Inr layers"
    and "climb C acc idx (int (length ls)) sibs = Inr (Some (peak, 0, 1))"
    and "to_lower peak = hd (last layers)" "0 \<le> idx" "idx < int (length ls)"
    and "collision_free C (concat (map level_preimages layers) @ climb_preimages C acc idx sibs)"
  shows "to_lower acc = ls ! nat idx"
  using assms
proof (induction sibs arbitrary: ls layers acc idx)
  case Nil
  have "length ls = 1" using Nil.prems(5) by simp
  moreover from this have "layers = [ls]" using layers_from_cases [OF Nil.prems(4)] by fastforce
  ultimately show ?case using Nil.prems(5-8) by (cases ls) auto
next
  case (Cons s r)
  have w: "length ls > 1" using Cons.prems(5) by (auto split: if_splits)
  obtain up ly where u: "level_up C ls = Inr up" "layers_from C up = Inr ly" "layers = ls # ly"
    using w layers_from_cases [OF Cons.prems(4)] by (metis not_le)
  define p where "p = (if even idx then node_preimage acc s else node_preimage s acc)"
  have "(int (length ls) + 1) div 2 = int (length up)" using level_up_length [OF u(1)] by simp
  then have h: "is_hash acc" "is_hash s"
    and c: "climb C (keccak C p) (idx div 2) (int (length up)) r = Inr (Some (peak, 0, 1))"
    using Cons.prems(5) w by (auto simp: Let_def hashNode_def p_def split: if_splits)
  have k: "nat (idx div 2) < length up" "nat (idx div 2) = nat idx div 2"
    using Cons.prems(7,8) level_up_length [OF u(1)] by linarith+
  have ly: "ly \<noteq> []" using layers_from_hd [OF u(2)] by simp
  have "to_lower (keccak C p) = up ! nat (idx div 2)"
  proof (rule Cons.IH [OF Cons.prems(1) level_up_lower [OF Cons.prems(1) u(1)] _ u(2) c])
    show "up \<noteq> []" "0 \<le> idx div 2" "idx div 2 < int (length up)" using k Cons.prems(7) by auto
    show "to_lower peak = hd (last ly)" using Cons.prems(6) u(3) ly by simp
    show "collision_free C (concat (map level_preimages ly) @ climb_preimages C (keccak C p) (idx div 2) r)"
      by (rule collision_free_mono [OF Cons.prems(9)]) (auto simp: u(3) Let_def p_def)
  qed
  moreover define q where "q = node_preimage (ls ! (2 * (nat idx div 2))) (right_of ls (nat idx div 2))"
  ultimately have "keccak C p = keccak C q"
    using level_up_nth [OF u(1) k(1)] k(2) is_lower_hex_fixed [OF keccak_hash(1) [OF Cons.prems(1)]] by simp
  moreover have "q \<in> set (level_preimages ls)"
    using k level_up_length [OF u(1)] by (auto simp: level_preimages_def q_def)
  ultimately have pq: "p = q"
    using collision_freeD [OF Cons.prems(9), of p q] by (auto simp: u(3) Let_def p_def)
  have lo: "is_lower_hex 64 (ls ! i)" if "i < length ls" for i using Cons.prems(2) that by simp
  have i2: "2 * (nat idx div 2) < length ls" using Cons.prems(7,8) by linarith
  have q: "is_hash (ls ! (2 * (nat idx div 2)))" "is_hash (right_of ls (nat idx div 2))"
    using lo i2 by (auto simp: right_of_def intro: is_lower_hex_is_hex)
  show ?case
  proof (cases "even idx")
    case True
    then have "2 * (nat idx div 2) = nat idx" using Cons.prems(7) by (simp add: even_nat_iff)
    then show ?thesis
      using pq True node_bind(1) [OF h q] is_lower_hex_fixed [OF lo [OF i2]] by (simp add: p_def q_def)
  next
    case False
    then have j: "2 * (nat idx div 2) + 1 = nat idx"
      using Cons.prems(7) even_nat_iff [of idx] by (simp add: odd_two_times_div_two_succ)
    then have "right_of ls (nat idx div 2) = ls ! nat idx" using Cons.prems(7,8) by (simp add: right_of_def)
    then show ?thesis
      using pq False node_bind(2) [OF h(2,1) q] is_lower_hex_fixed [OF lo [of "nat idx"]] Cons.prems(7,8)
      by (simp add: p_def q_def)
  qed
qed

section \<open>What a built tree is\<close>

lemma adjacent_strict: "sorted xs \<Longrightarrow> \<not> adjacent_equal xs \<Longrightarrow> sorted_wrt (<) xs"
proof (induction xs rule: adjacent_equal.induct)
  case (1 a b r)
  then show ?case by (auto simp: less_le dest: order_antisym)
qed auto

lemma lower_hex_digit_bounds: "lower_hex_digit c \<Longrightarrow> CHR ''0'' \<le> c \<and> c \<le> CHR ''f''"
proof -
  have "\<forall>c \<in> set ''0123456789abcdef''. CHR ''0'' \<le> c \<and> c \<le> CHR ''f''" by code_simp
  then show "lower_hex_digit c \<Longrightarrow> CHR ''0'' \<le> c \<and> c \<le> CHR ''f''" by (simp only: lower_hex_digit_def)
qed

lemma digits_between:
  "list_all lower_hex_digit ds \<Longrightarrow> replicate (length ds) CHR ''0'' \<le> ds \<and> ds \<le> replicate (length ds) CHR ''f''"
proof (induction ds)
  case (Cons d ds)
  then show ?case using lower_hex_digit_bounds [of d] by (auto simp: Cons_le_Cons order.order_iff_strict)
qed simp

lemma key_between:
  assumes "is_lower_hex 64 k"
  shows "MIN_KEY \<le> k \<and> k \<le> MAX_KEY"
proof -
  obtain ds where k: "k = ''0x'' @ ds" using is_lower_hex_split [OF assms] by metis
  then have "list_all lower_hex_digit ds" "length ds = 64" using assms by (auto simp: is_lower_hex_def)
  with digits_between [of ds] show ?thesis by (simp add: k MIN_KEY_def MAX_KEY_def)
qed

lemma MIN_KEY_lower: "is_lower_hex 64 MIN_KEY" and MAX_KEY_lower: "is_lower_hex 64 MAX_KEY"
  by (simp_all add: MIN_KEY_def MAX_KEY_def is_lower_hex_def lower_hex_digit_def list_all_iff)

lemma MIN_less_MAX: "MIN_KEY < MAX_KEY"
  by (simp add: MIN_KEY_def MAX_KEY_def numeral_eq_Suc less_char_def)

definition tree_ok :: "crypto \<Rightarrow> roster_tree \<Rightarrow> bool" where
  "tree_ok C t \<longleftrightarrow>
     length (t_marks t) = length (t_keys t) \<and> length (t_leaves t) = length (t_keys t)
     \<and> (\<forall>i < length (t_keys t). is_hash (t_marks t ! i)
          \<and> t_leaves t ! i = keccak C (leaf_preimage (t_keys t ! i) (t_marks t ! i)))
     \<and> all_lower (t_keys t) \<and> sorted_wrt (<) (t_keys t)
     \<and> length (t_keys t) \<ge> 2 \<and> hd (t_keys t) = MIN_KEY \<and> last (t_keys t) = MAX_KEY
     \<and> layers_from C (t_leaves t) = Inr (t_layers t)
     \<and> safe_integer (int (length (t_leaves t)))
     \<and> t_root t = keccak C (root_preimage (int (length (t_leaves t))) (hd (last (t_layers t))))"

definition keys_of :: "crypto \<Rightarrow> string \<Rightarrow> roster_entry list \<Rightarrow> string set" where
  "keys_of C ns entries = {k. \<exists>e \<in> set entries. subjectKey C ns (re_subject e) = Inr k}"

lemma subjectKey_lower: "keccak_ok C \<Longrightarrow> subjectKey C ns s = Inr k \<Longrightarrow> is_lower_hex 64 k"
  by (auto simp: subjectKey_def keccak_hash split: option.splits)

lemma markHash_lower: "keccak_ok C \<Longrightarrow> markHash C e = Inr m \<Longrightarrow> is_lower_hex 64 m"
  by (auto simp: markHash_def keccak_hash split: option.splits)

lemma keyed_entries:
  "map_err (\<lambda>e. case subjectKey C ns (re_subject e) of Inl x \<Rightarrow> Inl x | Inr k \<Rightarrow> Inr (e, k)) entries = Inr wk
     \<Longrightarrow> map fst wk = entries \<and> snd ` set wk = keys_of C ns entries"
proof (induction entries arbitrary: wk)
  case (Cons e es)
  obtain k w where k: "subjectKey C ns (re_subject e) = Inr k"
    "map_err (\<lambda>e. case subjectKey C ns (re_subject e) of Inl x \<Rightarrow> Inl x | Inr k \<Rightarrow> Inr (e, k)) es = Inr w"
    "wk = (e, k) # w"
    using Cons.prems by (auto split: sum.splits)
  have "keys_of C ns (e # es) = insert k (keys_of C ns es)" using k(1) by (auto simp: keys_of_def)
  then show ?case using Cons.IH [OF k(2)] k(3) by simp
qed (simp add: keys_of_def)

lemma bracketed_strict:
  assumes "sorted ks" "\<not> adjacent_equal ks" "all_lower ks" "MIN_KEY \<notin> set ks" "MAX_KEY \<notin> set ks"
  shows "sorted_wrt (<) (MIN_KEY # ks @ [MAX_KEY])"
proof -
  have "MIN_KEY < k \<and> k < MAX_KEY" if "k \<in> set ks" for k
    using that assms(3-5) key_between [of k] by (auto simp: less_le)
  then show ?thesis using adjacent_strict [OF assms(1,2)] MIN_less_MAX by (simp add: sorted_wrt_append)
qed

lemma buildRoster_cases:
  assumes "buildRoster C ns entries = Inr t"
  obtains wk0 wk ms where
    "map_err (\<lambda>e. case subjectKey C ns (re_subject e) of Inl x \<Rightarrow> Inl x | Inr k \<Rightarrow> Inr (e, k)) entries = Inr wk0"
    "wk = sort_key snd wk0" "\<not> adjacent_equal (map snd wk)" "MIN_KEY \<notin> snd ` set wk" "MAX_KEY \<notin> snd ` set wk"
    "map_err (markHash C) (map fst wk) = Inr ms"
    "t_entries t = map fst wk" "t_keys t = MIN_KEY # map snd wk @ [MAX_KEY]" "t_marks t = SENTINEL_MARK # ms @ [SENTINEL_MARK]"
    "map_err (\<lambda>(k, m). leafOf C k m) (zip (t_keys t) (t_marks t)) = Inr (t_leaves t)"
    "layers_from C (t_leaves t) = Inr (t_layers t)"
    "rosterRoot C (hd (last (t_layers t))) (int (length (t_leaves t))) = Inr (t_root t)"
  using assms unfolding buildRoster_def
  by (force simp: Let_def list_ex_iff split: sum.splits if_splits)

lemma SENTINEL_hash: "is_hash SENTINEL_MARK"
  using is_lower_hex_is_hex [OF MIN_KEY_lower] by (simp add: MIN_KEY_def SENTINEL_MARK_def)

lemma buildRoster_ok:
  assumes "keccak_ok C" "buildRoster C ns entries = Inr t"
  shows "tree_ok C t" "set (t_keys t) = insert MIN_KEY (insert MAX_KEY (keys_of C ns entries))"
proof -
  from assms(2) obtain wk0 wk ms where b:
    "map_err (\<lambda>e. case subjectKey C ns (re_subject e) of Inl x \<Rightarrow> Inl x | Inr k \<Rightarrow> Inr (e, k)) entries = Inr wk0"
    "wk = sort_key snd wk0" "\<not> adjacent_equal (map snd wk)" "MIN_KEY \<notin> snd ` set wk" "MAX_KEY \<notin> snd ` set wk"
    "map_err (markHash C) (map fst wk) = Inr ms"
    "t_keys t = MIN_KEY # map snd wk @ [MAX_KEY]" "t_marks t = SENTINEL_MARK # ms @ [SENTINEL_MARK]"
    "map_err (\<lambda>(k, m). leafOf C k m) (zip (t_keys t) (t_marks t)) = Inr (t_leaves t)"
    "layers_from C (t_leaves t) = Inr (t_layers t)"
    "rosterRoot C (hd (last (t_layers t))) (int (length (t_leaves t))) = Inr (t_root t)"
    by (rule buildRoster_cases)
  have ks: "snd ` set wk = keys_of C ns entries" using keyed_entries [OF b(1)] b(2) by simp
  then show "set (t_keys t) = insert MIN_KEY (insert MAX_KEY (keys_of C ns entries))" using b(7) by auto
  have lo: "all_lower (map snd wk)"
    using ks subjectKey_lower [OF assms(1)] by (fastforce simp: keys_of_def)
  have len: "length (t_marks t) = length (t_keys t)" using map_err_nth [OF b(6)] b(7,8) by simp
  have leaf: "length (t_leaves t) = length (t_keys t)"
    "i < length (t_keys t) \<Longrightarrow> leafOf C (t_keys t ! i) (t_marks t ! i) = Inr (t_leaves t ! i)" for i
    using map_err_nth [OF b(9)] len by simp_all
  have "is_hash (t_marks t ! i) \<and> t_leaves t ! i = keccak C (leaf_preimage (t_keys t ! i) (t_marks t ! i))"
    if "i < length (t_keys t)" for i
    using leaf(2) [OF that] by (auto simp: leafOf_def split: if_splits)
  moreover have "sorted_wrt (<) (t_keys t)"
    unfolding b(7) by (rule bracketed_strict) (use b(2-5) lo in auto)
  moreover have "safe_integer (int (length (t_leaves t)))"
    "t_root t = keccak C (root_preimage (int (length (t_leaves t))) (hd (last (t_layers t))))"
    using b(11) by (auto simp: rosterRoot_def split: if_splits)
  ultimately show "tree_ok C t"
    unfolding tree_ok_def using len leaf(1) lo b(7,10) MIN_KEY_lower MAX_KEY_lower by auto
qed

text \<open>The depth of the tree is logarithmic, so that an honest path never meets the limit of 256.\<close>

lemma layers_depth: "layers_from C ls = Inr layers \<Longrightarrow> length ls \<le> 2 ^ n \<Longrightarrow> length layers \<le> n + 1"
proof (induction n arbitrary: ls layers)
  case 0
  then have "layers = [ls]" using layers_from_cases [OF 0(1)] by fastforce
  then show ?case by simp
next
  case (Suc n)
  from Suc.prems(1) show ?case
  proof (rule layers_from_cases)
    fix up r assume u: "level_up C ls = Inr up" "layers_from C up = Inr r" "layers = ls # r"
    have "length up \<le> 2 ^ n" using level_up_length [OF u(1)] Suc.prems(2) by simp
    with Suc.IH [OF u(2)] u(3) show ?thesis by simp
  qed simp
qed

lemma siblings_length: "length (siblings_from layers i) = length layers - 1"
  by (induction layers i rule: siblings_from.induct) (simp_all add: Let_def)

lemma tree_leaves_lower: "keccak_ok C \<Longrightarrow> tree_ok C t \<Longrightarrow> all_lower (t_leaves t)"
  by (metis in_set_conv_nth keccak_hash(1) tree_ok_def)

lemma inclusion_complete:
  assumes "keccak_ok C" "tree_ok C t" "i < length (t_leaves t)"
  shows "\<exists>p. inclusionProof t (int i) = Inr p \<and> ip_index p = int i \<and> ip_leafCount p = int (length (t_leaves t))
    \<and> length (ip_siblings p) = length (t_layers t) - 1
    \<and> verifyInclusion C (t_root t) (t_leaves t ! i) p = Inr True"
proof -
  have t: "layers_from C (t_leaves t) = Inr (t_layers t)" "safe_integer (int (length (t_leaves t)))"
    "length (t_leaves t) \<ge> 2"
    "t_root t = keccak C (root_preimage (int (length (t_leaves t))) (hd (last (t_layers t))))"
    using assms(2) by (auto simp: tree_ok_def)
  have lo: "all_lower (t_leaves t)" using tree_leaves_lower [OF assms(1,2)] .
  have "length (t_leaves t) \<le> 2 ^ 53" using t(2) by (simp add: safe_integer_def)
  then have d: "length (t_layers t) \<le> 54" using layers_depth [OF t(1)] by fastforce
  have peak: "is_hash (hd (last (t_layers t)))"
    using layers_top [OF assms(1) lo _ t(1)] t(3) by (metis is_lower_hex_is_hex list.size(3) not_numeral_le_zero)
  have i: "safe_integer (int i)" using t(2) assms(3) by (simp add: safe_integer_def)
  show ?thesis
    using climb_complete [OF assms(1) lo assms(3) t(1)] t(2-4) d i assms(3) peak
    by (simp add: inclusionProof_def verifyInclusion_def siblings_length rosterRoot_def)
qed

lemma root_bind:
  assumes "root_preimage n a = root_preimage m b" "is_hash a" "is_hash b" "safe_integer n" "safe_integer m" "0 \<le> n" "0 \<le> m"
  shows "n = m" "to_lower a = to_lower b"
proof -
  have e: "hex_digits 64 (nat n) = hex_digits 64 (nat m)" "drop 2 (to_lower a) = drop 2 (to_lower b)"
    using assms(1) by (simp_all add: root_preimage_def)
  have "nat n mod 16 ^ 64 = nat m mod 16 ^ 64" using e(1) by (metis hex_digits_value)
  moreover have "nat n < 16 ^ 64" "nat m < 16 ^ 64" using assms(4,5) by (simp_all add: safe_integer_def nat_less_iff)
  ultimately show "n = m" using assms(6,7) by (metis mod_less nat_eq_iff2)
  show "to_lower a = to_lower b"
    using e(2) assms(2,3) by (auto intro!: is_lower_hex_eqI [of 64] is_hex_to_lower)
qed

lemma verifyInclusion_True:
  assumes "verifyInclusion C root leaf p = Inr True"
  obtains acc where "safe_integer (ip_index p)" "safe_integer (ip_leafCount p)" "2 \<le> ip_leafCount p"
    "0 \<le> ip_index p" "ip_index p < ip_leafCount p" "is_hash acc"
    "climb C leaf (ip_index p) (ip_leafCount p) (ip_siblings p) = Inr (Some (acc, 0, 1))"
    "to_lower (keccak C (root_preimage (ip_leafCount p) acc)) = to_lower root"
  using assms unfolding verifyInclusion_def rosterRoot_def
  by (force split: if_splits sum.splits option.splits)

text \<open>Every preimage of a tree, and every preimage that checking a path computes.\<close>

definition tree_preimages :: "roster_tree \<Rightarrow> string list" where
  "tree_preimages t = map (\<lambda>(k, m). leaf_preimage k m) (zip (t_keys t) (t_marks t))
     @ concat (map level_preimages (t_layers t))
     @ [root_preimage (int (length (t_leaves t))) (hd (last (t_layers t)))]"

definition path_preimages :: "crypto \<Rightarrow> string \<Rightarrow> inclusion_proof \<Rightarrow> string list" where
  "path_preimages C leaf p = climb_preimages C leaf (ip_index p) (ip_siblings p)
     @ (case climb C leaf (ip_index p) (ip_leafCount p) (ip_siblings p) of
          Inr (Some (acc, _)) \<Rightarrow> [root_preimage (ip_leafCount p) acc] | _ \<Rightarrow> [])"

lemma inclusion_sound:
  assumes "keccak_ok C" "tree_ok C t" "verifyInclusion C (t_root t) leaf p = Inr True"
    and "collision_free C (tree_preimages t @ path_preimages C leaf p)"
  shows "ip_leafCount p = int (length (t_leaves t))" "0 \<le> ip_index p" "ip_index p < int (length (t_leaves t))"
    "to_lower leaf = t_leaves t ! nat (ip_index p)"
proof -
  from assms(3) obtain acc where v: "safe_integer (ip_index p)" "safe_integer (ip_leafCount p)" "2 \<le> ip_leafCount p"
    "0 \<le> ip_index p" "ip_index p < ip_leafCount p" "is_hash acc"
    "climb C leaf (ip_index p) (ip_leafCount p) (ip_siblings p) = Inr (Some (acc, 0, 1))"
    "to_lower (keccak C (root_preimage (ip_leafCount p) acc)) = to_lower (t_root t)"
    by (rule verifyInclusion_True)
  have t: "layers_from C (t_leaves t) = Inr (t_layers t)" "safe_integer (int (length (t_leaves t)))"
    "t_leaves t \<noteq> []"
    "t_root t = keccak C (root_preimage (int (length (t_leaves t))) (hd (last (t_layers t))))"
    using assms(2) by (auto simp: tree_ok_def)
  have lo: "all_lower (t_leaves t)" using tree_leaves_lower [OF assms(1,2)] .
  have peak: "is_lower_hex 64 (hd (last (t_layers t)))" using layers_top [OF assms(1) lo t(3,1)] .
  have "keccak C (root_preimage (ip_leafCount p) acc) = t_root t"
    using v(8) t(4) is_lower_hex_fixed [OF keccak_hash(1) [OF assms(1)]] by simp
  then have "root_preimage (ip_leafCount p) acc = root_preimage (int (length (t_leaves t))) (hd (last (t_layers t)))"
    using collision_freeD [OF assms(4), of "root_preimage (ip_leafCount p) acc"
        "root_preimage (int (length (t_leaves t))) (hd (last (t_layers t)))"] t(4) v(7)
    by (simp add: tree_preimages_def path_preimages_def)
  from root_bind [OF this v(6) is_lower_hex_is_hex [OF peak] v(2) t(2)] v(3)
  have r: "ip_leafCount p = int (length (t_leaves t))" "to_lower acc = hd (last (t_layers t))"
    using is_lower_hex_fixed [OF peak] by auto
  show "ip_leafCount p = int (length (t_leaves t))" "0 \<le> ip_index p" "ip_index p < int (length (t_leaves t))"
    using r(1) v(4,5) by auto
  have "collision_free C (concat (map level_preimages (t_layers t)) @ climb_preimages C leaf (ip_index p) (ip_siblings p))"
    by (rule collision_free_mono [OF assms(4)]) (auto simp: tree_preimages_def path_preimages_def)
  then show "to_lower leaf = t_leaves t ! nat (ip_index p)"
    using climb_sound [OF assms(1) lo t(3,1) _ r(2) v(4)] v(5,7) r(1) by simp
qed

section \<open>Absence is exactly absence\<close>

definition absence_preimages :: "crypto \<Rightarrow> non_inclusion_proof \<Rightarrow> string list" where
  "absence_preimages C p =
     (let l = leaf_preimage (to_lower (np_leftKey p)) (np_leftMark p);
          r = leaf_preimage (to_lower (np_rightKey p)) (np_rightMark p)
      in [l, r] @ path_preimages C (keccak C l) (np_left p) @ path_preimages C (keccak C r) (np_right p))"

text \<open>A leaf that is in the tree at some position has the key of that position.\<close>

lemma leaf_key_at:
  assumes "keccak_ok C" "tree_ok C t" "is_lower_hex 64 k" "is_hash m"
    and "verifyInclusion C (t_root t) (keccak C (leaf_preimage k m)) p = Inr True"
    and "collision_free C (tree_preimages t @ leaf_preimage k m # path_preimages C (keccak C (leaf_preimage k m)) p)"
  shows "0 \<le> ip_index p" "nat (ip_index p) < length (t_keys t)" "t_keys t ! nat (ip_index p) = k"
proof -
  have cf: "collision_free C (tree_preimages t @ path_preimages C (keccak C (leaf_preimage k m)) p)"
    by (rule collision_free_mono [OF assms(6)]) auto
  note inc = inclusion_sound [OF assms(1,2,5) cf]
  define i where "i = nat (ip_index p)"
  have len: "length (t_leaves t) = length (t_keys t)" "length (t_marks t) = length (t_keys t)"
    using assms(2) by (auto simp: tree_ok_def)
  have i: "i < length (t_keys t)" using inc(2,3) len(1) by (simp add: i_def nat_less_iff)
  have at: "is_lower_hex 64 (t_keys t ! i)" "is_hash (t_marks t ! i)"
    "t_leaves t ! i = keccak C (leaf_preimage (t_keys t ! i) (t_marks t ! i))"
    using assms(2) i by (auto simp: tree_ok_def)
  have "keccak C (leaf_preimage k m) = keccak C (leaf_preimage (t_keys t ! i) (t_marks t ! i))"
    using inc(4) at(3) is_lower_hex_fixed [OF keccak_hash(1) [OF assms(1)]] by (simp add: i_def)
  moreover have "leaf_preimage (t_keys t ! i) (t_marks t ! i) \<in> set (tree_preimages t)"
    using i len(2) by (force simp: tree_preimages_def set_zip)
  ultimately have "leaf_preimage k m = leaf_preimage (t_keys t ! i) (t_marks t ! i)"
    using collision_freeD [OF assms(6), of "leaf_preimage k m" "leaf_preimage (t_keys t ! i) (t_marks t ! i)"] by simp
  then have "to_lower k = to_lower (t_keys t ! i)"
    using leaf_bind(1) is_lower_hex_is_hex [OF assms(3)] assms(4) is_lower_hex_is_hex [OF at(1)] at(2) by blast
  then show "0 \<le> ip_index p" "nat (ip_index p) < length (t_keys t)" "t_keys t ! nat (ip_index p) = k"
    using inc(2) i is_lower_hex_fixed [OF assms(3)] is_lower_hex_fixed [OF at(1)] by (simp_all add: i_def)
qed

lemma strict_gap:
  assumes "sorted_wrt (<) ks" "Suc i < length ks" "ks ! i < x" "x < ks ! Suc i"
  shows "(x :: 'a :: linorder) \<notin> set ks"
proof
  assume "x \<in> set ks"
  then obtain j where j: "j < length ks" "ks ! j = x" by (auto simp: in_set_conv_nth)
  have mono: "ks ! a \<le> ks ! b" if "a \<le> b" "b < length ks" for a b
    using that sorted_wrt_nth_less [OF assms(1), of a b] by (cases "a = b") auto
  show False
  proof (cases "j \<le> i")
    case True
    then show ?thesis using mono [of j i] assms(2,3) j(2) by simp
  next
    case False
    then show ?thesis using mono [of "Suc i" j] assms(4) j by simp
  qed
qed

lemma verifyNonInclusion_True:
  assumes "verifyNonInclusion C root target p ns = Inr True"
  obtains tk where "subjectKey C ns target = Inr tk" "is_hash (np_leftKey p)" "is_hash (np_rightKey p)"
    "to_lower (np_leftKey p) < tk" "tk < to_lower (np_rightKey p)" "ip_index (np_right p) = ip_index (np_left p) + 1"
    "is_hash (np_leftMark p)" "is_hash (np_rightMark p)"
    "verifyInclusion C root (keccak C (leaf_preimage (to_lower (np_leftKey p)) (np_leftMark p))) (np_left p) = Inr True"
    "verifyInclusion C root (keccak C (leaf_preimage (to_lower (np_rightKey p)) (np_rightMark p))) (np_right p) = Inr True"
  using assms unfolding verifyNonInclusion_def canonicalBytes32_def leafOf_def
  by (auto split: sum.splits option.splits if_splits bool.splits)

text \<open>C9. Soundness of absence: whatever two neighbouring leaves a caller presents, if
  \<^verbatim>\<open>verifyNonInclusion\<close> accepts them against the root of a roster, the target's key belongs to
  no entry of that roster, unless the hash collides on the preimages at hand.\<close>

theorem absence_is_sound:
  assumes "keccak_ok C" "buildRoster C ns entries = Inr t"
    and "verifyNonInclusion C (t_root t) target p ns = Inr True"
    and "collision_free C (tree_preimages t @ absence_preimages C p)"
    and "e \<in> set entries"
  shows "subjectKey C ns (re_subject e) \<noteq> subjectKey C ns target"
proof -
  from assms(3) obtain tk where v: "subjectKey C ns target = Inr tk" "is_hash (np_leftKey p)" "is_hash (np_rightKey p)"
    "to_lower (np_leftKey p) < tk" "tk < to_lower (np_rightKey p)" "ip_index (np_right p) = ip_index (np_left p) + 1"
    "is_hash (np_leftMark p)" "is_hash (np_rightMark p)"
    "verifyInclusion C (t_root t) (keccak C (leaf_preimage (to_lower (np_leftKey p)) (np_leftMark p))) (np_left p) = Inr True"
    "verifyInclusion C (t_root t) (keccak C (leaf_preimage (to_lower (np_rightKey p)) (np_rightMark p))) (np_right p) = Inr True"
    by (rule verifyNonInclusion_True)
  note t = buildRoster_ok [OF assms(1,2)]
  note l = leaf_key_at [OF assms(1) t(1) is_hex_to_lower [OF v(2)] v(7,9)]
  note r = leaf_key_at [OF assms(1) t(1) is_hex_to_lower [OF v(3)] v(8,10)]
  have cl: "collision_free C (tree_preimages t @ leaf_preimage (to_lower (np_leftKey p)) (np_leftMark p)
      # path_preimages C (keccak C (leaf_preimage (to_lower (np_leftKey p)) (np_leftMark p))) (np_left p))"
    by (rule collision_free_mono [OF assms(4)]) (auto simp: absence_preimages_def Let_def)
  have cr: "collision_free C (tree_preimages t @ leaf_preimage (to_lower (np_rightKey p)) (np_rightMark p)
      # path_preimages C (keccak C (leaf_preimage (to_lower (np_rightKey p)) (np_rightMark p))) (np_right p))"
    by (rule collision_free_mono [OF assms(4)]) (auto simp: absence_preimages_def Let_def)
  have "nat (ip_index (np_right p)) = Suc (nat (ip_index (np_left p)))" using v(6) l(1) [OF cl] by simp
  then have "tk \<notin> set (t_keys t)"
    using strict_gap [of "t_keys t" "nat (ip_index (np_left p))" tk] t(1) l(3) [OF cl] r(2,3) [OF cr] v(4,5)
    by (simp add: tree_ok_def)
  then show ?thesis using t(2) v(1) assms(5) by (auto simp: keys_of_def)
qed

lemma find_index_Some:
  "find_index P xs = Some i \<longleftrightarrow> i < length xs \<and> P (xs ! i) \<and> (\<forall>j < i. \<not> P (xs ! j))"
proof (induction xs arbitrary: i)
  case (Cons x xs)
  show ?case
  proof (cases i)
    case 0
    then show ?thesis by auto
  next
    case (Suc m)
    have "(\<forall>j < Suc m. \<not> P ((x # xs) ! j)) \<longleftrightarrow> \<not> P x \<and> (\<forall>j < m. \<not> P (xs ! j))"
      by (auto simp: nth_Cons split: nat.splits)
    then show ?thesis using Cons.IH [of m] Suc by auto
  qed
qed simp

lemma find_index_None: "find_index P xs = None \<longleftrightarrow> (\<forall>x \<in> set xs. \<not> P x)"
  by (induction xs) auto

text \<open>The neighbours of an absent key.\<close>

lemma neighbours:
  assumes "tree_ok C t" "is_lower_hex 64 tk" "tk \<notin> set (t_keys t)"
  obtains lo where "find_index (\<lambda>k. k > tk) (t_keys t) = Some (Suc lo)" "Suc lo < length (t_keys t)"
    "t_keys t ! lo < tk" "tk < t_keys t ! Suc lo"
proof -
  have ends: "hd (t_keys t) = MIN_KEY" "last (t_keys t) = MAX_KEY" "t_keys t \<noteq> []"
    using assms(1) by (auto simp: tree_ok_def)
  then have "MIN_KEY \<in> set (t_keys t)" "MAX_KEY \<in> set (t_keys t)" by (metis hd_in_set, metis last_in_set)
  then have b: "MIN_KEY < tk" "tk < MAX_KEY" using key_between [OF assms(2)] assms(3) by (auto simp: less_le)
  then have "find_index (\<lambda>k. k > tk) (t_keys t) \<noteq> None"
    using \<open>MAX_KEY \<in> set (t_keys t)\<close> by (auto simp: find_index_None)
  then obtain i where f: "find_index (\<lambda>k. k > tk) (t_keys t) = Some i" by auto
  then have i: "i < length (t_keys t)" "tk < t_keys t ! i" "\<forall>j < i. \<not> tk < t_keys t ! j"
    by (auto simp: find_index_Some)
  have "i \<noteq> 0" using i(2) b(1) ends by (metis hd_conv_nth order.asym)
  then obtain lo where lo: "i = Suc lo" by (cases i) auto
  have "t_keys t ! lo \<noteq> tk" using assms(3) i(1) lo nth_mem [of lo "t_keys t"] by auto
  then have "t_keys t ! lo < tk" using i(3) lo by (metis lessI linorder_neqE)
  with that f i lo show ?thesis by auto
qed

text \<open>C10. Completeness of absence: for every subject whose key is not in the roster,
  \<^verbatim>\<open>nonInclusionProof\<close> produces a proof and \<^verbatim>\<open>verifyNonInclusion\<close> accepts it.\<close>

theorem absence_is_complete:
  assumes "keccak_ok C" "buildRoster C ns entries = Inr t"
    and "subjectKey C ns target = Inr tk" "tk \<notin> set (t_keys t)"
  shows "\<exists>p. nonInclusionProof C t target ns = Inr p \<and> verifyNonInclusion C (t_root t) target p ns = Inr True"
proof -
  note t = buildRoster_ok(1) [OF assms(1,2)]
  obtain lo where lo: "find_index (\<lambda>k. k > tk) (t_keys t) = Some (Suc lo)" "Suc lo < length (t_keys t)"
    "t_keys t ! lo < tk" "tk < t_keys t ! Suc lo"
    using neighbours [OF t subjectKey_lower [OF assms(1,3)] assms(4)] .
  have len: "length (t_leaves t) = length (t_keys t)" using t by (simp add: tree_ok_def)
  have at: "is_lower_hex 64 (t_keys t ! i) \<and> is_hash (t_marks t ! i)
      \<and> t_leaves t ! i = keccak C (leaf_preimage (t_keys t ! i) (t_marks t ! i))" if "i < length (t_keys t)" for i
    using t that by (simp add: tree_ok_def)
  obtain l where l: "inclusionProof t (int lo) = Inr l" "ip_index l = int lo" "ip_leafCount l = int (length (t_leaves t))"
    "length (ip_siblings l) = length (t_layers t) - 1" "verifyInclusion C (t_root t) (t_leaves t ! lo) l = Inr True"
    using inclusion_complete [OF assms(1) t, of lo] lo(2) len by auto
  obtain r where r: "inclusionProof t (int (Suc lo)) = Inr r" "ip_index r = int (Suc lo)"
    "ip_leafCount r = int (length (t_leaves t))" "length (ip_siblings r) = length (t_layers t) - 1"
    "verifyInclusion C (t_root t) (t_leaves t ! Suc lo) r = Inr True"
    using inclusion_complete [OF assms(1) t, of "Suc lo"] lo(2) len by auto
  note al = at [of lo] and ar = at [of "Suc lo"]
  have kl: "is_hash (t_keys t ! lo)" "to_lower (t_keys t ! lo) = t_keys t ! lo"
    and kr: "is_hash (t_keys t ! Suc lo)" "to_lower (t_keys t ! Suc lo) = t_keys t ! Suc lo"
    using al ar lo(2) is_lower_hex_is_hex is_lower_hex_fixed by auto
  show ?thesis
    using assms(3,4) lo l r al ar kl kr
    by (simp add: nonInclusionProof_def verifyNonInclusion_def canonicalBytes32_def leafOf_def)
qed

text \<open>C12. A roster that was built is well formed: as many marks and leaves as keys, each leaf the hash of
  its key and mark, the keys in strictly increasing order between the two sentinels and exactly
  those of the entries, the layers those of the leaves and the root bound to the leaf count.\<close>

theorem built_tree_is_well_formed:
  assumes "keccak_ok C" "buildRoster C ns entries = Inr t"
  shows "tree_ok C t \<and> set (t_keys t) = insert MIN_KEY (insert MAX_KEY (keys_of C ns entries))"
  using buildRoster_ok [OF assms] by blast

text \<open>C11. Membership: every leaf of a built roster has a proof that is accepted, and an accepted proof is
  for the leaf at its position and for the roster's leaf count unless the hash collides.\<close>

theorem membership_is_exact:
  assumes "keccak_ok C" "buildRoster C ns entries = Inr t"
  shows "(\<forall>i < length (t_leaves t).
        \<exists>p. inclusionProof t (int i) = Inr p \<and> verifyInclusion C (t_root t) (t_leaves t ! i) p = Inr True)
    \<and> (\<forall>leaf p. verifyInclusion C (t_root t) leaf p = Inr True \<and> collision_free C (tree_preimages t @ path_preimages C leaf p)
        \<longrightarrow> ip_leafCount p = int (length (t_leaves t)) \<and> to_lower leaf = t_leaves t ! nat (ip_index p))"
  using inclusion_complete [OF assms(1) buildRoster_ok(1) [OF assms]]
    inclusion_sound(1,4) [OF assms(1) buildRoster_ok(1) [OF assms]] by blast

section \<open>An example\<close>

definition sample_digit :: "char \<Rightarrow> char" where
  "sample_digit c = (if lower_hex_digit c then c else CHR ''0'')"

definition sample_keccak :: "string \<Rightarrow> string" where
  "sample_keccak x = ''0x'' @ take 64 (map sample_digit
     (take 1 (drop 3 x) @ take 31 (drop 4 x) @ take 32 (drop 68 x)) @ replicate 64 CHR ''0'')"

definition sample_crypto :: crypto where
  "sample_crypto = \<lparr>keccak = sample_keccak,
     encodeKey = (\<lambda>ns a. ns @ a), encodeMark = (\<lambda>a b c d. Some (a @ b @ c @ d)),
     address_of = (\<lambda>s. if is_hex 40 s then Some (to_lower s) else None)\<rparr>"

definition sample_entry :: "char \<Rightarrow> roster_entry" where
  "sample_entry c = \<lparr>re_subject = ''0x'' @ replicate 40 c, re_attrs = ''a'', re_claimsRoot = ''b'',
     re_evidenceHash = ''c'', re_issuer = ''0x'' @ replicate 40 CHR ''1''\<rparr>"

definition sample_entries :: "roster_entry list" where
  "sample_entries = [sample_entry CHR ''2'', sample_entry CHR ''3'']"

definition sample_tree :: roster_tree where
  "sample_tree = projr (buildRoster sample_crypto ''ns'' sample_entries)"

definition sample_target :: string where
  "sample_target = ''0x'' @ replicate 40 CHR ''7''"

definition sample_absence :: non_inclusion_proof where
  "sample_absence = projr (nonInclusionProof sample_crypto sample_tree sample_target ''ns'')"

lemma sample_crypto_ok: "keccak_ok sample_crypto"
proof -
  have "lower_hex_digit CHR ''0''" by code_simp
  then have "lower_hex_digit (sample_digit c)" for c by (simp add: sample_digit_def)
  with \<open>lower_hex_digit CHR ''0''\<close> show ?thesis
    by (auto simp: keccak_ok_def sample_crypto_def sample_keccak_def is_lower_hex_def list_all_iff dest!: in_set_takeD)
qed

lemma sample_built: "buildRoster sample_crypto ''ns'' sample_entries = Inr sample_tree"
  by code_simp

lemma sample_absence_ok:
  "verifyNonInclusion sample_crypto (t_root sample_tree) sample_target sample_absence ''ns'' = Inr True"
  by code_simp

lemma sample_collision_free:
  "collision_free sample_crypto (tree_preimages sample_tree @ absence_preimages sample_crypto sample_absence)"
  by code_simp

theorem absence_is_sound_witness:
  "subjectKey sample_crypto ''ns'' (re_subject (sample_entry CHR ''2'')) \<noteq> subjectKey sample_crypto ''ns'' sample_target"
  by (rule absence_is_sound [OF sample_crypto_ok sample_built sample_absence_ok sample_collision_free])
     (simp add: sample_entries_def)

theorem absence_is_complete_witness:
  "\<exists>p. nonInclusionProof sample_crypto sample_tree sample_target ''ns'' = Inr p
     \<and> verifyNonInclusion sample_crypto (t_root sample_tree) sample_target p ''ns'' = Inr True"
proof (rule absence_is_complete [OF sample_crypto_ok sample_built])
  show "subjectKey sample_crypto ''ns'' sample_target = Inr (projr (subjectKey sample_crypto ''ns'' sample_target))"
    by code_simp
  show "projr (subjectKey sample_crypto ''ns'' sample_target) \<notin> set (t_keys sample_tree)" by code_simp
qed

theorem built_tree_is_well_formed_witness:
  "tree_ok sample_crypto sample_tree
     \<and> set (t_keys sample_tree) = insert MIN_KEY (insert MAX_KEY (keys_of sample_crypto ''ns'' sample_entries))"
  by (rule built_tree_is_well_formed [OF sample_crypto_ok sample_built])

theorem membership_is_exact_witness:
  "(\<exists>p. inclusionProof sample_tree (int 1) = Inr p
      \<and> verifyInclusion sample_crypto (t_root sample_tree) (t_leaves sample_tree ! 1) p = Inr True)
   \<and> to_lower (t_leaves sample_tree ! 2) = t_leaves sample_tree ! nat 2"
proof -
  have n: "1 < length (t_leaves sample_tree)" by code_simp
  define p where "p = projr (inclusionProof sample_tree 2)"
  have "verifyInclusion sample_crypto (t_root sample_tree) (t_leaves sample_tree ! 2) p = Inr True
      \<and> collision_free sample_crypto (tree_preimages sample_tree @ path_preimages sample_crypto (t_leaves sample_tree ! 2) p)
      \<and> ip_index p = 2"
    unfolding p_def by code_simp
  with membership_is_exact [OF sample_crypto_ok sample_built] n show ?thesis by metis
qed

end
