(* ===== verification/Evidence.thy ===== *)
theory Evidence
  imports Canonical Roster
begin

text \<open>
  The evidence chain of \<^verbatim>\<open>pipeline/evidence.ts\<close>, the sorted-pair Merkle tree of
  \<^verbatim>\<open>pipeline/merkle.ts\<close> and the claim commitments of \<^verbatim>\<open>pipeline/claims.ts\<close>. The hash, the UTF-8
  encoder and the ABI encoder of \<^verbatim>\<open>ethers\<close> are parameters.
\<close>

section \<open>The evidence chain\<close>

definition ZeroHash :: string where
  "ZeroHash = ''0x'' @ replicate 64 CHR ''0''"

record evidence_step =
  ev_step :: string
  ev_at :: int
  ev_payload :: "(string \<times> json) list"

record evidence_chain =
  ch_steps :: "evidence_step list"
  ch_head :: string

definition step_json :: "evidence_step \<Rightarrow> json" where
  "step_json s = JObj [(''step'', JStr (ev_step s)), (''at'', JNum (ev_at s)), (''payload'', JObj (ev_payload s))]"

definition new_chain :: evidence_chain where
  "new_chain = \<lparr>ch_steps = [], ch_head = ZeroHash\<rparr>"

text \<open>\<^verbatim>\<open>append\<close> stores the step before it is serialised, so a step that cannot be serialised stays in
  the list although the call throws.\<close>

definition chain_append :: "crypto \<Rightarrow> (string \<Rightarrow> string) \<Rightarrow> evidence_step \<Rightarrow> (evidence_chain, canonical_error, string) io" where
  "chain_append C utf8 s c =
     (let pushed = c\<lparr>ch_steps := ch_steps c @ [s]\<rparr> in
      case canonicalJson (step_json s) of
        Inl e \<Rightarrow> (Inl e, pushed)
      | Inr t \<Rightarrow> let h = keccak C (ch_head c @ utf8 t) in (Inr h, pushed\<lparr>ch_head := h\<rparr>))"

definition chain_hash :: "evidence_chain \<Rightarrow> string" where
  "chain_hash c = ch_head c"

definition chain_export :: "evidence_chain \<Rightarrow> evidence_step list" where
  "chain_export c = ch_steps c"

fun recompute_from :: "crypto \<Rightarrow> (string \<Rightarrow> string) \<Rightarrow> string \<Rightarrow> evidence_step list \<Rightarrow> canonical_error + string" where
  "recompute_from C utf8 h [] = Inr h"
| "recompute_from C utf8 h (s # r) = (case canonicalJson (step_json s) of Inl e \<Rightarrow> Inl e
     | Inr t \<Rightarrow> recompute_from C utf8 (keccak C (h @ utf8 t)) r)"

definition recompute :: "crypto \<Rightarrow> (string \<Rightarrow> string) \<Rightarrow> evidence_step list \<Rightarrow> canonical_error + string" where
  "recompute C utf8 = recompute_from C utf8 ZeroHash"

definition chain_of :: "crypto \<Rightarrow> (string \<Rightarrow> string) \<Rightarrow> evidence_step list \<Rightarrow> evidence_chain" where
  "chain_of C utf8 ss = fold (\<lambda>s c. snd (chain_append C utf8 s c)) ss new_chain"

section \<open>The Merkle tree of claims\<close>

datatype claim_error = NotBytes | LeafNotFound | NoSuchClaim | BadClaim

definition is_bytes :: "string \<Rightarrow> bool" where
  "is_bytes s \<longleftrightarrow> take 2 s = ''0x'' \<and> even (length s) \<and> list_all hex_digit (drop 2 s)"

definition concat_bytes :: "string \<Rightarrow> string \<Rightarrow> string" where
  "concat_bytes a b = ''0x'' @ to_lower (drop 2 a) @ to_lower (drop 2 b)"

definition hashPair :: "crypto \<Rightarrow> string \<Rightarrow> string \<Rightarrow> claim_error + string" where
  "hashPair C a b =
     (if \<not> is_bytes a \<or> \<not> is_bytes b then Inl NotBytes
      else Inr (keccak C (if to_lower a \<le> to_lower b then concat_bytes a b else concat_bytes b a)))"

text \<open>One level: an odd tail is promoted unchanged.\<close>

fun pair_up :: "crypto \<Rightarrow> string list \<Rightarrow> claim_error + string list" where
  "pair_up C (a # b # r) = (case hashPair C a b of Inl e \<Rightarrow> Inl e
     | Inr x \<Rightarrow> (case pair_up C r of Inl e \<Rightarrow> Inl e | Inr xs \<Rightarrow> Inr (x # xs)))"
| "pair_up C xs = Inr xs"

lemma pair_up_length: "pair_up C xs = Inr ys \<Longrightarrow> length ys = (length xs + 1) div 2"
  by (induction C xs arbitrary: ys rule: pair_up.induct) (auto split: sum.splits)

function root_loop :: "crypto \<Rightarrow> string list \<Rightarrow> claim_error + string" where
  "root_loop C level = (if length level > 1
     then (case pair_up C level of Inl e \<Rightarrow> Inl e | Inr up \<Rightarrow> root_loop C up) else Inr (hd level))"
  by pat_completeness auto
termination
  by (relation "measure (\<lambda>(C, level). length level)") (auto dest: pair_up_length)

function proof_loop :: "crypto \<Rightarrow> string list \<Rightarrow> nat \<Rightarrow> claim_error + string list" where
  "proof_loop C level idx = (if length level > 1
     then (case pair_up C level of Inl e \<Rightarrow> Inl e
       | Inr up \<Rightarrow> (case proof_loop C up (idx div 2) of Inl e \<Rightarrow> Inl e
         | Inr r \<Rightarrow> let sibling = (if even idx then idx + 1 else idx - 1) in
             Inr ((if sibling < length level then [level ! sibling] else []) @ r)))
     else Inr [])"
  by pat_completeness auto
termination
  by (relation "measure (\<lambda>(C, level, idx). length level)") (auto dest: pair_up_length)

declare root_loop.simps [simp del] proof_loop.simps [simp del]

definition merkleRoot :: "crypto \<Rightarrow> string list \<Rightarrow> claim_error + string" where
  "merkleRoot C leaves = (if leaves = [] then Inr ZeroHash else root_loop C (sort leaves))"

definition merkleProof :: "crypto \<Rightarrow> string list \<Rightarrow> string \<Rightarrow> claim_error + string list" where
  "merkleProof C leaves leaf = (case find_index (\<lambda>x. x = leaf) (sort leaves) of
     None \<Rightarrow> Inl LeafNotFound | Some idx \<Rightarrow> proof_loop C (sort leaves) idx)"

fun fold_pairs :: "crypto \<Rightarrow> string \<Rightarrow> string list \<Rightarrow> claim_error + string" where
  "fold_pairs C acc [] = Inr acc"
| "fold_pairs C acc (p # r) = (case hashPair C acc p of Inl e \<Rightarrow> Inl e | Inr x \<Rightarrow> fold_pairs C x r)"

definition verifyProof :: "crypto \<Rightarrow> string \<Rightarrow> string \<Rightarrow> string list \<Rightarrow> claim_error + bool" where
  "verifyProof C root leaf p = (case fold_pairs C leaf p of Inl e \<Rightarrow> Inl e | Inr acc \<Rightarrow> Inr (to_lower acc = to_lower root))"

section \<open>Claims\<close>

record claim =
  cl_key :: string
  cl_value :: string
  cl_salt :: string

type_synonym claim_encoder = "string \<Rightarrow> string \<Rightarrow> string \<Rightarrow> string option"

definition claimLeaf :: "crypto \<Rightarrow> claim_encoder \<Rightarrow> claim \<Rightarrow> claim_error + string" where
  "claimLeaf C enc c = (case enc (cl_key c) (cl_value c) (cl_salt c) of None \<Rightarrow> Inl BadClaim | Some x \<Rightarrow> Inr (keccak C x))"

definition claimsRoot :: "crypto \<Rightarrow> claim_encoder \<Rightarrow> claim list \<Rightarrow> claim_error + string" where
  "claimsRoot C enc claims = (case map_err (claimLeaf C enc) claims of Inl e \<Rightarrow> Inl e | Inr ls \<Rightarrow> merkleRoot C ls)"

definition discloseClaim :: "crypto \<Rightarrow> claim_encoder \<Rightarrow> claim list \<Rightarrow> string \<Rightarrow> claim_error + (claim \<times> string list)" where
  "discloseClaim C enc claims key = (case find (\<lambda>c. cl_key c = key) claims of
     None \<Rightarrow> Inl NoSuchClaim
   | Some c \<Rightarrow> (case map_err (claimLeaf C enc) claims of Inl e \<Rightarrow> Inl e
     | Inr ls \<Rightarrow> (case claimLeaf C enc c of Inl e \<Rightarrow> Inl e
       | Inr l \<Rightarrow> (case merkleProof C ls l of Inl e \<Rightarrow> Inl e | Inr p \<Rightarrow> Inr (c, p)))))"

definition verifyDisclosure :: "crypto \<Rightarrow> claim_encoder \<Rightarrow> string \<Rightarrow> claim \<Rightarrow> string list \<Rightarrow> claim_error + bool" where
  "verifyDisclosure C enc root c p = (case claimLeaf C enc c of Inl e \<Rightarrow> Inl e | Inr l \<Rightarrow> verifyProof C root l p)"

section \<open>Audit of the chain\<close>

lemma recompute_from_append:
  "recompute_from C utf8 h (ss @ ts) = (case recompute_from C utf8 h ss of Inl e \<Rightarrow> Inl e | Inr g \<Rightarrow> recompute_from C utf8 g ts)"
  by (induction C utf8 h ss rule: recompute_from.induct) (auto split: sum.split)

lemma chain_of_snoc: "chain_of C utf8 (ss @ [s]) = snd (chain_append C utf8 s (chain_of C utf8 ss))"
  by (simp add: chain_of_def)

lemma chain_of_steps: "ch_steps (chain_of C utf8 ss) = ss"
  by (induction ss rule: rev_induct)
    (auto simp: chain_of_snoc chain_append_def Let_def new_chain_def chain_of_def [of C utf8 "[]"] split: sum.split)

text \<open>Auditing a chain by recomputation agrees with the running head: whatever was appended, the export
  of the chain holds every step, and recomputing it gives the chain's hash, or throws exactly
  when one of the appends threw.\<close>

theorem recompute_is_the_running_head:
  "chain_export (chain_of C utf8 ss) = ss \<and>
   recompute C utf8 (chain_export (chain_of C utf8 ss)) =
     (case map_err (\<lambda>s. canonicalJson (step_json s)) ss of
        Inl e \<Rightarrow> Inl e | Inr _ \<Rightarrow> Inr (chain_hash (chain_of C utf8 ss)))"
proof -
  have "recompute C utf8 ss = (case map_err (\<lambda>s. canonicalJson (step_json s)) ss of
        Inl e \<Rightarrow> Inl e | Inr _ \<Rightarrow> Inr (ch_head (chain_of C utf8 ss)))"
  proof (induction ss rule: rev_induct)
    case (snoc s ss)
    have "map_err f (xs @ [x]) = (case map_err f xs of Inl e \<Rightarrow> Inl e | Inr ys \<Rightarrow>
        (case f x of Inl e \<Rightarrow> Inl e | Inr y \<Rightarrow> Inr (ys @ [y])))" for f :: "evidence_step \<Rightarrow> canonical_error + string" and xs x
      by (induction xs) (auto split: sum.split)
    then show ?case using snoc
      by (auto simp: recompute_def recompute_from_append chain_of_snoc chain_append_def Let_def split: sum.splits)
  qed (simp add: recompute_def chain_of_def new_chain_def)
  then show ?thesis unfolding chain_export_def chain_hash_def chain_of_steps by simp
qed

text \<open>The preimages of a recomputation.\<close>

fun chain_preimages :: "crypto \<Rightarrow> (string \<Rightarrow> string) \<Rightarrow> string \<Rightarrow> evidence_step list \<Rightarrow> string list" where
  "chain_preimages C utf8 h [] = []"
| "chain_preimages C utf8 h (s # r) = (case canonicalJson (step_json s) of Inl e \<Rightarrow> []
     | Inr t \<Rightarrow> (h @ utf8 t) # chain_preimages C utf8 (keccak C (h @ utf8 t)) r)"

lemma chain_preimages_append:
  "recompute_from C utf8 h ss = Inr g \<Longrightarrow>
   chain_preimages C utf8 h (ss @ ts) = chain_preimages C utf8 h ss @ chain_preimages C utf8 g ts"
  by (induction C utf8 h ss rule: recompute_from.induct) (auto split: sum.splits)

lemma recompute_length:
  assumes "keccak_ok C" "recompute C utf8 ss = Inr h"
  shows "length h = 66"
proof (cases ss rule: rev_cases)
  case Nil
  then show ?thesis using assms(2) by (auto simp: recompute_def ZeroHash_def)
next
  case (snoc r s)
  then show ?thesis using assms keccak_hash(1) [OF assms(1)]
    by (auto simp: recompute_def recompute_from_append is_lower_hex_def split: sum.splits)
qed

lemma recompute_snoc:
  assumes "recompute C utf8 (ss @ [s]) = Inr h"
  obtains g t where "recompute C utf8 ss = Inr g" "canonicalJson (step_json s) = Inr t" "h = keccak C (g @ utf8 t)"
    "chain_preimages C utf8 ZeroHash (ss @ [s]) = chain_preimages C utf8 ZeroHash ss @ [g @ utf8 t]"
proof -
  obtain g t where gt: "recompute C utf8 ss = Inr g" "canonicalJson (step_json s) = Inr t" "h = keccak C (g @ utf8 t)"
    using assms by (auto simp: recompute_def recompute_from_append split: sum.splits)
  then show ?thesis using that chain_preimages_append [of C utf8 ZeroHash ss g "[s]"] by (simp add: recompute_def)
qed

lemma recompute_zero:
  assumes "recompute C utf8 ss = Inr ZeroHash" "ZeroHash \<notin> set (map (keccak C) (chain_preimages C utf8 ZeroHash ss))"
  shows "ss = []"
proof (cases ss rule: rev_cases)
  case (snoc r s)
  from assms(1) [unfolded snoc] show ?thesis by (rule recompute_snoc) (use assms(2) snoc in simp)
qed

text \<open>C16. Tamper evidence: two lists of steps with the same evidence hash have the same length and, step by
  step, the same canonical content, unless the hash collides on their preimages or one of these
  hashes to zero.\<close>

theorem evidence_hash_binds_the_steps:
  assumes "keccak_ok C" "inj utf8"
    and "recompute C utf8 ss = Inr h" "recompute C utf8 ts = Inr h"
    and "collision_free C (chain_preimages C utf8 ZeroHash ss @ chain_preimages C utf8 ZeroHash ts)"
    and "ZeroHash \<notin> set (map (keccak C) (chain_preimages C utf8 ZeroHash ss @ chain_preimages C utf8 ZeroHash ts))"
  shows "list_all2 (\<lambda>s t. sortDeep (step_json s) = sortDeep (step_json t)) ss ts"
  using assms(3-6)
proof (induction ss arbitrary: ts h rule: rev_induct)
  case Nil
  then have "ts = []" by (intro recompute_zero) (auto simp: recompute_def)
  then show ?case by simp
next
  case (snoc s ss)
  from snoc.prems(1) obtain g t where g: "recompute C utf8 ss = Inr g" "canonicalJson (step_json s) = Inr t" "h = keccak C (g @ utf8 t)"
    "chain_preimages C utf8 ZeroHash (ss @ [s]) = chain_preimages C utf8 ZeroHash ss @ [g @ utf8 t]"
    by (rule recompute_snoc)
  show ?case
  proof (cases ts rule: rev_cases)
    case Nil
    then have "ss @ [s] = []" using snoc.prems by (intro recompute_zero) (auto simp: recompute_def)
    then show ?thesis by simp
  next
    case (snoc us u)
    from snoc.prems(2) [unfolded snoc] obtain g' t' where g': "recompute C utf8 us = Inr g'" "canonicalJson (step_json u) = Inr t'"
      "h = keccak C (g' @ utf8 t')"
      "chain_preimages C utf8 ZeroHash (us @ [u]) = chain_preimages C utf8 ZeroHash us @ [g' @ utf8 t']"
      by (rule recompute_snoc)
    have "g @ utf8 t = g' @ utf8 t'"
      using collision_freeD [OF snoc.prems(3), of "g @ utf8 t" "g' @ utf8 t'"] g(3,4) g'(3,4) snoc by simp
    moreover have "length g = length g'" using recompute_length [OF assms(1) g(1)] recompute_length [OF assms(1) g'(1)] by simp
    ultimately have eq: "g = g'" "t = t'" using assms(2) by (auto dest: injD)
    have "list_all2 (\<lambda>s t. sortDeep (step_json s) = sortDeep (step_json t)) ss us"
    proof (rule snoc.IH [OF g(1)])
      show "recompute C utf8 us = Inr g" using g'(1) eq by simp
      show "collision_free C (chain_preimages C utf8 ZeroHash ss @ chain_preimages C utf8 ZeroHash us)"
        by (rule collision_free_mono [OF snoc.prems(3)]) (auto simp: g(4) g'(4) snoc)
      show "ZeroHash \<notin> set (map (keccak C) (chain_preimages C utf8 ZeroHash ss @ chain_preimages C utf8 ZeroHash us))"
        using snoc.prems(4) by (auto simp: g(4) g'(4) snoc)
    qed
    moreover have "sortDeep (step_json s) = sortDeep (step_json u)"
      using canonical_injective g(2) g'(2) eq by blast
    ultimately show ?thesis by (simp add: snoc list_all2_appendI)
  qed
qed

section \<open>Selective disclosure\<close>

lemma lower_is_bytes: "is_lower_hex 64 s \<Longrightarrow> is_bytes s"
  by (auto simp: is_lower_hex_def is_bytes_def hex_digit_def list_all_iff)

lemma hashPair_lower: "keccak_ok C \<Longrightarrow> hashPair C a b = Inr x \<Longrightarrow> is_lower_hex 64 x"
  by (auto simp: hashPair_def keccak_hash split: if_splits)

lemma hashPair_comm:
  "is_lower_hex 64 a \<Longrightarrow> is_lower_hex 64 b \<Longrightarrow> hashPair C a b = hashPair C b a"
  by (auto simp: hashPair_def lower_is_bytes is_lower_hex_fixed)

lemma pair_up_total: "all_lower xs \<Longrightarrow> \<exists>ys. pair_up C xs = Inr ys"
  by (induction C xs rule: pair_up.induct) (auto simp: hashPair_def lower_is_bytes)

lemma pair_up_lower: "keccak_ok C \<Longrightarrow> all_lower xs \<Longrightarrow> pair_up C xs = Inr ys \<Longrightarrow> all_lower ys"
  by (induction C xs arbitrary: ys rule: pair_up.induct) (auto split: sum.splits dest: hashPair_lower)

lemma pair_up_nth:
  "pair_up C xs = Inr ys \<Longrightarrow> k < length ys \<Longrightarrow>
     (if 2 * k + 1 < length xs then hashPair C (xs ! (2 * k)) (xs ! (2 * k + 1)) = Inr (ys ! k) else ys ! k = xs ! (2 * k))"
proof (induction C xs arbitrary: ys k rule: pair_up.induct)
  case (1 C a b r)
  obtain x zs where z: "hashPair C a b = Inr x" "pair_up C r = Inr zs" "ys = x # zs"
    using "1.prems"(1) by (auto split: sum.splits)
  show ?case using "1.IH" [OF z(1), of zs "k - 1"] z "1.prems"(2) by (cases k) auto
qed auto

lemma pair_up_sibling:
  assumes "keccak_ok C" "all_lower xs" "pair_up C xs = Inr ys" "i < length xs"
  defines "sib \<equiv> (if even i then i + 1 else i - 1)"
  shows "if sib < length xs then hashPair C (xs ! i) (xs ! sib) = Inr (ys ! (i div 2)) else ys ! (i div 2) = xs ! i"
proof -
  have k: "i div 2 < length ys" using pair_up_length [OF assms(3)] assms(4) by linarith
  note n = pair_up_nth [OF assms(3) k]
  show ?thesis
  proof (cases "even i")
    case True
    then obtain m where "i = 2 * m" by blast
    then show ?thesis using n by (simp add: sib_def split: if_splits)
  next
    case False
    then obtain m where m: "i = 2 * m + 1" by (elim oddE)
    then have "xs ! i \<in> set xs" "xs ! (2 * m) \<in> set xs" using assms(4) by auto
    then show ?thesis using n m assms(2,4) hashPair_comm [of "xs ! i" "xs ! (2 * m)" C] by (simp add: sib_def)
  qed
qed

text \<open>The path of a leaf folds to the root.\<close>

lemma proof_loop_complete:
  assumes "keccak_ok C" "all_lower level" "i < length level"
  shows "\<exists>p r. proof_loop C level i = Inr p \<and> root_loop C level = Inr r \<and> is_lower_hex 64 r
    \<and> fold_pairs C (level ! i) p = Inr r"
  using assms
proof (induction "length level" arbitrary: level i rule: less_induct)
  case less
  show ?case
  proof (cases "length level > 1")
    case False
    then show ?thesis using less.prems
      by (cases level) (auto simp: proof_loop.simps [of C "[_]"] root_loop.simps [of C "[_]"])
  next
    case True
    obtain up where up: "pair_up C level = Inr up" using pair_up_total less.prems(2) by blast
    have lt: "length up < length level" "i div 2 < length up"
      using pair_up_length [OF up] True less.prems(3) by linarith+
    obtain p r where ih: "proof_loop C up (i div 2) = Inr p" "root_loop C up = Inr r" "is_lower_hex 64 r"
      "fold_pairs C (up ! (i div 2)) p = Inr r"
      using less.hyps [OF lt(1) less.prems(1) pair_up_lower [OF less.prems(1,2) up] lt(2)] by blast
    define sib where "sib = (if even i then i + 1 else i - 1)"
    have "proof_loop C level i = Inr ((if sib < length level then [level ! sib] else []) @ p)"
      using True up ih(1) by (simp add: proof_loop.simps [of C level] sib_def Let_def)
    moreover have "root_loop C level = Inr r" using True up ih(2) by (simp add: root_loop.simps [of C level])
    moreover have "fold_pairs C (level ! i) ((if sib < length level then [level ! sib] else []) @ p) = Inr r"
      using pair_up_sibling [OF less.prems(1,2) up less.prems(3)] ih(4) by (simp add: sib_def split: if_splits)
    ultimately show ?thesis using ih(3) by blast
  qed
qed

lemma claimLeaf_lower: "keccak_ok C \<Longrightarrow> claimLeaf C enc c = Inr l \<Longrightarrow> is_lower_hex 64 l"
  by (auto simp: claimLeaf_def keccak_hash split: option.splits)

text \<open>C17. Selective disclosure round trip: for every claim of a list whose leaves can be encoded, disclosing
  the claim succeeds and the disclosed claim verifies against the claims root.\<close>

theorem disclosure_verifies:
  assumes "keccak_ok C" "map_err (claimLeaf C enc) claims = Inr ls" "c \<in> set claims"
  shows "\<exists>root d p. claimsRoot C enc claims = Inr root \<and> discloseClaim C enc claims (cl_key c) = Inr (d, p)
    \<and> d \<in> set claims \<and> cl_key d = cl_key c \<and> verifyDisclosure C enc root d p = Inr True"
proof -
  obtain d where d: "find (\<lambda>x. cl_key x = cl_key c) claims = Some d" "d \<in> set claims" "cl_key d = cl_key c"
    using assms(3) by (cases "find (\<lambda>x. cl_key x = cl_key c) claims") (auto simp: find_None_iff find_Some_iff)
  obtain j where j: "j < length claims" "claims ! j = d" using d(2) by (auto simp: in_set_conv_nth)
  have leaf: "claimLeaf C enc d = Inr (ls ! j)" "length ls = length claims" using map_err_nth [OF assms(2)] j by auto
  have "is_lower_hex 64 l" if "l \<in> set ls" for l
    using map_err_set [OF assms(2) that] claimLeaf_lower [OF assms(1)] by blast
  then have lo: "all_lower (sort ls)" by simp
  have "ls ! j \<in> set (sort ls)" using j leaf(2) by simp
  then obtain i where i: "find_index (\<lambda>x. x = ls ! j) (sort ls) = Some i" "i < length (sort ls)" "sort ls ! i = ls ! j"
    by (cases "find_index (\<lambda>x. x = ls ! j) (sort ls)") (auto simp: find_index_None find_index_Some)
  obtain p r where p: "proof_loop C (sort ls) i = Inr p" "root_loop C (sort ls) = Inr r" "is_lower_hex 64 r"
    "fold_pairs C (sort ls ! i) p = Inr r"
    using proof_loop_complete [OF assms(1) lo i(2)] by blast
  have "claimsRoot C enc claims = Inr r"
    using assms(2) p(2) j leaf(2) by (auto simp: claimsRoot_def merkleRoot_def)
  moreover have "discloseClaim C enc claims (cl_key c) = Inr (d, p)"
    using d(1) assms(2) leaf(1) i(1) p(1) by (simp add: discloseClaim_def merkleProof_def)
  moreover have "verifyDisclosure C enc r d p = Inr True"
    using leaf(1) p(4) i(3) by (simp add: verifyDisclosure_def verifyProof_def)
  ultimately show ?thesis using d by blast
qed

section \<open>An example\<close>

definition sample_utf8 :: "string \<Rightarrow> string" where
  "sample_utf8 t = t"

definition sample_step :: "string \<Rightarrow> evidence_step" where
  "sample_step k = \<lparr>ev_step = k, ev_at = 1, ev_payload = [(''k'', JBool True)]\<rparr>"

definition sample_steps :: "evidence_step list" where
  "sample_steps = [sample_step ''aml'', sample_step ''aml'']"

theorem evidence_hash_binds_the_steps_witness:
  "list_all2 (\<lambda>s t. sortDeep (step_json s) = sortDeep (step_json t)) sample_steps sample_steps"
proof (rule evidence_hash_binds_the_steps [OF sample_crypto_ok, of sample_utf8])
  show "inj sample_utf8" by (simp add: inj_def sample_utf8_def)
  show "recompute sample_crypto sample_utf8 sample_steps = Inr (projr (recompute sample_crypto sample_utf8 sample_steps))"
    "recompute sample_crypto sample_utf8 sample_steps = Inr (projr (recompute sample_crypto sample_utf8 sample_steps))"
    by code_simp+
  show "collision_free sample_crypto (chain_preimages sample_crypto sample_utf8 ZeroHash sample_steps
      @ chain_preimages sample_crypto sample_utf8 ZeroHash sample_steps)"
    by code_simp
  show "ZeroHash \<notin> set (map (keccak sample_crypto) (chain_preimages sample_crypto sample_utf8 ZeroHash sample_steps
      @ chain_preimages sample_crypto sample_utf8 ZeroHash sample_steps))"
    by code_simp
qed

definition sample_claims :: "claim list" where
  "sample_claims = [\<lparr>cl_key = ''fullName'', cl_value = ''a'', cl_salt = ''1''\<rparr>, \<lparr>cl_key = ''dob'', cl_value = ''b'', cl_salt = ''2''\<rparr>,
     \<lparr>cl_key = ''nat'', cl_value = ''c'', cl_salt = ''3''\<rparr>]"

definition sample_encoder :: claim_encoder where
  "sample_encoder k v s = Some (''0x00'' @ s @ v @ k)"

theorem disclosure_verifies_witness:
  "\<exists>root d p. claimsRoot sample_crypto sample_encoder sample_claims = Inr root
     \<and> discloseClaim sample_crypto sample_encoder sample_claims (cl_key (sample_claims ! 1)) = Inr (d, p)
     \<and> d \<in> set sample_claims \<and> cl_key d = cl_key (sample_claims ! 1)
     \<and> verifyDisclosure sample_crypto sample_encoder root d p = Inr True"
proof (rule disclosure_verifies [OF sample_crypto_ok])
  show "map_err (claimLeaf sample_crypto sample_encoder) sample_claims
      = Inr (projr (map_err (claimLeaf sample_crypto sample_encoder) sample_claims))"
    by code_simp
qed (simp add: sample_claims_def)

end
