(* ===== verification/Retention.thy ===== *)
theory Retention
  imports Canonical
begin

text \<open>
  The retention policy of \<^verbatim>\<open>pipeline/retention-policy.ts\<close>: its validation, the schedule derived
  from it for one record, the binding that a wallet consents to and the check that every layer
  was dealt with. The enumerations arrive as strings and are checked at run time, so they are
  strings here. The digest \<open>sha\<close> is \<^verbatim>\<open>createHash('sha256')\<close> of the platform. All errors thrown while a
  policy is validated carry one code; the text of messages is not modelled.
\<close>

section \<open>Data\<close>

record retention_layer_rule =
  lr_layer :: string
  lr_action :: string
  lr_trigger :: "string option"
  lr_durationDays :: "int option"
  lr_retentionRef :: string

record retention_rule =
  rr_outcome :: string
  rr_trigger :: string
  rr_credentialDisposition :: string
  rr_layers :: "retention_layer_rule list"

record retention_policy =
  rp_schema :: string
  rp_policyId :: string
  rp_customerId :: string
  rp_jurisdiction :: string
  rp_status :: string
  rp_approvalRef :: "string option"
  rp_legalReviewRef :: "string option"
  rp_clockRef :: string
  rp_holdAuthorityRef :: string
  rp_rules :: "retention_rule list"

record retention_binding =
  rb_schema :: string
  rb_policyId :: string
  rb_customerId :: string
  rb_jurisdiction :: string
  rb_fingerprint :: string

record retention_evidence =
  re_schema :: string
  re_policyId :: string
  re_customerId :: string
  re_jurisdiction :: string
  re_fingerprint :: string
  re_outcome :: string
  re_trigger :: string
  re_triggerAt :: int
  re_vaultDeleteAt :: int
  re_credentialDisposition :: string
  re_approvalRef :: "string option"
  re_legalReviewRef :: "string option"
  re_clockRef :: string
  re_holdAuthorityRef :: string

record derived_layer =
  dl_layer :: string
  dl_action :: string
  dl_trigger :: string
  dl_deleteAt :: "int option"
  dl_retentionRef :: string

record derived_schedule =
  ds_schema :: string
  ds_policyId :: string
  ds_customerId :: string
  ds_jurisdiction :: string
  ds_policyFingerprint :: string
  ds_outcome :: string
  ds_trigger :: string
  ds_triggerAt :: int
  ds_credentialDisposition :: string
  ds_layers :: "derived_layer list"

record layer_observation =
  lo_layer :: string
  lo_status :: string
  lo_evidenceRef :: string

record completion_observation =
  co_policyFingerprint :: string
  co_checkedAt :: int
  co_activeHolds :: "string list"
  co_disposition :: string
  co_sourceRevoked :: bool
  co_hubEnforced :: bool
  co_neverIssued :: bool
  co_maintained :: bool
  co_layers :: "layer_observation list"

datatype retention_error =
    RetentionPolicyInvalid | RetentionPolicyChanged | RetentionCompletionIncomplete "string list" | PlainError

section \<open>Validation\<close>

definition RETENTION_POLICY_SCHEMA :: string where
  "RETENTION_POLICY_SCHEMA = ''proofmark-retention-policy-v1''"

definition RETENTION_LAYERS :: "string list" where
  "RETENTION_LAYERS = [''evidence-vault'', ''issuance-journal'', ''revocation-outbox'', ''backup'',
     ''vendor'', ''operational-log'', ''client-copy'', ''onchain'']"

definition RETENTION_OUTCOMES :: "string list" where
  "RETENTION_OUTCOMES = [''issued'', ''review'', ''denied'', ''error'']"

definition RETENTION_TRIGGERS :: "string list" where
  "RETENTION_TRIGGERS = [''collected-at'', ''decision-at'', ''terminal-at'']"

definition RETENTION_DISPOSITIONS :: "string list" where
  "RETENTION_DISPOSITIONS = [''unchanged'', ''source-revoked'', ''not-issued'']"

definition RETENTION_ACTIONS :: "string list" where
  "RETENTION_ACTIONS = [''delete'', ''expire'', ''external-delete'', ''retain-minimized'', ''client-controlled'', ''irreversible'']"

definition DAY_MS :: int where
  "DAY_MS = 86400000"

definition policy_identifier :: "string \<Rightarrow> bool" where
  "policy_identifier = label_ok ''._:/-'' 2 127"

definition policy_reference :: "string \<Rightarrow> bool" where
  "policy_reference = label_ok ''._:/#-'' 2 255"

definition policy_jurisdiction :: "string \<Rightarrow> bool" where
  "policy_jurisdiction s \<longleftrightarrow> length s = 2 \<and> list_all upper_char s \<or> s = ''GLOBAL''"

definition optional_reference :: "string option \<Rightarrow> bool" where
  "optional_reference x \<longleftrightarrow> (case x of None \<Rightarrow> True | Some s \<Rightarrow> policy_reference s)"

definition layer_trigger :: "string \<Rightarrow> retention_layer_rule \<Rightarrow> string" where
  "layer_trigger t l = (case lr_trigger l of None \<Rightarrow> t | Some x \<Rightarrow> x)"

definition layer_rule_ok :: "string \<Rightarrow> retention_layer_rule \<Rightarrow> bool" where
  "layer_rule_ok t l \<longleftrightarrow>
     lr_layer l \<in> set RETENTION_LAYERS \<and> lr_action l \<in> set RETENTION_ACTIONS
     \<and> layer_trigger t l \<in> set RETENTION_TRIGGERS
     \<and> (lr_layer l = ''client-copy'' \<or> lr_layer l = ''onchain'') = (lr_durationDays l = None)
     \<and> (case lr_durationDays l of None \<Rightarrow> True | Some d \<Rightarrow> safe_integer d \<and> 0 \<le> d \<and> d \<le> 36500)
     \<and> (lr_layer l = ''client-copy'' \<longrightarrow> lr_action l = ''client-controlled'')
     \<and> (lr_layer l = ''onchain'' \<longrightarrow> lr_action l = ''irreversible'')
     \<and> (lr_layer l = ''vendor'' \<longrightarrow> lr_action l = ''external-delete'')
     \<and> (lr_layer l = ''evidence-vault'' \<longrightarrow> lr_action l = ''delete'')
     \<and> (lr_layer l = ''issuance-journal'' \<longrightarrow>
          lr_action l = ''expire'' \<and> layer_trigger t l = ''terminal-at'' \<and> lr_durationDays l = Some 1)
     \<and> policy_reference (lr_retentionRef l)"

definition retention_rule_ok :: "retention_rule \<Rightarrow> bool" where
  "retention_rule_ok r \<longleftrightarrow>
     rr_outcome r \<in> set RETENTION_OUTCOMES
     \<and> rr_trigger r \<in> set RETENTION_TRIGGERS \<and> rr_trigger r \<noteq> ''terminal-at''
     \<and> rr_credentialDisposition r \<in> set RETENTION_DISPOSITIONS
     \<and> \<not> (rr_outcome r = ''issued'' \<and> rr_credentialDisposition r = ''not-issued'')
     \<and> \<not> (rr_outcome r \<noteq> ''issued'' \<and> rr_credentialDisposition r = ''source-revoked'')
     \<and> length (rr_layers r) = length RETENTION_LAYERS \<and> distinct (map lr_layer (rr_layers r))
     \<and> list_all (layer_rule_ok (rr_trigger r)) (rr_layers r)"

definition retention_policy_ok :: "retention_policy \<Rightarrow> bool" where
  "retention_policy_ok p \<longleftrightarrow>
     rp_schema p = RETENTION_POLICY_SCHEMA \<and> policy_identifier (rp_policyId p) \<and> policy_identifier (rp_customerId p)
     \<and> policy_jurisdiction (rp_jurisdiction p) \<and> (rp_status p = ''synthetic'' \<or> rp_status p = ''approved'')
     \<and> optional_reference (rp_approvalRef p) \<and> optional_reference (rp_legalReviewRef p)
     \<and> \<not> (rp_status p = ''approved'' \<and> (rp_approvalRef p = None \<or> rp_legalReviewRef p = None))
     \<and> \<not> (rp_status p = ''synthetic'' \<and> (rp_approvalRef p \<noteq> None \<or> rp_legalReviewRef p \<noteq> None))
     \<and> policy_reference (rp_clockRef p) \<and> policy_reference (rp_holdAuthorityRef p)
     \<and> length (rp_rules p) = length RETENTION_OUTCOMES \<and> distinct (map rr_outcome (rp_rules p))
     \<and> list_all retention_rule_ok (rp_rules p)"

definition settled_layer :: "string \<Rightarrow> retention_layer_rule \<Rightarrow> retention_layer_rule" where
  "settled_layer t l = l\<lparr>lr_trigger := Some (layer_trigger t l)\<rparr>"

definition settled_rule :: "retention_rule \<Rightarrow> retention_rule" where
  "settled_rule r = r\<lparr>rr_layers := map (settled_layer (rr_trigger r)) (rr_layers r)\<rparr>"

definition defineRetentionPolicy :: "retention_policy \<Rightarrow> retention_error + retention_policy" where
  "defineRetentionPolicy p = (if retention_policy_ok p then Inr (p\<lparr>rp_rules := map settled_rule (rp_rules p)\<rparr>)
     else Inl RetentionPolicyInvalid)"

section \<open>Fingerprint and binding\<close>

definition json_opt :: "('a \<Rightarrow> json) \<Rightarrow> 'a option \<Rightarrow> json" where
  "json_opt f x = (case x of None \<Rightarrow> JNull | Some y \<Rightarrow> f y)"

definition layer_rule_json :: "retention_layer_rule \<Rightarrow> json" where
  "layer_rule_json l = JObj ([(''layer'', JStr (lr_layer l)), (''action'', JStr (lr_action l))]
     @ (case lr_trigger l of None \<Rightarrow> [] | Some t \<Rightarrow> [(''trigger'', JStr t)])
     @ [(''durationDays'', json_opt JNum (lr_durationDays l)), (''retentionRef'', JStr (lr_retentionRef l))])"

definition retention_rule_json :: "retention_rule \<Rightarrow> json" where
  "retention_rule_json r = JObj [(''outcome'', JStr (rr_outcome r)), (''trigger'', JStr (rr_trigger r)),
     (''credentialDisposition'', JStr (rr_credentialDisposition r)), (''layers'', JArr (map layer_rule_json (rr_layers r)))]"

definition retention_policy_json :: "retention_policy \<Rightarrow> json" where
  "retention_policy_json p = JObj [(''schema'', JStr (rp_schema p)), (''policyId'', JStr (rp_policyId p)),
     (''customerId'', JStr (rp_customerId p)), (''jurisdiction'', JStr (rp_jurisdiction p)), (''status'', JStr (rp_status p)),
     (''approvalRef'', json_opt JStr (rp_approvalRef p)), (''legalReviewRef'', json_opt JStr (rp_legalReviewRef p)),
     (''clockRef'', JStr (rp_clockRef p)), (''holdAuthorityRef'', JStr (rp_holdAuthorityRef p)),
     (''rules'', JArr (map retention_rule_json (rp_rules p)))]"

definition retention_text :: "retention_policy \<Rightarrow> retention_error + string" where
  "retention_text p = (case canonicalJson (retention_policy_json p) of Inl e \<Rightarrow> Inl PlainError
     | Inr t \<Rightarrow> Inr (''proofmark-retention-policy-v1|'' @ t))"

definition retentionPolicyFingerprint :: "(string \<Rightarrow> string) \<Rightarrow> retention_policy \<Rightarrow> retention_error + string" where
  "retentionPolicyFingerprint sha p = (case defineRetentionPolicy p of Inl e \<Rightarrow> Inl e
     | Inr q \<Rightarrow> (case retention_text q of Inl e \<Rightarrow> Inl e | Inr t \<Rightarrow> Inr (sha t)))"

definition retentionPolicyBinding :: "(string \<Rightarrow> string) \<Rightarrow> retention_policy \<Rightarrow> retention_error + retention_binding" where
  "retentionPolicyBinding sha p = (case defineRetentionPolicy p of Inl e \<Rightarrow> Inl e
     | Inr q \<Rightarrow> (case retentionPolicyFingerprint sha q of Inl e \<Rightarrow> Inl e
       | Inr f \<Rightarrow> Inr \<lparr>rb_schema = ''proofmark-retention-policy-binding-v1'', rb_policyId = rp_policyId q,
           rb_customerId = rp_customerId q, rb_jurisdiction = rp_jurisdiction q, rb_fingerprint = f\<rparr>))"

definition assertRetentionBinding :: "(string \<Rightarrow> string) \<Rightarrow> retention_policy \<Rightarrow> retention_binding \<Rightarrow> retention_error + unit" where
  "assertRetentionBinding sha p b = (case retentionPolicyBinding sha p of Inl e \<Rightarrow> Inl e
     | Inr expected \<Rightarrow> if rb_schema b \<noteq> rb_schema expected \<or> rb_policyId b \<noteq> rb_policyId expected
         \<or> rb_customerId b \<noteq> rb_customerId expected \<or> rb_jurisdiction b \<noteq> rb_jurisdiction expected
         \<or> rb_fingerprint b \<noteq> rb_fingerprint expected then Inl RetentionPolicyChanged else Inr ())"

section \<open>The schedule of one record\<close>

record retention_context =
  rc_customerId :: string
  rc_jurisdiction :: string
  rc_outcome :: string
  rc_collectedAt :: int
  rc_decisionAt :: int
  rc_terminalAt :: "int option"

definition trigger_time :: "retention_context \<Rightarrow> string \<Rightarrow> int option" where
  "trigger_time c t = (if t = ''collected-at'' then Some (rc_collectedAt c)
     else if t = ''decision-at'' then Some (rc_decisionAt c) else rc_terminalAt c)"

definition derive_layer :: "retention_context \<Rightarrow> string \<Rightarrow> retention_layer_rule \<Rightarrow> retention_error + derived_layer" where
  "derive_layer c t l =
     (let lt = layer_trigger t l;
          deleteAt = (case (lr_durationDays l, trigger_time c lt) of (Some d, Some at) \<Rightarrow> Some (at + d * DAY_MS) | _ \<Rightarrow> None) in
      case deleteAt of
        Some d \<Rightarrow> if \<not> safe_integer d then Inl RetentionPolicyInvalid
          else Inr \<lparr>dl_layer = lr_layer l, dl_action = lr_action l, dl_trigger = lt, dl_deleteAt = deleteAt, dl_retentionRef = lr_retentionRef l\<rparr>
      | None \<Rightarrow> Inr \<lparr>dl_layer = lr_layer l, dl_action = lr_action l, dl_trigger = lt, dl_deleteAt = None, dl_retentionRef = lr_retentionRef l\<rparr>)"

definition deriveRetentionSchedule ::
  "(string \<Rightarrow> string) \<Rightarrow> retention_policy \<Rightarrow> retention_context \<Rightarrow> retention_error + derived_schedule" where
  "deriveRetentionSchedule sha input c = (case defineRetentionPolicy input of Inl e \<Rightarrow> Inl e
     | Inr p \<Rightarrow>
       if \<not> integer0 (rc_collectedAt c) \<or> \<not> integer0 (rc_decisionAt c)
         \<or> (case rc_terminalAt c of None \<Rightarrow> False | Some t \<Rightarrow> \<not> integer0 t) then Inl PlainError
       else if rc_decisionAt c < rc_collectedAt c then Inl RetentionPolicyInvalid
       else if rc_customerId c \<noteq> rp_customerId p \<or> rc_jurisdiction c \<noteq> rp_jurisdiction p then Inl RetentionPolicyChanged
       else (case find (\<lambda>r. rr_outcome r = rc_outcome c) (rp_rules p) of None \<Rightarrow> Inl RetentionPolicyInvalid
         | Some rule \<Rightarrow> (case map_err (derive_layer c (rr_trigger rule)) (rr_layers rule) of Inl e \<Rightarrow> Inl e
           | Inr layers \<Rightarrow> (case retentionPolicyFingerprint sha p of Inl e \<Rightarrow> Inl e
             | Inr f \<Rightarrow> Inr \<lparr>ds_schema = ''proofmark-retention-schedule-v1'', ds_policyId = rp_policyId p,
                 ds_customerId = rp_customerId p, ds_jurisdiction = rp_jurisdiction p, ds_policyFingerprint = f,
                 ds_outcome = rc_outcome c, ds_trigger = rr_trigger rule,
                 ds_triggerAt = (if rr_trigger rule = ''collected-at'' then rc_collectedAt c else rc_decisionAt c),
                 ds_credentialDisposition = rr_credentialDisposition rule, ds_layers = layers\<rparr>))))"

definition retentionPolicyEvidence ::
  "(string \<Rightarrow> string) \<Rightarrow> retention_policy \<Rightarrow> retention_context \<Rightarrow> retention_error + retention_evidence" where
  "retentionPolicyEvidence sha input c = (case defineRetentionPolicy input of Inl e \<Rightarrow> Inl e
     | Inr p \<Rightarrow> (case retentionPolicyBinding sha p of Inl e \<Rightarrow> Inl e
       | Inr b \<Rightarrow> (case deriveRetentionSchedule sha p c of Inl e \<Rightarrow> Inl e
         | Inr s \<Rightarrow> (case find (\<lambda>l. dl_layer l = ''evidence-vault'') (ds_layers s) of
             None \<Rightarrow> Inl RetentionPolicyInvalid
           | Some v \<Rightarrow> (case dl_deleteAt v of None \<Rightarrow> Inl RetentionPolicyInvalid
             | Some d \<Rightarrow> Inr \<lparr>re_schema = ''proofmark-retention-policy-evidence-v1'', re_policyId = rb_policyId b,
                 re_customerId = rb_customerId b, re_jurisdiction = rb_jurisdiction b, re_fingerprint = rb_fingerprint b,
                 re_outcome = ds_outcome s, re_trigger = ds_trigger s, re_triggerAt = ds_triggerAt s, re_vaultDeleteAt = d,
                 re_credentialDisposition = ds_credentialDisposition s, re_approvalRef = rp_approvalRef p,
                 re_legalReviewRef = rp_legalReviewRef p, re_clockRef = rp_clockRef p,
                 re_holdAuthorityRef = rp_holdAuthorityRef p\<rparr>)))))"

section \<open>Completion\<close>

text \<open>\<^verbatim>\<open>new Map(...)\<close> keeps the last observation of a layer.\<close>

definition observed :: "completion_observation \<Rightarrow> string \<Rightarrow> layer_observation option" where
  "observed ob l = find (\<lambda>x. lo_layer x = l) (rev (co_layers ob))"

definition layer_blockers :: "completion_observation \<Rightarrow> derived_layer \<Rightarrow> string list" where
  "layer_blockers ob l =
     (if dl_action l \<noteq> ''client-controlled'' \<and> dl_action l \<noteq> ''irreversible'' \<and> dl_deleteAt l = None
      then [dl_layer l @ '':TRIGGER_MISSING'']
      else case observed ob (dl_layer l) of None \<Rightarrow> [dl_layer l @ '':EVIDENCE_MISSING'']
      | Some a \<Rightarrow>
        if \<not> policy_reference (lo_evidenceRef a) then [dl_layer l @ '':EVIDENCE_MISSING'']
        else if dl_action l = ''client-controlled''
        then (if lo_status a \<noteq> ''client-controlled'' then [dl_layer l @ '':CONTROL_NOT_DISCLOSED''] else [])
        else if dl_action l = ''irreversible''
        then (if lo_status a \<noteq> ''irreversible-residual'' then [dl_layer l @ '':RESIDUAL_NOT_DISCLOSED''] else [])
        else if (case dl_deleteAt l of None \<Rightarrow> False | Some d \<Rightarrow> d \<le> co_checkedAt ob)
        then (if lo_status a \<noteq> ''deleted'' then [dl_layer l @ '':DELETION_NOT_CONFIRMED''] else [])
        else if dl_action l = ''retain-minimized''
        then (if lo_status a \<noteq> ''retained-minimized'' then [dl_layer l @ '':MINIMIZATION_NOT_CONFIRMED''] else [])
        else if lo_status a \<noteq> ''deleted'' then [dl_layer l @ '':EARLY_DELETION_NOT_CONFIRMED''] else [])"

definition completion_blockers :: "derived_schedule \<Rightarrow> completion_observation \<Rightarrow> string list" where
  "completion_blockers s ob =
     (if \<not> integer0 (co_checkedAt ob) then [''INVALID_CLOCK''] else [])
     @ (if co_policyFingerprint ob \<noteq> ds_policyFingerprint s then [''POLICY_CHANGED''] else [])
     @ (if co_activeHolds ob \<noteq> [] then [''ACTIVE_HOLD''] else [])
     @ (if co_disposition ob \<noteq> ds_credentialDisposition s then [''CREDENTIAL_DISPOSITION_CHANGED''] else [])
     @ (if ds_credentialDisposition s = ''source-revoked'' \<and> (\<not> co_sourceRevoked ob \<or> \<not> co_hubEnforced ob)
        then [''CREDENTIAL_REVOCATION_NOT_ENFORCED''] else [])
     @ (if ds_credentialDisposition s = ''not-issued'' \<and> \<not> co_neverIssued ob then [''CREDENTIAL_ISSUANCE_NOT_EXCLUDED''] else [])
     @ (if ds_credentialDisposition s = ''unchanged'' \<and> \<not> co_maintained ob then [''CREDENTIAL_MAINTENANCE_NOT_CONFIRMED''] else [])
     @ (if \<not> distinct (map lo_layer (co_layers ob)) then [''DUPLICATE_LAYER_OBSERVATION''] else [])
     @ concat (map (layer_blockers ob) (ds_layers s))
     @ concat (map (\<lambda>l. if l \<notin> set RETENTION_LAYERS then [''UNKNOWN_LAYER_OBSERVATION''] else []) (uniq (map lo_layer (co_layers ob))))"

definition assertRetentionCompletion :: "derived_schedule \<Rightarrow> completion_observation \<Rightarrow> retention_error + unit" where
  "assertRetentionCompletion s ob = (let b = completion_blockers s ob in
     if b \<noteq> [] then Inl (RetentionCompletionIncomplete (uniq b)) else Inr ())"

section \<open>The consent statement and the synthetic policy\<close>

definition rule_summary :: "retention_rule \<Rightarrow> string" where
  "rule_summary r = rr_outcome r @ '':'' @ rr_trigger r @ ''+''
     @ (case find (\<lambda>l. lr_layer l = ''evidence-vault'') (rr_layers r) of
          Some l \<Rightarrow> (case lr_durationDays l of Some d \<Rightarrow> dec_int d | None \<Rightarrow> ''missing'') | None \<Rightarrow> ''missing'')
     @ ''d/'' @ rr_credentialDisposition r"

definition retentionConsentStatement :: "retention_policy \<Rightarrow> retention_error + string" where
  "retentionConsentStatement input = (case defineRetentionPolicy input of Inl e \<Rightarrow> Inl e
     | Inr p \<Rightarrow> Inr (''Proofmark retention policy '' @ rp_policyId p @ ''; customer '' @ rp_customerId p
         @ ''; jurisdiction '' @ rp_jurisdiction p @ ''; '' @ join '','' (map rule_summary (rp_rules p))
         @ ''; holds '' @ rp_holdAuthorityRef p
         @ ''; client copies remain client-controlled and public-chain data is irreversible.''))"

definition syntheticLayers :: "int \<Rightarrow> retention_layer_rule list" where
  "syntheticLayers d =
     [\<lparr>lr_layer = ''evidence-vault'', lr_action = ''delete'', lr_trigger = None, lr_durationDays = Some d,
        lr_retentionRef = ''retention:synthetic-vault:'' @ dec_int d @ ''d''\<rparr>,
      \<lparr>lr_layer = ''issuance-journal'', lr_action = ''expire'', lr_trigger = Some ''terminal-at'', lr_durationDays = Some 1,
        lr_retentionRef = ''retention:synthetic-journal:1d''\<rparr>,
      \<lparr>lr_layer = ''revocation-outbox'', lr_action = ''retain-minimized'', lr_trigger = None, lr_durationDays = Some 30,
        lr_retentionRef = ''retention:synthetic-outbox:30d''\<rparr>,
      \<lparr>lr_layer = ''backup'', lr_action = ''expire'', lr_trigger = None, lr_durationDays = Some d,
        lr_retentionRef = ''retention:synthetic-backup:'' @ dec_int d @ ''d''\<rparr>,
      \<lparr>lr_layer = ''vendor'', lr_action = ''external-delete'', lr_trigger = None, lr_durationDays = Some 0,
        lr_retentionRef = ''retention:synthetic-demo-vendor:0d''\<rparr>,
      \<lparr>lr_layer = ''operational-log'', lr_action = ''retain-minimized'', lr_trigger = None, lr_durationDays = Some 7,
        lr_retentionRef = ''retention:synthetic-log:7d''\<rparr>,
      \<lparr>lr_layer = ''client-copy'', lr_action = ''client-controlled'', lr_trigger = None, lr_durationDays = None,
        lr_retentionRef = ''retention:synthetic-client-control''\<rparr>,
      \<lparr>lr_layer = ''onchain'', lr_action = ''irreversible'', lr_trigger = None, lr_durationDays = None,
        lr_retentionRef = ''retention:synthetic-onchain''\<rparr>]"

definition synthetic_retention_input :: retention_policy where
  "synthetic_retention_input = \<lparr>rp_schema = RETENTION_POLICY_SCHEMA, rp_policyId = ''proofmark-synthetic-retention-v1'',
     rp_customerId = ''synthetic-demo-only'', rp_jurisdiction = ''KR'', rp_status = ''synthetic'',
     rp_approvalRef = None, rp_legalReviewRef = None, rp_clockRef = ''clock:synthetic-process-time'',
     rp_holdAuthorityRef = ''authority:synthetic-test-only'',
     rp_rules =
       [\<lparr>rr_outcome = ''issued'', rr_trigger = ''decision-at'', rr_credentialDisposition = ''unchanged'', rr_layers = syntheticLayers 30\<rparr>,
        \<lparr>rr_outcome = ''review'', rr_trigger = ''decision-at'', rr_credentialDisposition = ''not-issued'', rr_layers = syntheticLayers 30\<rparr>,
        \<lparr>rr_outcome = ''denied'', rr_trigger = ''decision-at'', rr_credentialDisposition = ''not-issued'', rr_layers = syntheticLayers 30\<rparr>,
        \<lparr>rr_outcome = ''error'', rr_trigger = ''decision-at'', rr_credentialDisposition = ''not-issued'', rr_layers = syntheticLayers 7\<rparr>]\<rparr>"

definition SYNTHETIC_RETENTION_POLICY :: "retention_error + retention_policy" where
  "SYNTHETIC_RETENTION_POLICY = defineRetentionPolicy synthetic_retention_input"

section \<open>A validated policy is stable\<close>

lemma layer_trigger_settled [simp]: "layer_trigger t (settled_layer u l) = layer_trigger u l"
  by (simp add: layer_trigger_def settled_layer_def)

lemma settled_layer_simps [simp]:
  "lr_layer (settled_layer t l) = lr_layer l" "lr_action (settled_layer t l) = lr_action l"
  "lr_durationDays (settled_layer t l) = lr_durationDays l" "lr_retentionRef (settled_layer t l) = lr_retentionRef l"
  "lr_trigger (settled_layer t l) = Some (layer_trigger t l)"
  by (simp_all add: settled_layer_def)

lemma settled_layer_twice [simp]: "settled_layer t (settled_layer u l) = settled_layer u l"
  by (simp add: settled_layer_def layer_trigger_def)

lemma settled_rule_simps [simp]:
  "rr_outcome (settled_rule r) = rr_outcome r" "rr_trigger (settled_rule r) = rr_trigger r"
  "rr_credentialDisposition (settled_rule r) = rr_credentialDisposition r"
  "rr_layers (settled_rule r) = map (settled_layer (rr_trigger r)) (rr_layers r)"
  by (simp_all add: settled_rule_def)

lemma settled_rule_twice [simp]: "settled_rule (settled_rule r) = settled_rule r"
  by (simp add: settled_rule_def)

lemma layer_rule_ok_settled: "layer_rule_ok t (settled_layer t l) = layer_rule_ok t l"
  by (simp add: layer_rule_ok_def)

lemma retention_rule_ok_settled: "retention_rule_ok (settled_rule r) = retention_rule_ok r"
  by (simp add: retention_rule_ok_def list.pred_map o_def layer_rule_ok_settled)

lemma define_idempotent: "defineRetentionPolicy p = Inr q \<Longrightarrow> defineRetentionPolicy q = Inr q"
  by (auto simp: defineRetentionPolicy_def retention_policy_ok_def list.pred_map o_def retention_rule_ok_settled
      split: if_splits)

lemma define_rules:
  "defineRetentionPolicy p = Inr q \<Longrightarrow> retention_policy_ok p \<and> q = p\<lparr>rp_rules := map settled_rule (rp_rules p)\<rparr>"
  by (auto simp: defineRetentionPolicy_def split: if_splits)

section \<open>The fingerprint determines the policy\<close>

lemma json_opt_plain [simp]: "plain (json_opt JStr x)" "plain (json_opt JNum y)"
  by (simp_all add: json_opt_def split: option.split)

lemma json_opt_same [simp]:
  "sortDeep (json_opt JStr x) = sortDeep (json_opt JStr y) \<longleftrightarrow> x = y"
  "sortDeep (json_opt JNum m) = sortDeep (json_opt JNum n) \<longleftrightarrow> m = n"
  by (simp_all add: json_opt_def split: option.split)

lemma retention_plain: "plain (retention_policy_json p)" "plain (retention_rule_json r)" "plain (layer_rule_json l)"
proof -
  show l: "plain (layer_rule_json l)" for l by (simp add: layer_rule_json_def split: option.split)
  then show r: "plain (retention_rule_json r)" for r by (simp add: retention_rule_json_def list_all_iff)
  then show "plain (retention_policy_json p)" by (simp add: retention_policy_json_def list_all_iff)
qed

lemma layer_rule_same:
  assumes "sortDeep (layer_rule_json l) = sortDeep (layer_rule_json m)" "lr_trigger l = Some t" "lr_trigger m = Some u"
  shows "l = m"
proof -
  have "list_all2 (\<lambda>a b. sortDeep (snd a) = sortDeep (snd b))
      [(''layer'', JStr (lr_layer l)), (''action'', JStr (lr_action l)), (''trigger'', JStr t),
       (''durationDays'', json_opt JNum (lr_durationDays l)), (''retentionRef'', JStr (lr_retentionRef l))]
      [(''layer'', JStr (lr_layer m)), (''action'', JStr (lr_action m)), (''trigger'', JStr u),
       (''durationDays'', json_opt JNum (lr_durationDays m)), (''retentionRef'', JStr (lr_retentionRef m))]"
    by (rule same_members) (use assms in \<open>simp_all add: layer_rule_json_def del: sortDeep.simps\<close>)
  then show ?thesis using assms(2,3) by simp
qed

lemma list_all2_map_eq:
  assumes "list_all2 (\<lambda>x y. sortDeep x = sortDeep y) (map f xs) (map f ys)"
    and "\<And>x y. x \<in> set xs \<Longrightarrow> y \<in> set ys \<Longrightarrow> sortDeep (f x) = sortDeep (f y) \<Longrightarrow> x = y"
  shows "xs = ys"
  using assms(1) by (auto simp: list_all2_conv_all_nth intro!: nth_equalityI assms(2))

lemma settled_has_trigger: "l \<in> set (rr_layers (settled_rule r)) \<Longrightarrow> \<exists>t. lr_trigger l = Some t"
  by auto

lemma retention_rule_same:
  assumes "sortDeep (retention_rule_json (settled_rule r)) = sortDeep (retention_rule_json (settled_rule s))"
  shows "settled_rule r = settled_rule s"
proof -
  let ?r = "settled_rule r" and ?s = "settled_rule s"
  have "list_all2 (\<lambda>a b. sortDeep (snd a) = sortDeep (snd b))
      [(''outcome'', JStr (rr_outcome ?r)), (''trigger'', JStr (rr_trigger ?r)),
       (''credentialDisposition'', JStr (rr_credentialDisposition ?r)), (''layers'', JArr (map layer_rule_json (rr_layers ?r)))]
      [(''outcome'', JStr (rr_outcome ?s)), (''trigger'', JStr (rr_trigger ?s)),
       (''credentialDisposition'', JStr (rr_credentialDisposition ?s)), (''layers'', JArr (map layer_rule_json (rr_layers ?s)))]"
    by (rule same_members)
      (use assms retention_plain(2) [of ?r] in \<open>simp_all add: retention_rule_json_def del: sortDeep.simps settled_rule_simps\<close>)
  then have f: "rr_outcome ?r = rr_outcome ?s" "rr_trigger ?r = rr_trigger ?s"
    "rr_credentialDisposition ?r = rr_credentialDisposition ?s"
    "sortDeep (JArr (map layer_rule_json (rr_layers ?r))) = sortDeep (JArr (map layer_rule_json (rr_layers ?s)))"
    by (simp_all del: sortDeep.simps(3) settled_rule_simps)
  have "plain (JArr (map layer_rule_json (rr_layers ?r)))" using retention_plain(3) by (simp add: list_all_iff)
  then obtain j where "sortDeep (JArr (map layer_rule_json (rr_layers ?r))) = Inr j" using sortDeep_total by blast
  from same_array [OF f(4) this] have "rr_layers ?r = rr_layers ?s"
    by (rule list_all2_map_eq) (metis layer_rule_same settled_has_trigger)
  with f(1-3) show ?thesis by (metis (full_types) old.unit.exhaust retention_rule.surjective)
qed

lemma retention_policy_same:
  assumes "sortDeep (retention_policy_json p) = sortDeep (retention_policy_json q)"
    and "rp_rules p = map settled_rule rs" "rp_rules q = map settled_rule ss"
  shows "p = q"
proof -
  have m: "list_all2 (\<lambda>a b. sortDeep (snd a) = sortDeep (snd b))
      [(''schema'', JStr (rp_schema p)), (''policyId'', JStr (rp_policyId p)),
       (''customerId'', JStr (rp_customerId p)), (''jurisdiction'', JStr (rp_jurisdiction p)), (''status'', JStr (rp_status p)),
       (''approvalRef'', json_opt JStr (rp_approvalRef p)), (''legalReviewRef'', json_opt JStr (rp_legalReviewRef p)),
       (''clockRef'', JStr (rp_clockRef p)), (''holdAuthorityRef'', JStr (rp_holdAuthorityRef p)),
       (''rules'', JArr (map retention_rule_json (rp_rules p)))]
      [(''schema'', JStr (rp_schema q)), (''policyId'', JStr (rp_policyId q)),
       (''customerId'', JStr (rp_customerId q)), (''jurisdiction'', JStr (rp_jurisdiction q)), (''status'', JStr (rp_status q)),
       (''approvalRef'', json_opt JStr (rp_approvalRef q)), (''legalReviewRef'', json_opt JStr (rp_legalReviewRef q)),
       (''clockRef'', JStr (rp_clockRef q)), (''holdAuthorityRef'', JStr (rp_holdAuthorityRef q)),
       (''rules'', JArr (map retention_rule_json (rp_rules q)))]"
    by (rule same_members)
      (use assms(1) retention_plain(1) [of p] in \<open>simp_all add: retention_policy_json_def del: sortDeep.simps\<close>)
  then have r: "sortDeep (JArr (map retention_rule_json (rp_rules p))) = sortDeep (JArr (map retention_rule_json (rp_rules q)))"
    by (simp del: sortDeep.simps(3))
  have "plain (JArr (map retention_rule_json (rp_rules p)))" using retention_plain(2) by (simp add: list_all_iff)
  then obtain j where "sortDeep (JArr (map retention_rule_json (rp_rules p))) = Inr j" using sortDeep_total by blast
  from same_array [OF r this] have "rp_rules p = rp_rules q"
    by (rule list_all2_map_eq) (use assms(2,3) retention_rule_same in auto)
  with m show ?thesis by (simp del: sortDeep.simps(3))
qed

lemma fingerprint_of:
  assumes "defineRetentionPolicy p = Inr q"
  shows "\<exists>t. retention_text q = Inr t \<and> retentionPolicyFingerprint sha p = Inr (sha t) \<and> retentionPolicyFingerprint sha q = Inr (sha t)"
proof -
  obtain w where "sortDeep (retention_policy_json q) = Inr w" using sortDeep_total retention_plain(1) by blast
  then obtain t where "retention_text q = Inr t" by (simp add: retention_text_def canonicalJson_def)
  then show ?thesis using assms define_idempotent [OF assms] by (simp add: retentionPolicyFingerprint_def)
qed

lemma binding_of:
  assumes "defineRetentionPolicy p = Inr q"
  shows "\<exists>t. retention_text q = Inr t \<and> retentionPolicyBinding sha p =
    Inr \<lparr>rb_schema = ''proofmark-retention-policy-binding-v1'', rb_policyId = rp_policyId q,
         rb_customerId = rp_customerId q, rb_jurisdiction = rp_jurisdiction q, rb_fingerprint = sha t\<rparr>"
  using assms fingerprint_of [OF assms, of sha] by (auto simp: retentionPolicyBinding_def)

text \<open>C28. The retention policy a wallet consented to is the one in force: when the binding computed from
  one policy passes \<^verbatim>\<open>assertRetentionBinding\<close> for another, the two define the same policy, unless
  the digest collides on their two texts.\<close>

theorem retention_binding_identifies_policy:
  assumes "retentionPolicyBinding sha p = Inr b" "assertRetentionBinding sha q b = Inr ()"
    and "\<And>p' q' t u. defineRetentionPolicy p = Inr p' \<Longrightarrow> defineRetentionPolicy q = Inr q'
          \<Longrightarrow> retention_text p' = Inr t \<Longrightarrow> retention_text q' = Inr u \<Longrightarrow> sha t = sha u \<Longrightarrow> t = u"
  shows "defineRetentionPolicy p = defineRetentionPolicy q"
proof -
  obtain p' q' where pq: "defineRetentionPolicy p = Inr p'" "defineRetentionPolicy q = Inr q'"
    using assms(1,2) by (auto simp: assertRetentionBinding_def retentionPolicyBinding_def split: sum.splits)
  obtain t where t: "retention_text p' = Inr t" "rb_fingerprint b = sha t"
    using binding_of [OF pq(1), of sha] assms(1) by auto
  obtain u where u: "retention_text q' = Inr u" "rb_fingerprint b = sha u"
    using binding_of [OF pq(2), of sha] assms(2) by (auto simp: assertRetentionBinding_def split: if_splits)
  have "t = u" using assms(3) [OF pq t(1) u(1)] t(2) u(2) by simp
  then obtain x where "canonicalJson (retention_policy_json p') = Inr x" "canonicalJson (retention_policy_json q') = Inr x"
    using t(1) u(1) by (auto simp: retention_text_def split: sum.splits)
  then have "sortDeep (retention_policy_json p') = sortDeep (retention_policy_json q')" by (rule canonical_injective)
  then have "p' = q'" using retention_policy_same define_rules [OF pq(1)] define_rules [OF pq(2)] by fastforce
  then show ?thesis using pq by simp
qed

section \<open>Deadlines\<close>

lemma distinct_covers:
  assumes "distinct xs" "distinct ys" "length xs = length ys" "set xs \<subseteq> set ys"
  shows "set xs = set ys"
  using assms by (metis card_subset_eq distinct_card finite_set)

lemma outcome_covered:
  assumes "retention_policy_ok p" "oc \<in> set RETENTION_OUTCOMES"
  shows "\<exists>r. find (\<lambda>r. rr_outcome r = oc) (map settled_rule (rp_rules p)) = Some r \<and> r \<in> set (map settled_rule (rp_rules p))
    \<and> rr_outcome r = oc \<and> retention_rule_ok r"
proof -
  let ?rs = "map settled_rule (rp_rules p)"
  have "distinct RETENTION_OUTCOMES" by code_simp
  then have "set (map rr_outcome (rp_rules p)) = set RETENTION_OUTCOMES"
    by (intro distinct_covers)
      (use assms(1) in \<open>auto simp: retention_policy_ok_def retention_rule_ok_def list_all_iff\<close>)
  then have "oc \<in> rr_outcome ` set ?rs" using assms(2) by (auto simp: image_image)
  then obtain r where f: "find (\<lambda>r. rr_outcome r = oc) ?rs = Some r"
    using find_total [of _ ?rs "\<lambda>r. rr_outcome r = oc"] by auto
  from find_SomeD [OF f] f have r: "r \<in> set ?rs" "rr_outcome r = oc" "find (\<lambda>r. rr_outcome r = oc) ?rs = Some r"
    by blast+
  then have "retention_rule_ok r"
    using assms(1) by (auto simp: retention_policy_ok_def list_all_iff retention_rule_ok_settled)
  with r show ?thesis by blast
qed

lemma layer_covered:
  assumes "retention_rule_ok r" "k \<in> set RETENTION_LAYERS"
  shows "\<exists>l \<in> set (rr_layers r). lr_layer l = k \<and> layer_rule_ok (rr_trigger r) l"
proof -
  have "distinct RETENTION_LAYERS" by code_simp
  then have "set (map lr_layer (rr_layers r)) = set RETENTION_LAYERS"
    by (intro distinct_covers)
      (use assms(1) in \<open>auto simp: retention_rule_ok_def layer_rule_ok_def list_all_iff\<close>)
  then have "k \<in> lr_layer ` set (rr_layers r)" using assms(2) by simp
  then show ?thesis using assms(1) by (auto simp: retention_rule_ok_def list_all_iff)
qed

definition context_ok :: "retention_policy \<Rightarrow> retention_context \<Rightarrow> bool" where
  "context_ok p c \<longleftrightarrow> rc_customerId c = rp_customerId p \<and> rc_jurisdiction c = rp_jurisdiction p
     \<and> rc_outcome c \<in> set RETENTION_OUTCOMES \<and> 0 \<le> rc_collectedAt c \<and> rc_collectedAt c \<le> rc_decisionAt c
     \<and> rc_decisionAt c \<le> 9007199254740991 - 36500 * DAY_MS
     \<and> (case rc_terminalAt c of None \<Rightarrow> True | Some t \<Rightarrow> 0 \<le> t \<and> t \<le> 9007199254740991 - 36500 * DAY_MS)"

lemma trigger_time_bound:
  "context_ok p c \<Longrightarrow> trigger_time c t = Some at \<Longrightarrow> 0 \<le> at \<and> at \<le> 9007199254740991 - 36500 * DAY_MS"
  by (auto simp: context_ok_def trigger_time_def split: if_splits option.splits)

lemma derive_layer_ok:
  assumes "context_ok p c" "layer_rule_ok t l"
  shows "\<exists>d. derive_layer c t l = Inr d \<and> dl_layer d = lr_layer l \<and> dl_action d = lr_action l
    \<and> dl_deleteAt d = (case (lr_durationDays l, trigger_time c (layer_trigger t l)) of
        (Some n, Some at) \<Rightarrow> Some (at + n * DAY_MS) | _ \<Rightarrow> None)"
proof -
  have "safe_integer (at + n * DAY_MS)"
    if "trigger_time c (layer_trigger t l) = Some at" "lr_durationDays l = Some n" for at n
    using trigger_time_bound [OF assms(1) that(1)] assms(2) that(2)
    by (simp add: layer_rule_ok_def safe_integer_def DAY_MS_def)
  then show ?thesis by (auto simp: derive_layer_def Let_def split: option.split)
qed

lemma derive_layer_name: "derive_layer c t l = Inr d \<Longrightarrow> dl_layer d = lr_layer l"
  by (auto simp: derive_layer_def Let_def split: option.splits if_splits)

lemma derive_layers_ok:
  assumes "context_ok p c" "list_all (layer_rule_ok t) ls"
  shows "\<exists>ds. map_err (derive_layer c t) ls = Inr ds"
  using derive_layer_ok [OF assms(1)] assms(2) by (intro map_err_total) (force simp: list_all_iff)

lemma schedule_of:
  assumes "retention_policy_ok p" "context_ok p c"
  defines "q \<equiv> p\<lparr>rp_rules := map settled_rule (rp_rules p)\<rparr>"
  shows "\<exists>r ds s. r \<in> set (rp_rules q) \<and> rr_outcome r = rc_outcome c \<and> retention_rule_ok r
    \<and> map_err (derive_layer c (rr_trigger r)) (rr_layers r) = Inr ds
    \<and> deriveRetentionSchedule sha q c = Inr s \<and> ds_layers s = ds \<and> ds_trigger s = rr_trigger r
    \<and> trigger_time c (rr_trigger r) = Some (ds_triggerAt s) \<and> ds_outcome s = rc_outcome c
    \<and> ds_credentialDisposition s = rr_credentialDisposition r"
proof -
  have q: "defineRetentionPolicy q = Inr q"
    using define_idempotent [of p q] assms(1) by (simp add: defineRetentionPolicy_def q_def)
  obtain r where r: "find (\<lambda>r. rr_outcome r = rc_outcome c) (rp_rules q) = Some r" "r \<in> set (rp_rules q)"
    "rr_outcome r = rc_outcome c" "retention_rule_ok r"
    using outcome_covered [OF assms(1), of "rc_outcome c"] assms(2) by (auto simp: q_def context_ok_def)
  obtain ds where ds: "map_err (derive_layer c (rr_trigger r)) (rr_layers r) = Inr ds"
    using derive_layers_ok [OF assms(2)] r(4) by (force simp: retention_rule_ok_def)
  obtain f where f: "retentionPolicyFingerprint sha q = Inr f" using fingerprint_of [OF q, of sha] by blast
  have c: "integer0 (rc_collectedAt c)" "integer0 (rc_decisionAt c)" "rc_customerId c = rp_customerId q"
    "rc_jurisdiction c = rp_jurisdiction q" "\<not> rc_decisionAt c < rc_collectedAt c"
    "\<not> (case rc_terminalAt c of None \<Rightarrow> False | Some t \<Rightarrow> \<not> integer0 t)"
    using assms(2) by (auto simp: context_ok_def integer_min_def safe_integer_def DAY_MS_def q_def split: option.splits)
  have "rr_trigger r = ''collected-at'' \<or> rr_trigger r = ''decision-at''"
    using r(4) by (auto simp: retention_rule_ok_def RETENTION_TRIGGERS_def)
  then show ?thesis using q r ds f c by (auto simp: deriveRetentionSchedule_def trigger_time_def)
qed

text \<open>C30. The deletion deadline of every record of a valid policy, for a context of its customer and
  jurisdiction with times in range: if the vault counts from a time that the context has, the evidence is
  produced for each of the four outcomes, and its vault deadline is that time plus the days that the policy's
  rule for the outcome gives to the vault. If the vault counts from \<^verbatim>\<open>terminal-at\<close> and the context has no
  terminal time, which a valid policy may ask for, the evidence is refused.\<close>

theorem retention_evidence_has_deadline:
  assumes "retention_policy_ok p" "context_ok p c"
  shows "\<exists>r l d. r \<in> set (rp_rules p) \<and> rr_outcome r = rc_outcome c
    \<and> l \<in> set (rr_layers r) \<and> lr_layer l = ''evidence-vault'' \<and> lr_durationDays l = Some d
    \<and> (case trigger_time c (layer_trigger (rr_trigger r) l) of
        None \<Rightarrow> retentionPolicyEvidence sha p c = Inl RetentionPolicyInvalid
      | Some at \<Rightarrow> (\<exists>e. retentionPolicyEvidence sha p c = Inr e \<and> re_vaultDeleteAt e = at + d * DAY_MS
          \<and> re_outcome e = rc_outcome c \<and> re_credentialDisposition e = rr_credentialDisposition r))"
proof -
  define q where "q = p\<lparr>rp_rules := map settled_rule (rp_rules p)\<rparr>"
  have pq: "defineRetentionPolicy p = Inr q" using assms(1) by (simp add: defineRetentionPolicy_def q_def)
  obtain r ds s where r: "r \<in> set (rp_rules q)" "rr_outcome r = rc_outcome c" "retention_rule_ok r"
    "map_err (derive_layer c (rr_trigger r)) (rr_layers r) = Inr ds" "deriveRetentionSchedule sha q c = Inr s" "ds_layers s = ds"
    "ds_outcome s = rc_outcome c" "ds_credentialDisposition s = rr_credentialDisposition r"
    using schedule_of [OF assms(1,2), of sha] unfolding q_def by blast
  have "''evidence-vault'' \<in> set RETENTION_LAYERS" by code_simp
  with layer_covered [OF r(3)] obtain m where m: "m \<in> set (rr_layers r)" "lr_layer m = ''evidence-vault''" by blast
  then obtain i where i: "i < length (rr_layers r)" "rr_layers r ! i = m" by (auto simp: in_set_conv_nth)
  have len: "length ds = length (rr_layers r)"
    and each: "\<And>k. k < length ds \<Longrightarrow> derive_layer c (rr_trigger r) (rr_layers r ! k) = Inr (ds ! k)"
    using map_err_nth [OF r(4)] by auto
  have name: "dl_layer (ds ! k) = lr_layer (rr_layers r ! k)" if "k < length ds" for k
    using derive_layer_name [OF each [OF that]] .
  have "ds ! i \<in> set ds" "dl_layer (ds ! i) = ''evidence-vault''" using i len m(2) name [of i] by auto
  then obtain v where v: "find (\<lambda>l. dl_layer l = ''evidence-vault'') ds = Some v" using find_total by fastforce
  then obtain k where k: "k < length ds" "v = ds ! k" "dl_layer v = ''evidence-vault''"
    using find_SomeD [OF v] by (auto simp: in_set_conv_nth)
  define l where "l = rr_layers r ! k"
  have l: "l \<in> set (rr_layers r)" "lr_layer l = ''evidence-vault''" using k len name [of k] by (auto simp: l_def)
  have lok: "layer_rule_ok (rr_trigger r) l" using r(3) l(1) by (auto simp: retention_rule_ok_def list_all_iff)
  then obtain d where d: "lr_durationDays l = Some d" using l(2) by (auto simp: layer_rule_ok_def)
  obtain r0 where r0: "r0 \<in> set (rp_rules p)" "r = settled_rule r0" using r(1) by (auto simp: q_def)
  obtain l0 where l0: "l0 \<in> set (rr_layers r0)" "l = settled_layer (rr_trigger r0) l0" using l(1) r0(2) by auto
  have tr: "layer_trigger (rr_trigger r) l = layer_trigger (rr_trigger r0) l0" using r0(2) l0(2) by simp
  have del: "dl_deleteAt v = map_option (\<lambda>at. at + d * DAY_MS) (trigger_time c (layer_trigger (rr_trigger r0) l0))"
    using derive_layer_ok [OF assms(2) lok] each [OF k(1)] d tr by (auto simp: l_def k(2) split: option.split)
  obtain b where b: "retentionPolicyBinding sha q = Inr b" using binding_of [OF define_idempotent [OF pq]] by blast
  have "r0 \<in> set (rp_rules p) \<and> rr_outcome r0 = rc_outcome c \<and> l0 \<in> set (rr_layers r0) \<and> lr_layer l0 = ''evidence-vault'' \<and> lr_durationDays l0 = Some d"
    using r0 l0 l(2) d r(2) by simp
  moreover have "case trigger_time c (layer_trigger (rr_trigger r0) l0) of None \<Rightarrow> retentionPolicyEvidence sha p c = Inl RetentionPolicyInvalid
      | Some at \<Rightarrow> (\<exists>e. retentionPolicyEvidence sha p c = Inr e \<and> re_vaultDeleteAt e = at + d * DAY_MS
          \<and> re_outcome e = rc_outcome c \<and> re_credentialDisposition e = rr_credentialDisposition r0)"
    using pq b r(5-8) v del r0(2) by (auto simp: retentionPolicyEvidence_def split: option.split)
  ultimately show ?thesis by blast
qed

lemma set_uniq: "set (uniq xs) = set xs"
  by (simp add: set_uniq_from)

text \<open>What the policy asks of the observation of one layer.\<close>

definition status_due :: "completion_observation \<Rightarrow> derived_layer \<Rightarrow> layer_observation \<Rightarrow> bool" where
  "status_due ob l a \<longleftrightarrow> policy_reference (lo_evidenceRef a)
     \<and> (if dl_action l = ''client-controlled'' then lo_status a = ''client-controlled''
        else if dl_action l = ''irreversible'' then lo_status a = ''irreversible-residual''
        else \<exists>d. dl_deleteAt l = Some d
          \<and> lo_status a = (if co_checkedAt ob < d \<and> dl_action l = ''retain-minimized'' then ''retained-minimized'' else ''deleted''))"

definition layer_completed :: "completion_observation \<Rightarrow> derived_layer \<Rightarrow> bool" where
  "layer_completed ob l \<longleftrightarrow> (\<exists>a \<in> set (co_layers ob). lo_layer a = dl_layer l \<and> status_due ob l a)"

lemma observed_unique:
  assumes "distinct (map lo_layer (co_layers ob))"
  shows "observed ob l = Some a \<longleftrightarrow> a \<in> set (co_layers ob) \<and> lo_layer a = l"
proof
  assume "observed ob l = Some a"
  from find_SomeD [OF this [unfolded observed_def]] show "a \<in> set (co_layers ob) \<and> lo_layer a = l" by simp
next
  assume a: "a \<in> set (co_layers ob) \<and> lo_layer a = l"
  then obtain b where b: "observed ob l = Some b" by (cases "observed ob l") (auto simp: observed_def find_None_iff)
  from find_SomeD [OF this [unfolded observed_def]] have m: "b \<in> set (co_layers ob)" "lo_layer b = l" by simp_all
  have i: "inj_on lo_layer (set (co_layers ob))" using assms by (simp add: distinct_map)
  have "b = a" by (rule inj_onD [OF i _ m(1)]) (use a m(2) in simp_all)
  with b show "observed ob l = Some a" by simp
qed

lemma layer_blockers_none:
  assumes "distinct (map lo_layer (co_layers ob))"
  shows "layer_blockers ob l = [] \<longleftrightarrow> layer_completed ob l"
proof (cases "observed ob (dl_layer l)")
  case None
  then have "\<not> layer_completed ob l" using observed_unique [OF assms, of "dl_layer l"] by (auto simp: layer_completed_def)
  then show ?thesis using None by (simp add: layer_blockers_def)
next
  case (Some a)
  have u: "x \<in> set (co_layers ob) \<and> lo_layer x = dl_layer l \<longleftrightarrow> x = a" for x
    using Some observed_unique [OF assms, of "dl_layer l" x] by auto
  have "layer_completed ob l \<longleftrightarrow> status_due ob l a"
    unfolding layer_completed_def Bex_def conj_assoc [symmetric] u by simp
  then show ?thesis using Some by (cases "dl_deleteAt l") (simp_all add: layer_blockers_def status_due_def not_less)
qed

text \<open>C31. Completion is exactly what the policy demands. \<^verbatim>\<open>assertRetentionCompletion\<close> accepts an observation of a
  schedule if and only if its time is a valid clock value, it is of the schedule's policy, no hold is active, the disposition of the
  credential is the one demanded, with the proof that belongs to it (revoked at the source and enforced on the
  hub, never issued, or maintained), each layer is observed at most once and is a known one, and every layer of the
  schedule is observed with a valid reference and the status that its action and deadline call for: disclosed where it is
  client-controlled or irreversible, and otherwise, with a deadline, deleted (minimised, where the action says so and the
  deadline has not passed).\<close>

theorem retention_completion_is_exact:
  "assertRetentionCompletion s ob = Inr () \<longleftrightarrow>
     integer0 (co_checkedAt ob) \<and> co_policyFingerprint ob = ds_policyFingerprint s \<and> co_activeHolds ob = []
     \<and> co_disposition ob = ds_credentialDisposition s
     \<and> \<not> (ds_credentialDisposition s = ''source-revoked'' \<and> \<not> (co_sourceRevoked ob \<and> co_hubEnforced ob))
     \<and> \<not> (ds_credentialDisposition s = ''not-issued'' \<and> \<not> co_neverIssued ob)
     \<and> \<not> (ds_credentialDisposition s = ''unchanged'' \<and> \<not> co_maintained ob)
     \<and> distinct (map lo_layer (co_layers ob)) \<and> lo_layer ` set (co_layers ob) \<subseteq> set RETENTION_LAYERS
     \<and> list_all (layer_completed ob) (ds_layers s)"
proof (cases "distinct (map lo_layer (co_layers ob))")
  case True
  have "concat (map (layer_blockers ob) (ds_layers s)) = [] \<longleftrightarrow> list_all (layer_completed ob) (ds_layers s)"
    using layer_blockers_none [OF True] by (auto simp: list_all_iff)
  moreover have "concat (map (\<lambda>l. if l \<notin> set RETENTION_LAYERS then [''UNKNOWN_LAYER_OBSERVATION''] else []) (uniq (map lo_layer (co_layers ob)))) = []
      \<longleftrightarrow> lo_layer ` set (co_layers ob) \<subseteq> set RETENTION_LAYERS" by (auto simp: set_uniq)
  ultimately show ?thesis
    by (simp add: assertRetentionCompletion_def Let_def completion_blockers_def True del: concat_eq_Nil_conv) (auto split: if_splits)
next
  case False
  then show ?thesis by (simp add: assertRetentionCompletion_def Let_def completion_blockers_def)
qed

section \<open>An example\<close>

definition sample_context :: retention_context where
  "sample_context = \<lparr>rc_customerId = ''synthetic-demo-only'', rc_jurisdiction = ''KR'', rc_outcome = ''review'',
     rc_collectedAt = 1000, rc_decisionAt = 2000, rc_terminalAt = None\<rparr>"

lemma synthetic_ok: "retention_policy_ok synthetic_retention_input"
  by code_simp

lemma sample_context_ok: "context_ok synthetic_retention_input sample_context"
  by code_simp

text \<open>The same policy with the vault counting from the terminal time, which the context does not have.\<close>

definition terminal_retention_input :: retention_policy where
  "terminal_retention_input = synthetic_retention_input\<lparr>rp_rules := map (\<lambda>r. r\<lparr>rr_layers := map (\<lambda>l.
     if lr_layer l = ''evidence-vault'' then l\<lparr>lr_trigger := Some ''terminal-at''\<rparr> else l) (rr_layers r)\<rparr>) (rp_rules synthetic_retention_input)\<rparr>"

theorem retention_evidence_has_deadline_witness:
  "(\<exists>e. retentionPolicyEvidence (\<lambda>t. t) synthetic_retention_input sample_context = Inr e \<and> re_vaultDeleteAt e = 2000 + 30 * DAY_MS)
   \<and> retention_policy_ok terminal_retention_input
   \<and> retentionPolicyEvidence (\<lambda>t. t) terminal_retention_input sample_context = Inl RetentionPolicyInvalid"
proof -
  have t: "retention_policy_ok terminal_retention_input" "context_ok terminal_retention_input sample_context" by code_simp+
  obtain r l d where a: "r \<in> set (rp_rules synthetic_retention_input)" "rr_outcome r = ''review''" "l \<in> set (rr_layers r)"
    "lr_layer l = ''evidence-vault''" "lr_durationDays l = Some d"
    "case trigger_time sample_context (layer_trigger (rr_trigger r) l) of
        None \<Rightarrow> retentionPolicyEvidence (\<lambda>t. t) synthetic_retention_input sample_context = Inl RetentionPolicyInvalid
      | Some at \<Rightarrow> (\<exists>e. retentionPolicyEvidence (\<lambda>t. t) synthetic_retention_input sample_context = Inr e \<and> re_vaultDeleteAt e = at + d * DAY_MS)"
    using retention_evidence_has_deadline [OF synthetic_ok sample_context_ok, of "\<lambda>t. t"]
    by (fastforce simp: sample_context_def split: option.splits)
  have "d = 30 \<and> trigger_time sample_context (layer_trigger (rr_trigger r) l) = Some 2000" using a(1-5)
    by (auto simp: synthetic_retention_input_def syntheticLayers_def layer_trigger_def trigger_time_def sample_context_def)
  with a(6) have one: "\<exists>e. retentionPolicyEvidence (\<lambda>t. t) synthetic_retention_input sample_context = Inr e \<and> re_vaultDeleteAt e = 2000 + 30 * DAY_MS"
    by simp
  obtain r l d where b: "r \<in> set (rp_rules terminal_retention_input)" "l \<in> set (rr_layers r)" "lr_layer l = ''evidence-vault''"
    "trigger_time sample_context (layer_trigger (rr_trigger r) l) = None
      \<longrightarrow> retentionPolicyEvidence (\<lambda>t. t) terminal_retention_input sample_context = Inl RetentionPolicyInvalid"
    using retention_evidence_has_deadline [OF t, of "\<lambda>t. t"] by (fastforce split: option.splits)
  have "trigger_time sample_context (layer_trigger (rr_trigger r) l) = None" using b(1-3)
    by (auto simp: terminal_retention_input_def synthetic_retention_input_def layer_trigger_def trigger_time_def sample_context_def)
  with b(4) one t(1) show ?thesis by blast
qed

theorem retention_binding_identifies_policy_witness:
  "defineRetentionPolicy synthetic_retention_input = defineRetentionPolicy (projr SYNTHETIC_RETENTION_POLICY)"
proof -
  define q where "q = projr SYNTHETIC_RETENTION_POLICY"
  have d: "defineRetentionPolicy synthetic_retention_input = Inr q"
    using synthetic_ok by (simp add: q_def SYNTHETIC_RETENTION_POLICY_def defineRetentionPolicy_def)
  obtain b where b: "retentionPolicyBinding (\<lambda>t. t) synthetic_retention_input = Inr b"
    "assertRetentionBinding (\<lambda>t. t) q b = Inr ()"
    using binding_of [OF d, of "\<lambda>t. t"] binding_of [OF define_idempotent [OF d], of "\<lambda>t. t"]
    by (auto simp: assertRetentionBinding_def)
  show ?thesis
    unfolding q_def [symmetric] by (rule retention_binding_identifies_policy [OF b]) simp
qed

end
