(* ===== verification/Processing.thy ===== *)
theory Processing
  imports Retention
begin

text \<open>
  The processing policy of \<^verbatim>\<open>pipeline/privacy-processing-policy.ts\<close>: which party may process which
  data at which stage. Validation, the binding a wallet consents to, the authorisation of one
  processing request and the consent text. As for the retention policy, enumerations are strings
  that are checked at run time and the digest is a parameter.
\<close>

section \<open>Data\<close>

record processing_flow =
  fl_stage :: string
  fl_recipient :: string
  fl_recipientRole :: string
  fl_countries :: "string list"
  fl_data :: "string list"
  fl_purposeRef :: string
  fl_legalBasisRef :: string
  fl_retentionRef :: string

record processing_notice =
  no_version :: string
  no_noticeRef :: string
  no_rightsRequestRef :: string
  no_refusalEffectRef :: string

record resident_identifier =
  ri_mode :: string
  ri_authorityRef :: "string option"
  ri_noticeRef :: "string option"
  ri_items :: "string list"

record onchain_policy =
  oc_approved :: bool
  oc_networks :: "string list"
  oc_data :: "string list"
  oc_publicationBasisRef :: "string option"
  oc_irreversibilityNoticeRef :: string

record processing_policy =
  pp_schema :: string
  pp_policyId :: string
  pp_customerId :: string
  pp_status :: string
  pp_operatingModel :: string
  pp_controllerId :: string
  pp_processorId :: "string option"
  pp_approvalRef :: "string option"
  pp_legalReviewRef :: "string option"
  pp_contractRef :: "string option"
  pp_notice :: processing_notice
  pp_residentIdentifier :: resident_identifier
  pp_onchain :: onchain_policy
  pp_flows :: "processing_flow list"

record processing_binding =
  pb_schema :: string
  pb_policyId :: string
  pb_noticeVersion :: string
  pb_fingerprint :: string

record processing_evidence =
  pe_schema :: string
  pe_policyId :: string
  pe_customerId :: string
  pe_operatingModel :: string
  pe_noticeVersion :: string
  pe_approvalRef :: "string option"
  pe_legalReviewRef :: "string option"
  pe_fingerprint :: string
  pe_consentStatementHash :: string

datatype processing_error = ProcessingPolicyInvalid | ProcessingPolicyChanged | ProcessingNotAuthorized | ProcessingPlainError

section \<open>Validation\<close>

definition PROCESSING_POLICY_SCHEMA :: string where
  "PROCESSING_POLICY_SCHEMA = ''proofmark-processing-policy-v1''"

definition PROCESSING_STAGES :: "string list" where
  "PROCESSING_STAGES = [''wallet_consent'', ''id_document'', ''bank_account'', ''issuance_processing'', ''recovery_journal'',
     ''evidence_vault'', ''onchain_publication'']"

definition PROCESSING_ROLES :: "string list" where
  "PROCESSING_ROLES = [''controller'', ''processor'', ''subprocessor'', ''public-recipient'']"

definition PROCESSING_DATA :: "string list" where
  "PROCESSING_DATA = [''wallet_address'', ''consent_record'', ''identity_document_image'', ''identity_fields'',
     ''resident_registration_number'', ''bank_account'', ''birth_date_fragment'', ''account_holder_name'',
     ''claim_openings'', ''screening_result'', ''evidence_record'', ''signed_transaction'',
     ''credential_metadata'', ''commitments'', ''biometric_template'']"

definition RRN_ITEMS :: "string list" where
  "RRN_ITEMS = [''customer_full'', ''customer_birth_fragment'', ''operator_full'']"

definition unique_in :: "(string \<Rightarrow> bool) \<Rightarrow> string list \<Rightarrow> bool" where
  "unique_in allowed xs \<longleftrightarrow> xs \<noteq> [] \<and> list_all allowed xs \<and> distinct xs"

definition parties_ok :: "processing_policy \<Rightarrow> bool" where
  "parties_ok p \<longleftrightarrow>
     policy_identifier (pp_policyId p) \<and> policy_identifier (pp_customerId p)
     \<and> pp_status p \<in> set [''synthetic'', ''approved'']
     \<and> pp_operatingModel p \<in> set [''first-party'', ''institution-service'', ''sdk-only'']
     \<and> policy_identifier (pp_controllerId p)
     \<and> (case pp_processorId p of None \<Rightarrow> True | Some x \<Rightarrow> policy_identifier x)
     \<and> \<not> (pp_operatingModel p = ''institution-service'' \<and> pp_processorId p = None)
     \<and> \<not> (pp_operatingModel p = ''first-party'' \<and> pp_processorId p \<noteq> None)
     \<and> \<not> (pp_operatingModel p = ''sdk-only'' \<and> pp_processorId p \<noteq> None)
     \<and> optional_reference (pp_approvalRef p) \<and> optional_reference (pp_legalReviewRef p) \<and> optional_reference (pp_contractRef p)
     \<and> (if pp_status p = ''approved''
        then pp_approvalRef p \<noteq> None \<and> pp_legalReviewRef p \<noteq> None \<and> pp_contractRef p \<noteq> None
        else pp_approvalRef p = None \<and> pp_legalReviewRef p = None \<and> pp_contractRef p = None)"

definition notice_ok :: "processing_notice \<Rightarrow> bool" where
  "notice_ok n \<longleftrightarrow> policy_identifier (no_version n) \<and> policy_reference (no_noticeRef n)
     \<and> policy_reference (no_rightsRequestRef n) \<and> policy_reference (no_refusalEffectRef n)"

definition resident_ok :: "string \<Rightarrow> resident_identifier \<Rightarrow> bool" where
  "resident_ok status r \<longleftrightarrow>
     ri_mode r \<in> set [''prohibited'', ''synthetic-only'', ''authorized'']
     \<and> (ri_items r = [] \<or> unique_in (\<lambda>x. x \<in> set RRN_ITEMS) (ri_items r))
     \<and> optional_reference (ri_authorityRef r) \<and> optional_reference (ri_noticeRef r)
     \<and> \<not> (ri_mode r = ''authorized'' \<and> (ri_authorityRef r = None \<or> ri_noticeRef r = None \<or> ri_items r = []))
     \<and> \<not> (ri_mode r = ''prohibited'' \<and> (ri_authorityRef r \<noteq> None \<or> ri_noticeRef r \<noteq> None \<or> ri_items r \<noteq> []))
     \<and> \<not> (ri_mode r = ''synthetic-only'' \<and> status \<noteq> ''synthetic'')"

definition onchain_ok :: "string \<Rightarrow> onchain_policy \<Rightarrow> bool" where
  "onchain_ok status c \<longleftrightarrow>
     unique_in policy_identifier (oc_networks c) \<and> unique_in (\<lambda>x. x \<in> set PROCESSING_DATA) (oc_data c)
     \<and> optional_reference (oc_publicationBasisRef c) \<and> policy_reference (oc_irreversibilityNoticeRef c)
     \<and> \<not> (status = ''approved'' \<and> (\<not> oc_approved c \<or> oc_publicationBasisRef c = None))
     \<and> \<not> (status = ''synthetic'' \<and> oc_publicationBasisRef c \<noteq> None)"

definition flow_ok :: "processing_flow \<Rightarrow> bool" where
  "flow_ok f \<longleftrightarrow>
     fl_stage f \<in> set PROCESSING_STAGES \<and> policy_identifier (fl_recipient f) \<and> fl_recipientRole f \<in> set PROCESSING_ROLES
     \<and> unique_in policy_jurisdiction (fl_countries f) \<and> unique_in (\<lambda>x. x \<in> set PROCESSING_DATA) (fl_data f)
     \<and> policy_reference (fl_purposeRef f) \<and> policy_reference (fl_legalBasisRef f) \<and> policy_reference (fl_retentionRef f)"

definition flows_ok :: "processing_policy \<Rightarrow> bool" where
  "flows_ok p \<longleftrightarrow>
     pp_flows p \<noteq> [] \<and> list_all flow_ok (pp_flows p)
     \<and> distinct (map (\<lambda>f. (fl_stage f, fl_recipient f)) (pp_flows p))
     \<and> list_ex (\<lambda>f. fl_stage f = ''wallet_consent'') (pp_flows p)
     \<and> \<not> (list_ex (\<lambda>f. ''resident_registration_number'' \<in> set (fl_data f)) (pp_flows p)
          \<and> ri_mode (pp_residentIdentifier p) = ''prohibited'')
     \<and> \<not> (\<not> list_ex (\<lambda>f. ''resident_registration_number'' \<in> set (fl_data f)) (pp_flows p)
          \<and> ri_items (pp_residentIdentifier p) \<noteq> [])
     \<and> (case find (\<lambda>f. fl_stage f = ''onchain_publication'') (pp_flows p) of
          None \<Rightarrow> \<not> oc_approved (pp_onchain p)
        | Some f \<Rightarrow> fl_recipientRole f = ''public-recipient'' \<and> ''GLOBAL'' \<in> set (fl_countries f)
            \<and> set (oc_data (pp_onchain p)) \<subseteq> set (fl_data f))"

definition processing_policy_ok :: "processing_policy \<Rightarrow> bool" where
  "processing_policy_ok p \<longleftrightarrow> pp_schema p = PROCESSING_POLICY_SCHEMA \<and> parties_ok p \<and> notice_ok (pp_notice p)
     \<and> resident_ok (pp_status p) (pp_residentIdentifier p) \<and> onchain_ok (pp_status p) (pp_onchain p) \<and> flows_ok p"

definition defineProcessingPolicy :: "processing_policy \<Rightarrow> processing_error + processing_policy" where
  "defineProcessingPolicy p = (if processing_policy_ok p then Inr p else Inl ProcessingPolicyInvalid)"

section \<open>Fingerprint, binding and consent\<close>

definition json_strs :: "string list \<Rightarrow> json" where
  "json_strs xs = JArr (map JStr xs)"

definition flow_json :: "processing_flow \<Rightarrow> json" where
  "flow_json f = JObj [(''stage'', JStr (fl_stage f)), (''recipient'', JStr (fl_recipient f)),
     (''recipientRole'', JStr (fl_recipientRole f)), (''countries'', json_strs (fl_countries f)), (''data'', json_strs (fl_data f)),
     (''purposeRef'', JStr (fl_purposeRef f)), (''legalBasisRef'', JStr (fl_legalBasisRef f)), (''retentionRef'', JStr (fl_retentionRef f))]"

definition notice_json :: "processing_notice \<Rightarrow> json" where
  "notice_json n = JObj [(''version'', JStr (no_version n)), (''noticeRef'', JStr (no_noticeRef n)),
     (''rightsRequestRef'', JStr (no_rightsRequestRef n)), (''refusalEffectRef'', JStr (no_refusalEffectRef n))]"

definition resident_json :: "resident_identifier \<Rightarrow> json" where
  "resident_json r = JObj [(''mode'', JStr (ri_mode r)), (''authorityRef'', json_opt JStr (ri_authorityRef r)),
     (''noticeRef'', json_opt JStr (ri_noticeRef r)), (''items'', json_strs (ri_items r))]"

definition onchain_json :: "onchain_policy \<Rightarrow> json" where
  "onchain_json c = JObj [(''approved'', JBool (oc_approved c)), (''networks'', json_strs (oc_networks c)),
     (''data'', json_strs (oc_data c)), (''publicationBasisRef'', json_opt JStr (oc_publicationBasisRef c)),
     (''irreversibilityNoticeRef'', JStr (oc_irreversibilityNoticeRef c))]"

definition processing_policy_json :: "processing_policy \<Rightarrow> json" where
  "processing_policy_json p = JObj [(''schema'', JStr (pp_schema p)), (''policyId'', JStr (pp_policyId p)),
     (''customerId'', JStr (pp_customerId p)), (''status'', JStr (pp_status p)), (''operatingModel'', JStr (pp_operatingModel p)),
     (''controllerId'', JStr (pp_controllerId p)), (''processorId'', json_opt JStr (pp_processorId p)),
     (''approvalRef'', json_opt JStr (pp_approvalRef p)), (''legalReviewRef'', json_opt JStr (pp_legalReviewRef p)),
     (''contractRef'', json_opt JStr (pp_contractRef p)), (''notice'', notice_json (pp_notice p)),
     (''residentIdentifier'', resident_json (pp_residentIdentifier p)), (''onchain'', onchain_json (pp_onchain p)),
     (''flows'', JArr (map flow_json (pp_flows p)))]"

definition processing_text :: "processing_policy \<Rightarrow> processing_error + string" where
  "processing_text p = (case canonicalJson (processing_policy_json p) of Inl e \<Rightarrow> Inl ProcessingPlainError
     | Inr t \<Rightarrow> Inr (''proofmark-processing-policy-v1|'' @ t))"

definition processingPolicyFingerprint :: "(string \<Rightarrow> string) \<Rightarrow> processing_policy \<Rightarrow> processing_error + string" where
  "processingPolicyFingerprint sha input = (case defineProcessingPolicy input of Inl e \<Rightarrow> Inl e
     | Inr p \<Rightarrow> (case processing_text p of Inl e \<Rightarrow> Inl e | Inr t \<Rightarrow> Inr (sha t)))"

definition policyBinding :: "(string \<Rightarrow> string) \<Rightarrow> processing_policy \<Rightarrow> processing_error + processing_binding" where
  "policyBinding sha input = (case defineProcessingPolicy input of Inl e \<Rightarrow> Inl e
     | Inr p \<Rightarrow> (case processingPolicyFingerprint sha p of Inl e \<Rightarrow> Inl e
       | Inr f \<Rightarrow> Inr \<lparr>pb_schema = ''proofmark-processing-policy-binding-v1'', pb_policyId = pp_policyId p,
           pb_noticeVersion = no_version (pp_notice p), pb_fingerprint = f\<rparr>))"

definition processingConsentStatement :: "processing_policy \<Rightarrow> processing_error + string" where
  "processingConsentStatement input = (case defineProcessingPolicy input of Inl e \<Rightarrow> Inl e
     | Inr p \<Rightarrow>
       let recipients = join '','' (uniq (map fl_recipient (pp_flows p)));
           countries = join '','' (uniq (concat (map fl_countries (pp_flows p))));
           rrn = (if ri_mode (pp_residentIdentifier p) = ''authorized'' then ''authorized RRN items''
             else if ri_mode (pp_residentIdentifier p) = ''synthetic-only'' then ''synthetic RRN fixture only'' else ''no RRN'');
           publication = (if oc_approved (pp_onchain p)
             then ''wallet-linked metadata and commitments are published irreversibly on '' @ join '','' (oc_networks (pp_onchain p))
             else ''on-chain publication is disabled for this flow'')
       in Inr (''Proofmark notice '' @ no_version (pp_notice p) @ '': policy '' @ pp_policyId p @ ''; model '' @ pp_operatingModel p
         @ ''; controller '' @ pp_controllerId p @ ''; recipients '' @ recipients @ ''; locations '' @ countries @ ''; '' @ rrn
         @ ''; rights '' @ no_rightsRequestRef (pp_notice p) @ ''; retention follows each approved flow; '' @ publication @ ''.''))"

definition consentTextHash :: "(string \<Rightarrow> string) \<Rightarrow> string \<Rightarrow> processing_error + string" where
  "consentTextHash sha s = (if s = [] then Inl ProcessingPlainError
     else Inr (''0x'' @ sha (''proofmark-consent-text-v1'' @ [CHR 0x00] @ s)))"

definition processingConsentStatementHash :: "(string \<Rightarrow> string) \<Rightarrow> processing_policy \<Rightarrow> processing_error + string" where
  "processingConsentStatementHash sha input = (case processingConsentStatement input of Inl e \<Rightarrow> Inl e
     | Inr s \<Rightarrow> consentTextHash sha s)"

definition processingPolicyEvidence :: "(string \<Rightarrow> string) \<Rightarrow> processing_policy \<Rightarrow> processing_error + processing_evidence" where
  "processingPolicyEvidence sha input = (case defineProcessingPolicy input of Inl e \<Rightarrow> Inl e
     | Inr p \<Rightarrow> (case processingPolicyFingerprint sha p of Inl e \<Rightarrow> Inl e
       | Inr f \<Rightarrow> (case processingConsentStatementHash sha p of Inl e \<Rightarrow> Inl e
         | Inr h \<Rightarrow> Inr \<lparr>pe_schema = ''proofmark-processing-policy-evidence-v1'', pe_policyId = pp_policyId p,
             pe_customerId = pp_customerId p, pe_operatingModel = pp_operatingModel p,
             pe_noticeVersion = no_version (pp_notice p), pe_approvalRef = pp_approvalRef p,
             pe_legalReviewRef = pp_legalReviewRef p, pe_fingerprint = f, pe_consentStatementHash = h\<rparr>)))"

section \<open>Authorisation\<close>

record processing_request =
  rq_stage :: string
  rq_recipient :: string
  rq_data :: "string list"

definition authorizeProcessing ::
  "(string \<Rightarrow> string) \<Rightarrow> processing_policy \<Rightarrow> processing_binding \<Rightarrow> processing_request \<Rightarrow> processing_error + unit" where
  "authorizeProcessing sha input b req = (case defineProcessingPolicy input of Inl e \<Rightarrow> Inl e
     | Inr p \<Rightarrow> (case policyBinding sha p of Inl e \<Rightarrow> Inl e
       | Inr expected \<Rightarrow>
         if pb_schema b \<noteq> pb_schema expected \<or> pb_policyId b \<noteq> pb_policyId expected
           \<or> pb_noticeVersion b \<noteq> pb_noticeVersion expected \<or> pb_fingerprint b \<noteq> pb_fingerprint expected
         then Inl ProcessingPolicyChanged
         else if pp_operatingModel p = ''sdk-only'' \<and> rq_stage req \<noteq> ''wallet_consent'' then Inl ProcessingNotAuthorized
         else (case find (\<lambda>f. fl_stage f = rq_stage req \<and> fl_recipient f = rq_recipient req) (pp_flows p) of
             None \<Rightarrow> Inl ProcessingNotAuthorized
           | Some f \<Rightarrow>
             if list_ex (\<lambda>x. x \<notin> set (fl_data f)) (rq_data req) then Inl ProcessingNotAuthorized
             else if ''resident_registration_number'' \<in> set (rq_data req) \<and> ri_mode (pp_residentIdentifier p) = ''prohibited''
             then Inl ProcessingNotAuthorized
             else if rq_stage req = ''onchain_publication'' \<and> \<not> oc_approved (pp_onchain p) then Inl ProcessingNotAuthorized
             else Inr ())))"

section \<open>The synthetic policy\<close>

definition synthetic_flow :: "string \<Rightarrow> string \<Rightarrow> string \<Rightarrow> string \<Rightarrow> string list \<Rightarrow> string \<Rightarrow> string \<Rightarrow> processing_flow" where
  "synthetic_flow stage recipient role country items purpose retention =
     \<lparr>fl_stage = stage, fl_recipient = recipient, fl_recipientRole = role, fl_countries = [country], fl_data = items,
      fl_purposeRef = purpose, fl_legalBasisRef = ''basis:synthetic-fixture'', fl_retentionRef = retention\<rparr>"

definition synthetic_processing_input :: processing_policy where
  "synthetic_processing_input = \<lparr>pp_schema = PROCESSING_POLICY_SCHEMA, pp_policyId = ''proofmark-synthetic-processing-v1'',
     pp_customerId = ''synthetic-demo-only'', pp_status = ''synthetic'', pp_operatingModel = ''first-party'',
     pp_controllerId = ''proofmark-demo'', pp_processorId = None, pp_approvalRef = None, pp_legalReviewRef = None, pp_contractRef = None,
     pp_notice = \<lparr>no_version = ''proofmark-kyc-v4-synthetic'', no_noticeRef = ''notice:synthetic-demo:v1'',
       no_rightsRequestRef = ''rights:synthetic-demo:v1'', no_refusalEffectRef = ''notice:synthetic-demo:refusal-v1''\<rparr>,
     pp_residentIdentifier = \<lparr>ri_mode = ''synthetic-only'', ri_authorityRef = None,
       ri_noticeRef = Some ''notice:synthetic-fixtures-only:v1'', ri_items = [''customer_full'', ''customer_birth_fragment'']\<rparr>,
     pp_onchain = \<lparr>oc_approved = True, oc_networks = [''ethereum-sepolia'', ''creditcoin-cc3''],
       oc_data = [''wallet_address'', ''credential_metadata'', ''commitments''], oc_publicationBasisRef = None,
       oc_irreversibilityNoticeRef = ''notice:synthetic-onchain-irreversibility:v1''\<rparr>,
     pp_flows =
       [synthetic_flow ''wallet_consent'' ''proofmark:web'' ''controller'' ''KR'' [''wallet_address'', ''consent_record'']
          ''purpose:synthetic-wallet'' ''retention:wallet-token'',
        synthetic_flow ''id_document'' ''demo:id'' ''controller'' ''KR''
          [''identity_document_image'', ''identity_fields'', ''resident_registration_number''] ''purpose:synthetic-id'' ''retention:browser-token'',
        synthetic_flow ''bank_account'' ''demo:bank'' ''controller'' ''KR''
          [''bank_account'', ''birth_date_fragment'', ''account_holder_name''] ''purpose:synthetic-bank'' ''retention:demo-bank-state'',
        synthetic_flow ''issuance_processing'' ''proofmark:issuer'' ''controller'' ''KR''
          [''identity_fields'', ''account_holder_name'', ''claim_openings'', ''screening_result'']
          ''purpose:synthetic-issuance'' ''retention:issuance-memory'',
        synthetic_flow ''recovery_journal'' ''proofmark:journal'' ''controller'' ''KR''
          [''wallet_address'', ''claim_openings'', ''evidence_record'', ''signed_transaction'']
          ''purpose:synthetic-recovery'' ''retention:journal-terminal-24h'',
        synthetic_flow ''onchain_publication'' ''public:blockchains'' ''public-recipient'' ''GLOBAL''
          [''wallet_address'', ''credential_metadata'', ''commitments''] ''purpose:synthetic-publication'' ''retention:immutable-ledger'']\<rparr>"

definition SYNTHETIC_PROCESSING_POLICY :: "processing_error + processing_policy" where
  "SYNTHETIC_PROCESSING_POLICY = defineProcessingPolicy synthetic_processing_input"

section \<open>What an authorisation means\<close>

lemma json_strs_plain [simp]: "plain (json_strs xs)"
  by (simp add: json_strs_def list_all_iff)

lemma json_strs_same [simp]: "sortDeep (json_strs xs) = sortDeep (json_strs ys) \<longleftrightarrow> xs = ys"
proof
  assume e: "sortDeep (json_strs xs) = sortDeep (json_strs ys)"
  obtain j where "sortDeep (json_strs xs) = Inr j" using sortDeep_total [OF json_strs_plain] by blast
  from same_array [OF e [unfolded json_strs_def] this [unfolded json_strs_def]] show "xs = ys"
    by (rule list_all2_map_eq) simp
qed simp

lemma processing_plain:
  "plain (flow_json f)" "plain (notice_json n)" "plain (resident_json r)" "plain (onchain_json c)" "plain (processing_policy_json p)"
  by (simp_all add: flow_json_def notice_json_def resident_json_def onchain_json_def processing_policy_json_def list_all_iff)

lemma flow_same: "sortDeep (flow_json f) = sortDeep (flow_json g) \<Longrightarrow> f = g"
proof -
  assume e: "sortDeep (flow_json f) = sortDeep (flow_json g)"
  from same_members [OF e [unfolded flow_json_def] processing_plain(1) [of f, unfolded flow_json_def]]
  show ?thesis by simp
qed

lemma notice_same: "sortDeep (notice_json m) = sortDeep (notice_json n) \<Longrightarrow> m = n"
proof -
  assume e: "sortDeep (notice_json m) = sortDeep (notice_json n)"
  from same_members [OF e [unfolded notice_json_def] processing_plain(2) [of m, unfolded notice_json_def]]
  show ?thesis by simp
qed

lemma resident_same: "sortDeep (resident_json m) = sortDeep (resident_json n) \<Longrightarrow> m = n"
proof -
  assume e: "sortDeep (resident_json m) = sortDeep (resident_json n)"
  from same_members [OF e [unfolded resident_json_def] processing_plain(3) [of m, unfolded resident_json_def]]
  show ?thesis by simp
qed

lemma onchain_same: "sortDeep (onchain_json m) = sortDeep (onchain_json n) \<Longrightarrow> m = n"
proof -
  assume e: "sortDeep (onchain_json m) = sortDeep (onchain_json n)"
  from same_members [OF e [unfolded onchain_json_def] processing_plain(4) [of m, unfolded onchain_json_def]]
  show ?thesis by simp
qed

lemma processing_policy_same: "sortDeep (processing_policy_json p) = sortDeep (processing_policy_json q) \<Longrightarrow> p = q"
proof -
  assume e: "sortDeep (processing_policy_json p) = sortDeep (processing_policy_json q)"
  from same_members [OF e [unfolded processing_policy_json_def] processing_plain(5) [of p, unfolded processing_policy_json_def]]
  have m: "pp_schema p = pp_schema q" "pp_policyId p = pp_policyId q" "pp_customerId p = pp_customerId q" "pp_status p = pp_status q"
    "pp_operatingModel p = pp_operatingModel q" "pp_controllerId p = pp_controllerId q" "pp_processorId p = pp_processorId q"
    "pp_approvalRef p = pp_approvalRef q" "pp_legalReviewRef p = pp_legalReviewRef q" "pp_contractRef p = pp_contractRef q"
    "sortDeep (notice_json (pp_notice p)) = sortDeep (notice_json (pp_notice q))"
    "sortDeep (resident_json (pp_residentIdentifier p)) = sortDeep (resident_json (pp_residentIdentifier q))"
    "sortDeep (onchain_json (pp_onchain p)) = sortDeep (onchain_json (pp_onchain q))"
    "sortDeep (JArr (map flow_json (pp_flows p))) = sortDeep (JArr (map flow_json (pp_flows q)))"
    by (simp_all del: sortDeep.simps(3,4))
  have "plain (JArr (map flow_json (pp_flows p)))" using processing_plain(1) by (simp add: list_all_iff)
  then obtain j where "sortDeep (JArr (map flow_json (pp_flows p))) = Inr j" using sortDeep_total by blast
  from same_array [OF m(14) this] have "pp_flows p = pp_flows q" by (rule list_all2_map_eq) (rule flow_same)
  with m show "p = q" using notice_same resident_same onchain_same by (metis (full_types) old.unit.exhaust processing_policy.surjective)
qed

lemma processing_text_total: "\<exists>t. processing_text p = Inr t"
  using sortDeep_total [OF processing_plain(5) [of p]] by (auto simp: processing_text_def canonicalJson_def)

text \<open>C27. An authorised request is one the consented policy allows: when \<^verbatim>\<open>authorizeProcessing\<close> accepts a
  request under a binding that was computed from some policy, that policy is the one in force
  (unless the digest collides on the two texts), it is valid, one of its flows names this stage
  and recipient and covers every requested category, a resident number is only processed where
  the policy does not prohibit it, publication only where it is approved, and a policy for the
  SDK alone authorises nothing but the wallet consent.\<close>

theorem authorized_processing_is_consented:
  assumes "policyBinding sha p = Inr b" "authorizeProcessing sha q b req = Inr ()"
    and "\<And>t u. processing_text p = Inr t \<Longrightarrow> processing_text q = Inr u \<Longrightarrow> sha t = sha u \<Longrightarrow> t = u"
  shows "p = q \<and> processing_policy_ok p
    \<and> (\<exists>f \<in> set (pp_flows p). fl_stage f = rq_stage req \<and> fl_recipient f = rq_recipient req \<and> set (rq_data req) \<subseteq> set (fl_data f))
    \<and> (''resident_registration_number'' \<in> set (rq_data req) \<longrightarrow> ri_mode (pp_residentIdentifier p) \<noteq> ''prohibited'')
    \<and> (rq_stage req = ''onchain_publication'' \<longrightarrow> oc_approved (pp_onchain p))
    \<and> (pp_operatingModel p = ''sdk-only'' \<longrightarrow> rq_stage req = ''wallet_consent'')"
proof -
  obtain t u where tu: "processing_text p = Inr t" "processing_text q = Inr u" using processing_text_total by metis
  have ok: "processing_policy_ok p" "processing_policy_ok q"
    using assms(1,2) by (auto simp: policyBinding_def authorizeProcessing_def defineProcessingPolicy_def split: if_splits)
  have b: "b = \<lparr>pb_schema = ''proofmark-processing-policy-binding-v1'', pb_policyId = pp_policyId p,
      pb_noticeVersion = no_version (pp_notice p), pb_fingerprint = sha t\<rparr>"
    using assms(1) ok(1) tu(1) by (simp add: policyBinding_def processingPolicyFingerprint_def defineProcessingPolicy_def)
  have q: "policyBinding sha q = Inr \<lparr>pb_schema = ''proofmark-processing-policy-binding-v1'', pb_policyId = pp_policyId q,
      pb_noticeVersion = no_version (pp_notice q), pb_fingerprint = sha u\<rparr>"
    using ok(2) tu(2) by (simp add: policyBinding_def processingPolicyFingerprint_def defineProcessingPolicy_def)
  have "sha t = sha u" using assms(2) ok(2) q b by (auto simp: authorizeProcessing_def defineProcessingPolicy_def split: if_splits)
  then have "t = u" using assms(3) tu by blast
  then obtain x where "canonicalJson (processing_policy_json p) = Inr x" "canonicalJson (processing_policy_json q) = Inr x"
    using tu by (auto simp: processing_text_def split: sum.splits)
  then have "p = q" using processing_policy_same canonical_injective by blast
  moreover obtain f where f: "find (\<lambda>f. fl_stage f = rq_stage req \<and> fl_recipient f = rq_recipient req) (pp_flows q) = Some f"
    "\<not> list_ex (\<lambda>x. x \<notin> set (fl_data f)) (rq_data req)"
    "\<not> (''resident_registration_number'' \<in> set (rq_data req) \<and> ri_mode (pp_residentIdentifier q) = ''prohibited'')"
    "\<not> (rq_stage req = ''onchain_publication'' \<and> \<not> oc_approved (pp_onchain q))"
    "\<not> (pp_operatingModel q = ''sdk-only'' \<and> rq_stage req \<noteq> ''wallet_consent'')"
    using assms(2) ok(2) q by (auto simp: authorizeProcessing_def defineProcessingPolicy_def split: if_splits option.splits)
  ultimately show ?thesis using ok(1) find_SomeD [OF f(1)] by (auto simp: list_ex_iff)
qed

section \<open>An example\<close>

definition sample_request :: processing_request where
  "sample_request = \<lparr>rq_stage = ''id_document'', rq_recipient = ''demo:id'', rq_data = [''resident_registration_number'']\<rparr>"

lemma synthetic_processing_ok: "processing_policy_ok synthetic_processing_input"
  by code_simp

theorem authorized_processing_is_consented_witness:
  "ri_mode (pp_residentIdentifier synthetic_processing_input) \<noteq> ''prohibited''
   \<and> (\<exists>f \<in> set (pp_flows synthetic_processing_input). fl_stage f = ''id_document'')"
proof -
  obtain b where b: "policyBinding (\<lambda>t. t) synthetic_processing_input = Inr b"
    using synthetic_processing_ok processing_text_total [of synthetic_processing_input]
    by (auto simp: policyBinding_def processingPolicyFingerprint_def defineProcessingPolicy_def)
  have f: "find (\<lambda>f. fl_stage f = ''id_document'' \<and> fl_recipient f = ''demo:id'') (pp_flows synthetic_processing_input)
      = Some (pp_flows synthetic_processing_input ! 1)"
    "list_ex (\<lambda>x. x \<notin> set (fl_data (pp_flows synthetic_processing_input ! 1))) [''resident_registration_number''] = False"
    "ri_mode (pp_residentIdentifier synthetic_processing_input) = ''synthetic-only''"
    "pp_operatingModel synthetic_processing_input = ''first-party''"
    by code_simp+
  have "authorizeProcessing (\<lambda>t. t) synthetic_processing_input b sample_request = Inr ()"
    using synthetic_processing_ok b f by (simp add: authorizeProcessing_def defineProcessingPolicy_def sample_request_def)
  from authorized_processing_is_consented [OF b this] show ?thesis
    by (auto simp: sample_request_def)
qed

end
