(* ===== verification/Aml_Types.thy ===== *)
theory Aml_Types
  imports Prelude
begin

text \<open>The subject of a screening: the part of \<^verbatim>\<open>aml/types.ts\<close> that the vault and the engine share.\<close>

record screening_subject =
  ss_fullName :: string
  ss_romanizedName :: "string option"
  ss_dateOfBirth :: string
  ss_nationality :: string
  ss_residence :: string
  ss_walletAddress :: string

end
