(* ===== verification/Revocation.thy ===== *)
theory Revocation
  imports Canonical
begin

text \<open>
  What was observed of a revocation on the two chains: \<^verbatim>\<open>pipeline/revocation-check.ts\<close> and
  \<^verbatim>\<open>pipeline/revocation-observation.ts\<close>. The providers of \<^verbatim>\<open>ethers\<close> are a record of the answers to
  the reads that \<^verbatim>\<open>checkRevocation\<close> makes, in the order of the code, so that a block that is read
  twice may have two different answers.
\<close>

section \<open>Observations\<close>

record check_config =
  cc_source :: string
  cc_asc :: string
  cc_registry :: string
  cc_expectedRevoker :: string
  cc_sourceCodeHash :: string
  cc_ascCodeHash :: string
  cc_registryCodeHash :: string
  cc_policyIds :: "int list"
  cc_confirmations :: int

record head_seen =
  hs_blockNumber :: int
  hs_blockHash :: string
  hs_timestamp :: int

record source_seen =
  sn_transactionHash :: string
  sn_blockNumber :: int
  sn_blockHash :: string
  sn_transactionIndex :: int
  sn_receiptLogIndex :: int
  sn_confirmations :: int
  sn_head :: head_seen

record hub_cursor =
  hc_height :: string
  hc_transactionIndex :: string
  hc_receiptLogIndex :: string

record hub_seen =
  hu_blockNumber :: int
  hu_blockHash :: string
  hu_timestamp :: int
  hu_tombstone :: bool
  hu_cursor :: hub_cursor
  hu_policies :: "(int \<times> bool) list"

record revocation_observation =
  ob_version :: int
  ob_operator :: string
  ob_observedAt :: int
  ob_config :: check_config
  ob_state :: string
  ob_source :: source_seen
  ob_hub :: hub_seen

datatype observation_error = InvalidObservation | IncompleteObservation

definition opaque_reference :: "string \<Rightarrow> bool" where
  "opaque_reference = label_ok ''_.:-'' 0 127"

definition ZeroAddress :: string where
  "ZeroAddress = ''0x'' @ replicate 40 CHR ''0''"

definition known_address :: "(string \<Rightarrow> bool) \<Rightarrow> string \<Rightarrow> bool" where
  "known_address isAddress a \<longleftrightarrow> isAddress a \<and> to_lower a \<noteq> ZeroAddress"

text \<open>A decimal string without leading zeros that fits in the given number of bits.\<close>

definition coordinate_ok :: "nat \<Rightarrow> string \<Rightarrow> bool" where
  "coordinate_ok bits s \<longleftrightarrow> s \<noteq> [] \<and> list_all digit s \<and> (s = ''0'' \<or> hd s \<noteq> CHR ''0'') \<and> length s \<le> 78
     \<and> index_value s < 2 ^ bits"

definition cursor_coordinates :: "hub_cursor \<Rightarrow> int list" where
  "cursor_coordinates c = [int (index_value (hc_height c)), int (index_value (hc_transactionIndex c)), int (index_value (hc_receiptLogIndex c))]"

definition source_coordinates :: "source_seen \<Rightarrow> int list" where
  "source_coordinates s = [sn_blockNumber s, sn_transactionIndex s, sn_receiptLogIndex s]"

fun first_difference :: "int list \<Rightarrow> int list \<Rightarrow> (int \<times> int) option" where
  "first_difference (a # as) (b # bs) = (if a \<noteq> b then Some (a, b) else first_difference as bs)"
| "first_difference _ _ = None"

definition observed_state :: "source_seen \<Rightarrow> hub_seen \<Rightarrow> string" where
  "observed_state s h =
     (case first_difference (cursor_coordinates (hu_cursor h)) (source_coordinates s) of
        None \<Rightarrow> if hu_tombstone h \<and> list_all (\<lambda>(i, v). \<not> v) (hu_policies h) then ''ENFORCED'' else ''INCONSISTENT''
      | Some (a, b) \<Rightarrow> if a > b then ''SUPERSEDED'' else ''AWAITING_HUB'')"

definition observation_ok :: "(string \<Rightarrow> bool) \<Rightarrow> revocation_observation \<Rightarrow> bool" where
  "observation_ok isAddress v \<longleftrightarrow>
     (let c = ob_config v; s = ob_source v; h = ob_hub v in
      ob_version v = 1 \<and> opaque_reference (ob_operator v)
      \<and> integer0 (ob_observedAt v) \<and> ob_observedAt v > 0 \<and> ob_observedAt v \<le> 9007199254740991 div 1000
      \<and> integer0 (cc_confirmations c) \<and> cc_confirmations c > 0
      \<and> cc_policyIds c \<noteq> [] \<and> length (cc_policyIds c) \<le> 16 \<and> list_all (\<lambda>i. integer0 i \<and> i > 0) (cc_policyIds c)
      \<and> distinct (cc_policyIds c)
      \<and> list_all integer0 [sn_blockNumber s, sn_transactionIndex s, sn_receiptLogIndex s, sn_confirmations s,
          hs_blockNumber (sn_head s), hs_timestamp (sn_head s), hu_blockNumber h, hu_timestamp h]
      \<and> sn_confirmations s \<ge> cc_confirmations c \<and> hu_timestamp h > 0 \<and> hu_timestamp h \<le> ob_observedAt v + 30
      \<and> ob_observedAt v - hu_timestamp h \<le> 300
      \<and> hs_blockNumber (sn_head s) \<ge> sn_blockNumber s
      \<and> hs_blockNumber (sn_head s) - sn_blockNumber s + 1 = sn_confirmations s
      \<and> hs_timestamp (sn_head s) > 0 \<and> hs_timestamp (sn_head s) \<le> ob_observedAt v + 30
      \<and> ob_observedAt v - hs_timestamp (sn_head s) \<le> 300
      \<and> length (hu_policies h) = length (cc_policyIds c) \<and> map fst (hu_policies h) = cc_policyIds c
      \<and> coordinate_ok 64 (hc_height (hu_cursor h)) \<and> coordinate_ok 64 (hc_transactionIndex (hu_cursor h))
      \<and> coordinate_ok 256 (hc_receiptLogIndex (hu_cursor h))
      \<and> ob_state v = observed_state s h
      \<and> list_all (known_address isAddress) [cc_source c, cc_asc c, cc_registry c, cc_expectedRevoker c]
      \<and> list_all is_hash [cc_sourceCodeHash c, cc_ascCodeHash c, cc_registryCodeHash c,
          sn_transactionHash s, sn_blockHash s, hs_blockHash (sn_head s), hu_blockHash h])"

definition lower_observation :: "revocation_observation \<Rightarrow> revocation_observation" where
  "lower_observation v =
     (let c = ob_config v; s = ob_source v; h = ob_hub v in
      v\<lparr>ob_config := c\<lparr>cc_source := to_lower (cc_source c), cc_asc := to_lower (cc_asc c), cc_registry := to_lower (cc_registry c),
          cc_expectedRevoker := to_lower (cc_expectedRevoker c), cc_sourceCodeHash := to_lower (cc_sourceCodeHash c),
          cc_ascCodeHash := to_lower (cc_ascCodeHash c), cc_registryCodeHash := to_lower (cc_registryCodeHash c)\<rparr>,
        ob_source := s\<lparr>sn_transactionHash := to_lower (sn_transactionHash s), sn_blockHash := to_lower (sn_blockHash s),
          sn_head := (sn_head s)\<lparr>hs_blockHash := to_lower (hs_blockHash (sn_head s))\<rparr>\<rparr>,
        ob_hub := h\<lparr>hu_blockHash := to_lower (hu_blockHash h)\<rparr>\<rparr>)"

definition normalizeRevocationObservation ::
  "(string \<Rightarrow> bool) \<Rightarrow> revocation_observation \<Rightarrow> observation_error + revocation_observation" where
  "normalizeRevocationObservation isAddress v =
     (if observation_ok isAddress v then Inr (lower_observation v) else Inl InvalidObservation)"

section \<open>Revocation jobs\<close>

datatype revocation_state = RevPending | RevPrepared | RevConfirmed

record revocation_tx =
  rt_hash :: string
  rt_raw :: string
  rt_chainId :: int
  rt_source :: string

record revocation_job =
  rj_id :: string
  rj_recordId :: string
  rj_walletAddress :: string
  rj_createdAt :: int
  rj_state :: revocation_state
  rj_sourceTarget :: "(int \<times> string) option"
  rj_transaction :: "revocation_tx option"
  rj_confirmedAt :: "int option"
  rj_lastError :: "string option"
  rj_observations :: "(int \<times> revocation_observation) list"

text \<open>\<^verbatim>\<open>assertRevocationTarget\<close> of \<^verbatim>\<open>pipeline/rescreen.ts\<close>.\<close>

definition assertRevocationTarget :: "revocation_job \<Rightarrow> int \<Rightarrow> string \<Rightarrow> bool" where
  "assertRevocationTarget job chainId source \<longleftrightarrow>
     (case rj_sourceTarget job of None \<Rightarrow> True | Some (c, s) \<Rightarrow> c = chainId \<and> to_lower s = to_lower source)"

section \<open>The check\<close>

record rpc_block =
  bk_number :: int
  bk_hash :: "string option"
  bk_timestamp :: int

record rpc_log =
  lg_address :: string
  lg_topics :: nat
  lg_data :: string
  lg_parsed :: "(string \<times> int) option"

record rpc_receipt =
  rc_hash :: string
  rc_to :: "string option"
  rc_from :: string
  rc_blockNumber :: int
  rc_index :: int
  rc_blockHash :: string
  rc_status :: int
  rc_logs :: "rpc_log list"

record check_reads =
  cr_sourceChain :: int
  cr_hubChain :: int
  cr_sourceHead :: "rpc_block option"
  cr_hubHead :: "rpc_block option"
  cr_sourceCode :: string
  cr_ascCode :: string
  cr_registryCode :: string
  cr_receipt :: "rpc_receipt option"
  cr_sourceBlock :: "rpc_block option"
  cr_codeAtReceipt :: string
  cr_boundSource :: string
  cr_chainKey :: int
  cr_version :: int
  cr_boundAsc :: string
  cr_policyVersion :: int
  cr_tombstone :: bool
  cr_height :: nat
  cr_txIndex :: nat
  cr_logIndex :: nat
  cr_policy :: "int \<Rightarrow> string \<times> bool \<times> bool"
  cr_sourceAgain :: "rpc_block option"
  cr_headAgain :: "rpc_block option"
  cr_hubAgain :: "rpc_block option"

datatype check_error =
    InvalidCheckConfig | InvalidCheckAddress | SourceTargetMismatch | WrongChain | StaleOrInvalidHead | RuntimePinMismatch
  | SourceReceiptMismatch | SourceReorg | SourceEventMismatch | InvalidPolicyObservation | HubBindingMismatch | ObservationReorg

datatype check_result =
    Unsigned | SourcePending string | SourceUnconfirmed string int | SourceReverted string
  | Observed string bool source_seen hub_seen int

definition same_hex :: "string \<Rightarrow> string \<Rightarrow> bool" where
  "same_hex a b \<longleftrightarrow> to_lower a = to_lower b"

definition fresh_head :: "rpc_block option \<Rightarrow> int \<Rightarrow> bool" where
  "fresh_head b now \<longleftrightarrow> (case b of None \<Rightarrow> False
     | Some b \<Rightarrow> (case bk_hash b of None \<Rightarrow> False | Some h \<Rightarrow> is_hash h) \<and> safe_integer (bk_number b) \<and> bk_number b \<ge> 0
        \<and> safe_integer (bk_timestamp b) \<and> bk_timestamp b > 0 \<and> bk_timestamp b \<le> now + 30 \<and> now - bk_timestamp b \<le> 300)"

definition revoked_logs :: "check_config \<Rightarrow> string \<Rightarrow> rpc_log list \<Rightarrow> (nat \<times> rpc_log) list" where
  "revoked_logs cfg wallet logs = filter (\<lambda>(i, l). same_hex (lg_address l) (cc_source cfg)
     \<and> (case lg_parsed l of None \<Rightarrow> False | Some (subject, reason) \<Rightarrow> same_hex subject wallet)) (zip [0..<length logs] logs)"

definition check_config_ok :: "check_config \<Rightarrow> bool" where
  "check_config_ok cfg \<longleftrightarrow>
     list_all is_hash [cc_sourceCodeHash cfg, cc_ascCodeHash cfg, cc_registryCodeHash cfg]
     \<and> cc_policyIds cfg \<noteq> [] \<and> length (cc_policyIds cfg) \<le> 16
     \<and> list_all (\<lambda>i. safe_integer i \<and> i > 0) (cc_policyIds cfg) \<and> distinct (cc_policyIds cfg)"

text \<open>The part of the check after a final, successful receipt.\<close>

definition observe_hub ::
  "(string \<Rightarrow> bool) \<Rightarrow> check_reads \<Rightarrow> revocation_job \<Rightarrow> check_config \<Rightarrow> int \<Rightarrow> source_seen \<Rightarrow> rpc_block \<Rightarrow> string \<Rightarrow> check_error + check_result" where
  "observe_hub isAddress R job cfg now source hubHead hubHash =
     (let policies = map (\<lambda>i. (i, cr_policy R i)) (cc_policyIds cfg) in
      if \<not> list_all (\<lambda>(i, owner, frozen, verified). isAddress owner \<and> \<not> same_hex owner ZeroAddress \<and> frozen) policies
      then Inl InvalidPolicyObservation
      else if \<not> (same_hex (cr_boundSource R) (cc_source cfg) \<and> cr_chainKey R = 1 \<and> cr_version R = 2
          \<and> same_hex (cr_boundAsc R) (cc_asc cfg) \<and> cr_policyVersion R = 2) then Inl HubBindingMismatch
      else
        let height = int (cr_height R); index = int (cr_txIndex R); logIndex = int (cr_logIndex R);
            exact = (height = sn_blockNumber source \<and> index = sn_transactionIndex source \<and> logIndex = sn_receiptLogIndex source);
            newer = (height > sn_blockNumber source \<or> (height = sn_blockNumber source
              \<and> (index > sn_transactionIndex source \<or> (index = sn_transactionIndex source \<and> logIndex > sn_receiptLogIndex source))))
        in
        if \<not> (map_option bk_hash (cr_sourceAgain R) = Some (Some (sn_blockHash source))
            \<and> map_option bk_hash (cr_headAgain R) = Some (Some (hs_blockHash (sn_head source)))
            \<and> map_option bk_hash (cr_hubAgain R) = Some (Some hubHash)) then Inl ObservationReorg
        else
          let verdicts = map (\<lambda>(i, owner, frozen, verified). (i, verified)) policies;
              enforced = (exact \<and> cr_tombstone R \<and> list_all (\<lambda>(i, v). \<not> v) verdicts) in
          Inr (Observed (if enforced then ''ENFORCED'' else if newer then ''SUPERSEDED'' else if exact then ''INCONSISTENT'' else ''AWAITING_HUB'')
            enforced source
            \<lparr>hu_blockNumber = bk_number hubHead, hu_blockHash = hubHash, hu_timestamp = bk_timestamp hubHead,
             hu_tombstone = cr_tombstone R,
             hu_cursor = \<lparr>hc_height = dec_nat (cr_height R), hc_transactionIndex = dec_nat (cr_txIndex R), hc_receiptLogIndex = dec_nat (cr_logIndex R)\<rparr>,
             hu_policies = verdicts\<rparr> now))"

definition check_receipt ::
  "(string \<Rightarrow> bool) \<Rightarrow> (string \<Rightarrow> string) \<Rightarrow> check_reads \<Rightarrow> revocation_job \<Rightarrow> revocation_tx \<Rightarrow> check_config \<Rightarrow> int
     \<Rightarrow> rpc_block \<Rightarrow> rpc_block \<Rightarrow> rpc_receipt \<Rightarrow> check_error + check_result" where
  "check_receipt isAddress keccak R job tx cfg now sourceHead hubHead r =
     (if \<not> (rc_hash r = rt_hash tx \<and> (case rc_to r of None \<Rightarrow> False | Some a \<Rightarrow> a \<noteq> [] \<and> same_hex a (cc_source cfg))
          \<and> same_hex (rc_from r) (cc_expectedRevoker cfg) \<and> safe_integer (rc_blockNumber r) \<and> rc_blockNumber r \<ge> 0
          \<and> rc_blockNumber r \<le> bk_number sourceHead \<and> safe_integer (rc_index r) \<and> rc_index r \<ge> 0 \<and> is_hash (rc_blockHash r))
      then Inl SourceReceiptMismatch
      else if \<not> (case cr_sourceBlock R of None \<Rightarrow> False | Some b \<Rightarrow> bk_number b = rc_blockNumber r \<and> bk_hash b = Some (rc_blockHash r))
      then Inl SourceReorg
      else let depth = bk_number sourceHead - rc_blockNumber r + 1 in
        if depth < cc_confirmations cfg then Inr (SourceUnconfirmed (rt_hash tx) depth)
        else if \<not> (rc_status r = 0 \<or> rc_status r = 1) then Inl SourceReceiptMismatch
        else if rc_status r = 0 then Inr (SourceReverted (rt_hash tx))
        else if \<not> same_hex (keccak (cr_codeAtReceipt R)) (cc_sourceCodeHash cfg) then Inl RuntimePinMismatch
        else (case revoked_logs cfg (rj_walletAddress job) (rc_logs r) of
            [(i, l)] \<Rightarrow>
              if \<not> (map_option snd (lg_parsed l) = Some 2 \<and> lg_topics l = 4 \<and> lg_data l = ''0x'') then Inl SourceEventMismatch
              else observe_hub isAddress R job cfg now
                \<lparr>sn_transactionHash = rt_hash tx, sn_blockNumber = rc_blockNumber r, sn_blockHash = rc_blockHash r,
                 sn_transactionIndex = rc_index r, sn_receiptLogIndex = int i, sn_confirmations = depth,
                 sn_head = \<lparr>hs_blockNumber = bk_number sourceHead, hs_blockHash = (case bk_hash sourceHead of Some h \<Rightarrow> h | None \<Rightarrow> []),
                   hs_timestamp = bk_timestamp sourceHead\<rparr>\<rparr>
                hubHead (case bk_hash hubHead of Some h \<Rightarrow> h | None \<Rightarrow> [])
          | _ \<Rightarrow> Inl SourceEventMismatch))"

definition checkRevocation ::
  "(string \<Rightarrow> bool) \<Rightarrow> (string \<Rightarrow> string) \<Rightarrow> check_reads \<Rightarrow> revocation_job \<Rightarrow> check_config \<Rightarrow> int \<Rightarrow> check_error + check_result" where
  "checkRevocation isAddress keccak R job cfg now =
     (if \<not> (safe_integer now \<and> now > 0 \<and> safe_integer (cc_confirmations cfg) \<and> cc_confirmations cfg > 0) then Inl InvalidCheckConfig
      else if \<not> list_all (\<lambda>a. isAddress a \<and> \<not> same_hex a ZeroAddress)
          [cc_source cfg, cc_asc cfg, cc_registry cfg, cc_expectedRevoker cfg, rj_walletAddress job] then Inl InvalidCheckAddress
      else if \<not> check_config_ok cfg then Inl InvalidCheckConfig
      else case rj_transaction job of None \<Rightarrow> Inr Unsigned
      | Some tx \<Rightarrow>
        if \<not> (is_hash (rt_hash tx) \<and> rt_chainId tx = 11155111 \<and> same_hex (rt_source tx) (cc_source cfg)) then Inl SourceTargetMismatch
        else if \<not> assertRevocationTarget job 11155111 (cc_source cfg) then Inl SourceTargetMismatch
        else if \<not> (cr_sourceChain R = 11155111 \<and> cr_hubChain R = 102031) then Inl WrongChain
        else (case (cr_sourceHead R, cr_hubHead R) of
            (Some sourceHead, Some hubHead) \<Rightarrow>
              if \<not> fresh_head (Some sourceHead) now \<or> \<not> fresh_head (Some hubHead) now then Inl StaleOrInvalidHead
              else if \<not> (cr_sourceCode R \<noteq> ''0x'' \<and> cr_ascCode R \<noteq> ''0x'' \<and> cr_registryCode R \<noteq> ''0x''
                  \<and> same_hex (keccak (cr_sourceCode R)) (cc_sourceCodeHash cfg) \<and> same_hex (keccak (cr_ascCode R)) (cc_ascCodeHash cfg)
                  \<and> same_hex (keccak (cr_registryCode R)) (cc_registryCodeHash cfg)) then Inl RuntimePinMismatch
              else (case cr_receipt R of None \<Rightarrow> Inr (SourcePending (rt_hash tx))
                | Some r \<Rightarrow> check_receipt isAddress keccak R job tx cfg now sourceHead hubHead r)
          | _ \<Rightarrow> Inl StaleOrInvalidHead))"

definition revocationObservation ::
  "(string \<Rightarrow> bool) \<Rightarrow> check_result \<Rightarrow> check_config \<Rightarrow> string \<Rightarrow> observation_error + revocation_observation" where
  "revocationObservation isAddress res cfg operator = (case res of
     Observed st enforced source hub observedAt \<Rightarrow>
       normalizeRevocationObservation isAddress
         \<lparr>ob_version = 1, ob_operator = operator, ob_observedAt = observedAt, ob_config = cfg, ob_state = st, ob_source = source, ob_hub = hub\<rparr>
   | _ \<Rightarrow> Inl IncompleteObservation)"

section \<open>The check and the observation agree\<close>

lemma dec_nat_length: "n < 10 ^ Suc k \<Longrightarrow> length (dec_nat n) \<le> Suc k"
proof (induction k arbitrary: n)
  case 0
  then show ?case by (subst dec_nat.simps) simp
next
  case (Suc k)
  have "n div 10 < 10 ^ Suc k" using Suc.prems by (simp add: less_mult_imp_div_less mult.commute)
  from Suc.IH [OF this] show ?case by (subst dec_nat.simps) auto
qed

lemma dec_nat_no_zero: "dec_nat n = ''0'' \<or> hd (dec_nat n) \<noteq> CHR ''0''"
proof (induction n rule: dec_nat.induct)
  case (1 n)
  show ?case
  proof (cases "n < 10")
    case True
    have "digit_char d = CHR ''0'' \<longleftrightarrow> d = 0" if "d < 10" for d
      using of_digit_char [OF that] by (auto simp: digit_char_def char_of_def bit_0 dest: arg_cong [where f = "of_char :: char \<Rightarrow> nat"])
    then show ?thesis using True by (subst (1 2) dec_nat.simps) auto
  next
    case False
    have "dec_nat (n div 10) \<noteq> ''0''" using dec_nat_value [of "n div 10"] False by (auto simp: index_value_def)
    then have "hd (dec_nat (n div 10)) \<noteq> CHR ''0''" using 1 False by blast
    then show ?thesis using False dec_nat_digits [of "n div 10"] by (subst (2) dec_nat.simps) simp
  qed
qed

lemma coordinate_dec_nat: "n < 2 ^ bits \<Longrightarrow> bits \<le> 256 \<Longrightarrow> coordinate_ok bits (dec_nat n)"
proof -
  assume n: "n < 2 ^ bits" "bits \<le> 256"
  have "(2 :: nat) ^ bits \<le> 2 ^ 256" using n(2) by (rule power_increasing) simp
  then have "n < 10 ^ Suc 77" using n(1) by simp
  from dec_nat_length [OF this] show "coordinate_ok bits (dec_nat n)"
    using n(1) dec_nat_digits [of n] dec_nat_no_zero [of n] dec_nat_value [of n] by (simp add: coordinate_ok_def)
qed

text \<open>The check and the normaliser compare the coordinates in two different ways.\<close>

definition compared_state :: "int list \<Rightarrow> int list \<Rightarrow> bool \<Rightarrow> string" where
  "compared_state a b revoked =
     (let exact = (a ! 0 = b ! 0 \<and> a ! 1 = b ! 1 \<and> a ! 2 = b ! 2);
          newer = (a ! 0 > b ! 0 \<or> (a ! 0 = b ! 0 \<and> (a ! 1 > b ! 1 \<or> (a ! 1 = b ! 1 \<and> a ! 2 > b ! 2)))) in
      if exact \<and> revoked then ''ENFORCED'' else if newer then ''SUPERSEDED'' else if exact then ''INCONSISTENT'' else ''AWAITING_HUB'')"

lemma compared_state_eq:
  "compared_state [h, i, l] [b, x, y] revoked = (case first_difference [h, i, l] [b, x, y] of
     None \<Rightarrow> if revoked then ''ENFORCED'' else ''INCONSISTENT'' | Some (a, c) \<Rightarrow> if a > c then ''SUPERSEDED'' else ''AWAITING_HUB'')"
  by (auto simp: compared_state_def Let_def)

lemma compared_state_enforced:
  "compared_state [h, i, l] [b, x, y] revoked = ''ENFORCED'' \<longleftrightarrow> h = b \<and> i = x \<and> l = y \<and> revoked"
  by (simp add: compared_state_def)

lemma observe_hub_eq:
  fixes R cfg
  defines "verdicts \<equiv> map (\<lambda>i. (i, snd (snd (cr_policy R i)))) (cc_policyIds cfg)"
  assumes "observe_hub isAddress R job cfg now src hh hash = Inr (Observed st enf src' hub at)"
  shows "src' = src \<and> at = now
    \<and> hub = \<lparr>hu_blockNumber = bk_number hh, hu_blockHash = hash, hu_timestamp = bk_timestamp hh, hu_tombstone = cr_tombstone R,
        hu_cursor = \<lparr>hc_height = dec_nat (cr_height R), hc_transactionIndex = dec_nat (cr_txIndex R), hc_receiptLogIndex = dec_nat (cr_logIndex R)\<rparr>,
        hu_policies = verdicts\<rparr>
    \<and> st = compared_state [int (cr_height R), int (cr_txIndex R), int (cr_logIndex R)] (source_coordinates src)
        (cr_tombstone R \<and> list_all (\<lambda>(i, v). \<not> v) verdicts)
    \<and> enf = (st = ''ENFORCED'')"
proof -
  have v: "map (\<lambda>(i, owner, frozen, verified). (i, verified)) (map (\<lambda>i. (i, cr_policy R i)) (cc_policyIds cfg)) = verdicts"
    by (simp add: verdicts_def case_prod_unfold)
  have guarded: "m = Inr w" if "(if a then Inl x else m) = Inr w" for a x w and m :: "check_error + check_result"
    using that by (simp split: if_split_asm)
  note e = guarded [OF guarded [OF guarded [OF assms(2) [unfolded observe_hub_def Let_def v]]], unfolded sum.inject check_result.inject]
  have st: "st = compared_state [int (cr_height R), int (cr_txIndex R), int (cr_logIndex R)] (source_coordinates src)
      (cr_tombstone R \<and> list_all (\<lambda>(i, v). \<not> v) verdicts)"
    using e [THEN conjunct1, symmetric] by (simp only: compared_state_def source_coordinates_def conj_assoc Let_def nth_Cons_0 nth_Cons_Suc One_nat_def numeral_2_eq_2)
  moreover have "enf = (st = ''ENFORCED'')"
    unfolding st source_coordinates_def compared_state_enforced
    using e [THEN conjunct2, THEN conjunct1, symmetric] by (simp only: conj_assoc)
  moreover note e [THEN conjunct2, THEN conjunct2]
  ultimately show ?thesis by (elim conjE) simp
qed

lemma observe_hub_Observed:
  assumes "observe_hub isAddress R job cfg now src hh hash = Inr (Observed st enf src' hub at)"
  shows "src' = src" "at = now" "hu_blockNumber hub = bk_number hh" "hu_blockHash hub = hash" "hu_timestamp hub = bk_timestamp hh"
    "hu_cursor hub = \<lparr>hc_height = dec_nat (cr_height R), hc_transactionIndex = dec_nat (cr_txIndex R), hc_receiptLogIndex = dec_nat (cr_logIndex R)\<rparr>"
    "map fst (hu_policies hub) = cc_policyIds cfg" "st = observed_state src hub" "enf \<longleftrightarrow> st = ''ENFORCED''"
  using observe_hub_eq [OF assms] compared_state_eq
  by (simp_all add: o_def observed_state_def cursor_coordinates_def source_coordinates_def dec_nat_value)

lemma check_receipt_Observed:
  assumes "check_receipt isAddress keccak R job tx cfg now sh hh r = Inr (Observed st enf src hub at)"
  obtains i l where "revoked_logs cfg (rj_walletAddress job) (rc_logs r) = [(i, l)]"
    "safe_integer (rc_blockNumber r)" "rc_blockNumber r \<ge> 0" "rc_blockNumber r \<le> bk_number sh" "safe_integer (rc_index r)"
    "rc_index r \<ge> 0" "is_hash (rc_blockHash r)" "cc_confirmations cfg \<le> bk_number sh - rc_blockNumber r + 1"
    "observe_hub isAddress R job cfg now
       \<lparr>sn_transactionHash = rt_hash tx, sn_blockNumber = rc_blockNumber r, sn_blockHash = rc_blockHash r,
        sn_transactionIndex = rc_index r, sn_receiptLogIndex = int i, sn_confirmations = bk_number sh - rc_blockNumber r + 1,
        sn_head = \<lparr>hs_blockNumber = bk_number sh, hs_blockHash = (case bk_hash sh of Some h \<Rightarrow> h | None \<Rightarrow> []),
          hs_timestamp = bk_timestamp sh\<rparr>\<rparr>
       hh (case bk_hash hh of Some h \<Rightarrow> h | None \<Rightarrow> []) = Inr (Observed st enf src hub at)"
proof -
  note c = assms [unfolded check_receipt_def Let_def]
  show thesis
    by (rule that [of "fst (hd (revoked_logs cfg (rj_walletAddress job) (rc_logs r)))"
          "snd (hd (revoked_logs cfg (rj_walletAddress job) (rc_logs r)))"])
      (use c in \<open>auto split: if_splits list.splits prod.splits\<close>)
qed

lemma checkRevocation_Observed:
  assumes "checkRevocation isAddress keccak R job cfg now = Inr (Observed st enf src hub at)"
  obtains tx sh hh r where "rj_transaction job = Some tx" "cr_sourceHead R = Some sh" "cr_hubHead R = Some hh" "cr_receipt R = Some r"
    "now > 0" "safe_integer (cc_confirmations cfg)" "cc_confirmations cfg > 0" "check_config_ok cfg" "is_hash (rt_hash tx)"
    "list_all (\<lambda>a. isAddress a \<and> \<not> same_hex a ZeroAddress) [cc_source cfg, cc_asc cfg, cc_registry cfg, cc_expectedRevoker cfg]"
    "fresh_head (Some sh) now" "fresh_head (Some hh) now"
    "check_receipt isAddress keccak R job tx cfg now sh hh r = Inr (Observed st enf src hub at)"
  using assms unfolding checkRevocation_def
  by (auto split: if_splits option.splits prod.splits)

lemma revoked_logs_index: "revoked_logs cfg w logs = [(i, l)] \<Longrightarrow> i < length logs"
proof -
  assume "revoked_logs cfg w logs = [(i, l)]"
  then have "(i, l) \<in> set (zip [0..<length logs] logs)" unfolding revoked_logs_def by (metis (no_types) filter_is_subset list.set_intros(1) subsetD)
  then show "i < length logs" by (auto simp: set_zip)
qed

lemma ZeroAddress_lower [simp]: "to_lower ZeroAddress = ZeroAddress"
  by code_simp

text \<open>The ranges of what the chain types allow: \<^verbatim>\<open>uint64\<close> and \<^verbatim>\<open>uint256\<close> cursors, block numbers and log
  counts below the largest safe integer.\<close>

definition reads_bounded :: "check_reads \<Rightarrow> bool" where
  "reads_bounded R \<longleftrightarrow> cr_height R < 2 ^ 64 \<and> cr_txIndex R < 2 ^ 64 \<and> cr_logIndex R < 2 ^ 256
     \<and> (case cr_sourceHead R of None \<Rightarrow> True | Some b \<Rightarrow> bk_number b < 9007199254740991)
     \<and> (case cr_receipt R of None \<Rightarrow> True | Some r \<Rightarrow> length (rc_logs r) \<le> 9007199254740991)"

text \<open>Whatever the check reports as an observation of both chains can be recorded: the normaliser that
  guards the vault accepts it, comes to the same state by its own comparison of the coordinates,
  and the state is \<^verbatim>\<open>ENFORCED\<close> exactly when the check said so.\<close>

theorem reported_observation_is_recordable:
  assumes "checkRevocation isAddress keccak R job cfg now = Inr (Observed st enf src hub at)"
    and "reads_bounded R" "opaque_reference operator" "now \<le> 9007199254740991 div 1000"
  shows "\<exists>v. revocationObservation isAddress (Observed st enf src hub at) cfg operator = Inr v
    \<and> ob_state v = st \<and> st = observed_state src hub \<and> (enf \<longleftrightarrow> st = ''ENFORCED'') \<and> ob_observedAt v = now"
proof -
  from assms(1) obtain tx sh hh r where c: "rj_transaction job = Some tx" "cr_sourceHead R = Some sh" "cr_hubHead R = Some hh" "cr_receipt R = Some r"
    "now > 0" "safe_integer (cc_confirmations cfg)" "cc_confirmations cfg > 0" "check_config_ok cfg" "is_hash (rt_hash tx)"
    "list_all (\<lambda>a. isAddress a \<and> \<not> same_hex a ZeroAddress) [cc_source cfg, cc_asc cfg, cc_registry cfg, cc_expectedRevoker cfg]"
    "fresh_head (Some sh) now" "fresh_head (Some hh) now"
    "check_receipt isAddress keccak R job tx cfg now sh hh r = Inr (Observed st enf src hub at)"
    by (rule checkRevocation_Observed)
  from c(13) obtain i l where i: "revoked_logs cfg (rj_walletAddress job) (rc_logs r) = [(i, l)]"
    "safe_integer (rc_blockNumber r)" "rc_blockNumber r \<ge> 0" "rc_blockNumber r \<le> bk_number sh" "safe_integer (rc_index r)"
    "rc_index r \<ge> 0" "is_hash (rc_blockHash r)" "cc_confirmations cfg \<le> bk_number sh - rc_blockNumber r + 1"
    "observe_hub isAddress R job cfg now
       \<lparr>sn_transactionHash = rt_hash tx, sn_blockNumber = rc_blockNumber r, sn_blockHash = rc_blockHash r,
        sn_transactionIndex = rc_index r, sn_receiptLogIndex = int i, sn_confirmations = bk_number sh - rc_blockNumber r + 1,
        sn_head = \<lparr>hs_blockNumber = bk_number sh, hs_blockHash = (case bk_hash sh of Some h \<Rightarrow> h | None \<Rightarrow> []),
          hs_timestamp = bk_timestamp sh\<rparr>\<rparr>
       hh (case bk_hash hh of Some h \<Rightarrow> h | None \<Rightarrow> []) = Inr (Observed st enf src hub at)"
    by (rule check_receipt_Observed)
  note o = observe_hub_Observed [OF i(9)]
  have li: "i < length (rc_logs r)" by (rule revoked_logs_index [OF i(1)])
  have f: "safe_integer (bk_number sh)" "bk_number sh \<ge> 0" "safe_integer (bk_timestamp sh)" "bk_timestamp sh > 0"
    "bk_timestamp sh \<le> now + 30" "now - bk_timestamp sh \<le> 300" "is_hash (case bk_hash sh of Some h \<Rightarrow> h | None \<Rightarrow> [])"
    "safe_integer (bk_number hh)" "bk_number hh \<ge> 0" "safe_integer (bk_timestamp hh)" "bk_timestamp hh > 0"
    "bk_timestamp hh \<le> now + 30" "now - bk_timestamp hh \<le> 300" "is_hash (case bk_hash hh of Some h \<Rightarrow> h | None \<Rightarrow> [])"
    using c(11,12) by (auto simp: fresh_head_def split: option.splits)
  have cur: "coordinate_ok 64 (dec_nat (cr_height R))" "coordinate_ok 64 (dec_nat (cr_txIndex R))" "coordinate_ok 256 (dec_nat (cr_logIndex R))"
    using assms(2) by (auto simp: reads_bounded_def intro: coordinate_dec_nat)
  have addr: "list_all (known_address isAddress) [cc_source cfg, cc_asc cfg, cc_registry cfg, cc_expectedRevoker cfg]"
    using c(10) by (simp add: known_address_def same_hex_def)
  have safe: "safe_integer (int i)" "safe_integer (bk_number sh - rc_blockNumber r + 1)" "safe_integer now"
    using li assms(2,4) c(2,4,5) i(3,4) f(2) by (auto simp: reads_bounded_def safe_integer_def)
  have pol: "length (hu_policies hub) = length (cc_policyIds cfg)" using o(7) by (metis length_map)
  have "observation_ok isAddress
      \<lparr>ob_version = 1, ob_operator = operator, ob_observedAt = at, ob_config = cfg, ob_state = st, ob_source = src, ob_hub = hub\<rparr>"
    unfolding observation_ok_def Let_def
    using assms(3,4) c(5-9) i(2-8) f cur addr safe o pol
    by (auto simp: integer_min_def check_config_ok_def list_all_iff)
  moreover have "st = observed_state src hub" using o(1,8) by simp
  ultimately show ?thesis using o(2,9)
    by (simp add: revocationObservation_def normalizeRevocationObservation_def lower_observation_def Let_def)
qed

section \<open>An example\<close>

definition sample_hex :: "nat \<Rightarrow> char \<Rightarrow> string" where
  "sample_hex n c = ''0x'' @ replicate n c"

definition sample_config :: check_config where
  "sample_config = \<lparr>cc_source = sample_hex 40 CHR ''1'', cc_asc = sample_hex 40 CHR ''2'', cc_registry = sample_hex 40 CHR ''3'',
     cc_expectedRevoker = sample_hex 40 CHR ''4'', cc_sourceCodeHash = sample_hex 64 CHR ''a'', cc_ascCodeHash = sample_hex 64 CHR ''a'',
     cc_registryCodeHash = sample_hex 64 CHR ''a'', cc_policyIds = [1], cc_confirmations = 2\<rparr>"

definition sample_revocation :: revocation_job where
  "sample_revocation = \<lparr>rj_id = ''r'', rj_recordId = ''r'', rj_walletAddress = sample_hex 40 CHR ''5'', rj_createdAt = 0, rj_state = RevPrepared,
     rj_sourceTarget = None, rj_transaction = Some \<lparr>rt_hash = sample_hex 64 CHR ''b'', rt_raw = ''0x'', rt_chainId = 11155111,
       rt_source = sample_hex 40 CHR ''1''\<rparr>, rj_confirmedAt = None, rj_lastError = None, rj_observations = []\<rparr>"

definition sample_block :: "int \<Rightarrow> char \<Rightarrow> rpc_block" where
  "sample_block n c = \<lparr>bk_number = n, bk_hash = Some (sample_hex 64 c), bk_timestamp = 1000\<rparr>"

definition sample_reads :: check_reads where
  "sample_reads = \<lparr>cr_sourceChain = 11155111, cr_hubChain = 102031, cr_sourceHead = Some (sample_block 9 CHR ''c''),
     cr_hubHead = Some (sample_block 70 CHR ''d''), cr_sourceCode = ''0x01'', cr_ascCode = ''0x01'', cr_registryCode = ''0x01'',
     cr_receipt = Some \<lparr>rc_hash = sample_hex 64 CHR ''b'', rc_to = Some (sample_hex 40 CHR ''1''), rc_from = sample_hex 40 CHR ''4'',
       rc_blockNumber = 8, rc_index = 0, rc_blockHash = sample_hex 64 CHR ''e'', rc_status = 1,
       rc_logs = [\<lparr>lg_address = sample_hex 40 CHR ''1'', lg_topics = 4, lg_data = ''0x'', lg_parsed = Some (sample_hex 40 CHR ''5'', 2)\<rparr>]\<rparr>,
     cr_sourceBlock = Some (sample_block 8 CHR ''e''), cr_codeAtReceipt = ''0x01'', cr_boundSource = sample_hex 40 CHR ''1'',
     cr_chainKey = 1, cr_version = 2, cr_boundAsc = sample_hex 40 CHR ''2'', cr_policyVersion = 2, cr_tombstone = True,
     cr_height = 8, cr_txIndex = 0, cr_logIndex = 0, cr_policy = (\<lambda>i. (sample_hex 40 CHR ''6'', True, False)),
     cr_sourceAgain = Some (sample_block 8 CHR ''e''), cr_headAgain = Some (sample_block 9 CHR ''c''),
     cr_hubAgain = Some (sample_block 70 CHR ''d'')\<rparr>"

definition sample_checked :: check_result where
  "sample_checked = projr (checkRevocation (is_hex 40) (\<lambda>x. sample_hex 64 CHR ''a'') sample_reads sample_revocation sample_config 1010)"

theorem reported_observation_is_recordable_witness:
  "\<exists>v. revocationObservation (is_hex 40) sample_checked sample_config ''operator-1'' = Inr v \<and> ob_state v = ''ENFORCED''"
proof -
  have "checkRevocation (is_hex 40) (\<lambda>x. sample_hex 64 CHR ''a'') sample_reads sample_revocation sample_config 1010 = Inr sample_checked
      \<and> (case sample_checked of Observed st enf src hub at \<Rightarrow> enf | _ \<Rightarrow> False)"
    by code_simp
  then obtain st src hub at where o: "sample_checked = Observed st True src hub at"
    "checkRevocation (is_hex 40) (\<lambda>x. sample_hex 64 CHR ''a'') sample_reads sample_revocation sample_config 1010 = Inr (Observed st True src hub at)"
    by (auto split: check_result.splits)
  have b: "reads_bounded sample_reads" by (simp add: reads_bounded_def sample_reads_def sample_block_def)
  have "opaque_reference ''operator-1''" by code_simp
  moreover have "(1010::int) \<le> 9007199254740991 div 1000" by simp
  ultimately show ?thesis
    using reported_observation_is_recordable [OF o(2) b] unfolding o(1) by auto
qed

end
