(* ===== verification/Vault.thy ===== *)
theory Vault
  imports Aml_Types Retention Processing Revocation
begin

text \<open>
  The contents of the evidence vault and every operation on them: the class \<^verbatim>\<open>EvidenceVault\<close> of
  \<^verbatim>\<open>pipeline/vault.ts\<close> without its file, which is the subject of the theory of the storage. An
  operation is the function that \<^verbatim>\<open>mutate\<close> runs on the data loaded under the lock: it throws, and
  then nothing is written, or returns a result and the new data.

  The digests of \<^verbatim>\<open>node:crypto\<close> over \<^verbatim>\<open>JSON.stringify\<close>, the collation of \<^verbatim>\<open>localeCompare\<close> and
  \<^verbatim>\<open>ethers.isAddress\<close> are parameters, and so are the random identifiers. Objects with string keys
  are association lists; identifiers that are names of members of \<^verbatim>\<open>Object.prototype\<close> are left aside.
\<close>

section \<open>Data\<close>

datatype vault_status = VPending | VActive | VReview | VBlocked | VRejected | VOther string

record review_event =
  rw_at :: int
  rw_operator :: string
  rw_outcome :: string
  rw_reason :: string
  rw_basedOn :: "string option"

record rescreen_event =
  rs_at :: int
  rs_decision :: string
  rs_reason :: "string option"
  rs_listVersions :: "int obj"

record source_issuance =
  si_transactionHash :: string
  si_chainId :: int
  si_source :: string
  si_observedAt :: int
  si_hubMaterialized :: bool

record vault_record =
  vr_id :: string
  vr_walletAddress :: string
  vr_consentVersion :: string
  vr_processingPolicy :: "processing_evidence option"
  vr_retentionPolicy :: "retention_evidence option"
  vr_screeningSubject :: screening_subject
  vr_evidenceHash :: string
  vr_evidence :: json
  vr_attrs :: "string option"
  vr_claimsRoot :: "string option"
  vr_claims :: "json option"
  vr_state :: vault_status
  vr_createdAt :: int
  vr_retentionUntil :: int
  vr_lastScreenedAt :: "int option"
  vr_rescreens :: "rescreen_event list"
  vr_reviews :: "review_event list"
  vr_sourceIssuance :: "source_issuance option"

record deletion_request =
  dr_id :: string
  dr_fingerprint :: string
  dr_requestedAt :: int
  dr_operator :: string
  dr_policyRef :: string
  dr_serviceRef :: string
  dr_disposition :: string
  dr_automatic :: bool
  dr_approval :: "(string \<times> int) option"

record extension =
  ex_until :: int
  ex_operator :: string
  ex_reference :: string
  ex_at :: int

record legal_hold =
  lh_id :: string
  lh_operator :: string
  lh_reference :: string
  lh_at :: int
  lh_release :: "(string \<times> string \<times> int) option"

record retention_controls =
  rt_minimumUntil :: "int option"
  rt_extensions :: "extension list"
  rt_holds :: "legal_hold list"
  rt_requests :: "deletion_request list"

record erasure =
  er_recordId :: string
  er_at :: int
  er_reason :: string
  er_requestId :: "string option"

record key_rotation =
  kr_at :: int
  kr_operator :: string
  kr_previousKeyId :: string
  kr_nextKeyId :: string

record vault_data =
  vd_revision :: int
  vd_records :: "vault_record obj"
  vd_erasures :: "erasure list"
  vd_revocations :: "revocation_job obj option"
  vd_retention :: "retention_controls obj"
  vd_maintenance :: "key_rotation list option"

datatype blocker =
    INVALID_RETENTION | RETENTION_NOT_EXPIRED | RECORD_TIME_INVALID | LEGAL_HOLD | ISSUANCE_PENDING | REVIEW_PENDING
  | UNKNOWN_STATE | REVOCATION_PENDING | REVOCATION_NOT_RECONCILED | DELETION_NOT_APPROVED | DELETION_REQUEST_STALE
  | APPROVAL_TIME_INVALID

datatype vault_error =
    VaultWriteError | VaultBusyError | RescreenConflictError | ReviewConflictError | VaultBackupError string
  | VaultRestoreError string | RevocationObservationError string | DeletionBlocked "blocker list" | VaultError string
  | FileError

text \<open>The parameters of the operations.\<close>

record vault_env =
  ve_isAddress :: "string \<Rightarrow> bool"
  ve_collate :: "string \<Rightarrow> string"
  ve_deletionDigest :: "vault_record \<times> int option \<times> extension list \<times> legal_hold list \<times> revocation_job list \<Rightarrow> string"
  ve_reviewDigest :: "string \<Rightarrow> vault_record \<times> revocation_job list \<times> retention_controls option \<Rightarrow> string"

type_synonym 'a vault_op = "vault_data \<Rightarrow> vault_error + 'a \<times> vault_data"

definition empty_vault :: vault_data where
  "empty_vault = \<lparr>vd_revision = 0, vd_records = [], vd_erasures = [], vd_revocations = Some [], vd_retention = [], vd_maintenance = None\<rparr>"

definition timestamp :: "int \<Rightarrow> bool" where
  "timestamp n \<longleftrightarrow> integer0 n"

definition bad_timestamp :: vault_error where
  "bad_timestamp = VaultError ''invalid retention timestamp''"

definition bad_reference :: vault_error where
  "bad_reference = VaultError ''use an opaque operator/policy/case reference, not free-text personal data''"

definition sameListVersions :: "int obj \<Rightarrow> int obj \<Rightarrow> bool" where
  "sameListVersions left right \<longleftrightarrow>
     (let a = sort (map fst left); b = sort (map fst right) in
      length a = length b \<and> list_all (\<lambda>(k, k'). k = k' \<and> obj_get left k = obj_get right k) (zip a b))"

section \<open>Lookups\<close>

definition vault_jobs :: "vault_data \<Rightarrow> revocation_job obj" where
  "vault_jobs d = (case vd_revocations d of None \<Rightarrow> [] | Some js \<Rightarrow> js)"

definition jobs_of :: "vault_data \<Rightarrow> string \<Rightarrow> revocation_job list" where
  "jobs_of d rid = filter (\<lambda>j. rj_recordId j = rid) (map snd (vault_jobs d))"

definition sorted_jobs :: "vault_env \<Rightarrow> vault_data \<Rightarrow> string \<Rightarrow> revocation_job list" where
  "sorted_jobs E d rid = sort_key (\<lambda>j. ve_collate E (rj_id j)) (jobs_of d rid)"

definition mustGet :: "string \<Rightarrow> vault_data \<Rightarrow> vault_error + vault_record" where
  "mustGet rid d = (case obj_get (vd_records d) rid of None \<Rightarrow> Inl (VaultError (''unknown vault record '' @ rid)) | Some r \<Rightarrow> Inr r)"

definition mustGetJob :: "string \<Rightarrow> vault_data \<Rightarrow> vault_error + revocation_job" where
  "mustGetJob rid d = (case obj_get (vault_jobs d) rid of None \<Rightarrow> Inl (VaultError ''unknown revocation job'') | Some j \<Rightarrow> Inr j)"

definition no_controls :: retention_controls where
  "no_controls = \<lparr>rt_minimumUntil = None, rt_extensions = [], rt_holds = [], rt_requests = []\<rparr>"

definition controls :: "string \<Rightarrow> vault_data \<Rightarrow> retention_controls" where
  "controls rid d = (case obj_get (vd_retention d) rid of None \<Rightarrow> no_controls | Some c \<Rightarrow> c)"

definition last_request :: "retention_controls \<Rightarrow> deletion_request option" where
  "last_request c = (if rt_requests c = [] then None else Some (last (rt_requests c)))"

definition retentionDeadline :: "vault_data \<Rightarrow> vault_record \<Rightarrow> int" where
  "retentionDeadline d r = max (vr_retentionUntil r) (case rt_minimumUntil (controls (vr_id r) d) of None \<Rightarrow> 0 | Some m \<Rightarrow> m)"

definition review_basis :: "vault_env \<Rightarrow> vault_data \<Rightarrow> vault_record \<Rightarrow> vault_record \<times> revocation_job list \<times> retention_controls option" where
  "review_basis E d r = (r, sorted_jobs E d (vr_id r), obj_get (vd_retention d) (vr_id r))"

definition reviewRevision :: "vault_env \<Rightarrow> string \<Rightarrow> vault_data \<Rightarrow> vault_record \<Rightarrow> string" where
  "reviewRevision E key d r = ve_reviewDigest E key (review_basis E d r)"

definition deletionFingerprint :: "vault_env \<Rightarrow> vault_data \<Rightarrow> vault_record \<Rightarrow> string" where
  "deletionFingerprint E d r =
     (let c = controls (vr_id r) d in
      ve_deletionDigest E (r, rt_minimumUntil c, rt_extensions c, rt_holds c, sorted_jobs E d (vr_id r)))"

definition put_record :: "vault_record \<Rightarrow> vault_data \<Rightarrow> vault_data" where
  "put_record r d = d\<lparr>vd_records := obj_put (vr_id r) r (vd_records d)\<rparr>"

definition put_job :: "revocation_job \<Rightarrow> vault_data \<Rightarrow> vault_data" where
  "put_job j d = d\<lparr>vd_revocations := Some (obj_put (rj_id j) j (vault_jobs d))\<rparr>"

definition put_controls :: "string \<Rightarrow> retention_controls \<Rightarrow> vault_data \<Rightarrow> vault_data" where
  "put_controls rid c d = d\<lparr>vd_retention := obj_put rid c (vd_retention d)\<rparr>"

section \<open>Deletion blockers\<close>

definition safetyBlockers :: "vault_data \<Rightarrow> vault_record \<Rightarrow> int \<Rightarrow> blocker list" where
  "safetyBlockers d r now =
     (let deadline = retentionDeadline d r; jobs = jobs_of d (vr_id r) in
      (if \<not> safe_integer (vr_retentionUntil r) \<or> \<not> safe_integer deadline \<or> \<not> safe_integer (vr_createdAt r) \<or> vr_createdAt r < 0
           \<or> vr_retentionUntil r < vr_createdAt r \<or> deadline < vr_createdAt r then [INVALID_RETENTION]
       else if now < deadline then [RETENTION_NOT_EXPIRED] else [])
      @ (if now < vr_createdAt r then [RECORD_TIME_INVALID] else [])
      @ (if list_ex (\<lambda>h. lh_release h = None) (rt_holds (controls (vr_id r) d)) then [LEGAL_HOLD] else [])
      @ (if vr_state r = VPending then [ISSUANCE_PENDING] else [])
      @ (if vr_state r = VReview then [REVIEW_PENDING] else [])
      @ (if vr_state r \<notin> {VPending, VReview, VActive, VBlocked, VRejected} then [UNKNOWN_STATE] else [])
      @ (if list_ex (\<lambda>j. rj_state j \<noteq> RevConfirmed) jobs then [REVOCATION_PENDING] else [])
      @ (if vr_state r = VBlocked \<and> \<not> list_ex (\<lambda>j. rj_state j = RevConfirmed) jobs then [REVOCATION_NOT_RECONCILED] else []))"

definition deletionBlockers :: "vault_env \<Rightarrow> vault_data \<Rightarrow> vault_record \<Rightarrow> int \<Rightarrow> blocker list" where
  "deletionBlockers E d r now =
     safetyBlockers d r now @
     (case last_request (controls (vr_id r) d) of None \<Rightarrow> [DELETION_NOT_APPROVED]
      | Some q \<Rightarrow>
          (if dr_approval q = None then [DELETION_NOT_APPROVED] else [])
          @ (if dr_fingerprint q \<noteq> deletionFingerprint E d r then [DELETION_REQUEST_STALE] else [])
          @ (case dr_approval q of None \<Rightarrow> []
             | Some (who, at) \<Rightarrow> if now < at \<or> at < dr_requestedAt q then [APPROVAL_TIME_INVALID] else []))"

section \<open>Records\<close>

definition retention_snapshot_ok :: "vault_record \<Rightarrow> bool" where
  "retention_snapshot_ok r \<longleftrightarrow> (case vr_retentionPolicy r of None \<Rightarrow> True
     | Some p \<Rightarrow> re_vaultDeleteAt p = vr_retentionUntil r
        \<and> (case vr_processingPolicy r of None \<Rightarrow> True | Some q \<Rightarrow> re_customerId p = pe_customerId q))"

definition vault_put :: "vault_record \<Rightarrow> vault_record vault_op" where
  "vault_put r d =
     (if vr_id r = [] \<or> vr_walletAddress r = [] \<or> ss_fullName (vr_screeningSubject r) = [] then Inl (VaultError ''incomplete vault record'')
      else if list_ex (\<lambda>e. er_recordId e = vr_id r) (vd_erasures d) then Inl (VaultError ''erased vault record cannot be restored by put'')
      else if \<not> (timestamp (vr_createdAt r) \<and> timestamp (vr_retentionUntil r)) then Inl bad_timestamp
      else if vr_retentionUntil r < vr_createdAt r then Inl (VaultError ''retention precedes creation'')
      else if \<not> retention_snapshot_ok r then Inl (VaultError ''vault record does not match its retention policy snapshot'')
      else case obj_get (vd_records d) (vr_id r) of
          Some old \<Rightarrow> if vr_evidenceHash old \<noteq> vr_evidenceHash r then Inl (VaultError (''vault record '' @ vr_id r @ '' conflicts with existing evidence''))
            else Inr (old, d)
        | None \<Rightarrow> Inr (r, put_record r d))"

definition vault_get :: "string \<Rightarrow> vault_data \<Rightarrow> vault_record option" where
  "vault_get rid d = obj_get (vd_records d) rid"

definition recordMaterialization :: "string \<Rightarrow> string \<Rightarrow> unit vault_op" where
  "recordMaterialization rid evidenceHash d =
     (case mustGet rid d of Inl e \<Rightarrow> Inl e
      | Inr r \<Rightarrow> if vr_evidenceHash r \<noteq> evidenceHash then Inl (VaultError ''materialization evidence does not match retained record'')
          else Inr ((), put_record (r\<lparr>
            vr_sourceIssuance := map_option (\<lambda>s. s\<lparr>si_hubMaterialized := True\<rparr>) (vr_sourceIssuance r),
            vr_state := if vr_state r = VPending then VActive else vr_state r\<rparr>) d))"

definition recordSourceConfirmation :: "string \<Rightarrow> string \<Rightarrow> source_issuance \<Rightarrow> unit vault_op" where
  "recordSourceConfirmation rid evidenceHash obs d =
     (case mustGet rid d of Inl e \<Rightarrow> Inl e
      | Inr r \<Rightarrow>
        if vr_evidenceHash r \<noteq> evidenceHash then Inl (VaultError ''source confirmation evidence does not match retained record'')
        else if \<not> timestamp (si_observedAt obs) then Inl bad_timestamp
        else if \<not> safe_integer (si_chainId obs) \<or> si_chainId obs \<le> 0 \<or> \<not> is_hash (si_transactionHash obs)
             \<or> \<not> is_hex 40 (si_source obs) \<or> si_observedAt obs < vr_createdAt r then Inl (VaultError ''invalid source confirmation observation'')
        else let new = \<lparr>si_transactionHash = to_lower (si_transactionHash obs), si_chainId = si_chainId obs,
                         si_source = to_lower (si_source obs), si_observedAt = si_observedAt obs, si_hubMaterialized = False\<rparr> in
          case vr_sourceIssuance r of
            Some old \<Rightarrow> if si_transactionHash old \<noteq> si_transactionHash new \<or> si_chainId old \<noteq> si_chainId new \<or> si_source old \<noteq> si_source new
              then Inl (VaultError ''source confirmation conflicts with retained issuance'') else Inr ((), d)
          | None \<Rightarrow> Inr ((), put_record (r\<lparr>vr_sourceIssuance := Some new\<rparr>) d))"

definition due_for_rescreen :: "vault_data \<Rightarrow> int \<Rightarrow> int \<Rightarrow> int obj option \<Rightarrow> vault_record \<Rightarrow> bool" where
  "due_for_rescreen d now intervalMs current r \<longleftrightarrow>
     retentionDeadline d r > now
     \<and> (vr_state r = VActive \<or> vr_state r = VReview \<or> (vr_state r = VPending \<and> vr_sourceIssuance r \<noteq> None))
     \<and> (case vr_lastScreenedAt r of None \<Rightarrow> True
        | Some at \<Rightarrow> at = 0 \<or> now - at \<ge> intervalMs
            \<or> (case current of None \<Rightarrow> False
               | Some vs \<Rightarrow> vr_rescreens r = [] \<or> \<not> sameListVersions (rs_listVersions (last (vr_rescreens r))) vs))"

definition listForRescreen :: "int \<Rightarrow> int \<Rightarrow> int obj option \<Rightarrow> vault_data \<Rightarrow> vault_record list" where
  "listForRescreen now intervalMs current d = filter (due_for_rescreen d now intervalMs current) (map snd (vd_records d))"

definition latest_decision :: "vault_record \<Rightarrow> int" where
  "latest_decision r = foldl (\<lambda>m w. max m (rw_at w)) (max (vr_createdAt r) (case vr_lastScreenedAt r of None \<Rightarrow> 0 | Some at \<Rightarrow> at)) (vr_reviews r)"

text \<open>The state after a decision that does not block: not active before the hub has the credential.\<close>

definition cleared_state :: "vault_record \<Rightarrow> vault_status" where
  "cleared_state r = (if vr_state r = VPending \<or> (case vr_sourceIssuance r of None \<Rightarrow> False | Some s \<Rightarrow> \<not> si_hubMaterialized s)
     then VPending else VActive)"

definition queued_job :: "vault_record \<Rightarrow> int \<Rightarrow> revocation_job" where
  "queued_job r at = \<lparr>rj_id = vr_id r @ '':revoke:'' @ dec_int at, rj_recordId = vr_id r, rj_walletAddress = vr_walletAddress r,
     rj_createdAt = at, rj_state = RevPending, rj_sourceTarget = map_option (\<lambda>s. (si_chainId s, si_source s)) (vr_sourceIssuance r),
     rj_transaction = None, rj_confirmedAt = None, rj_lastError = None, rj_observations = []\<rparr>"

definition queueRevocation :: "vault_record \<Rightarrow> int \<Rightarrow> vault_data \<Rightarrow> vault_error + vault_data" where
  "queueRevocation r at d =
     (let d0 = d\<lparr>vd_revocations := Some (vault_jobs d)\<rparr>; j = queued_job r at in
      if list_ex (\<lambda>j. rj_state j \<noteq> RevConfirmed) (jobs_of d (vr_id r)) then Inr d0
      else if obj_get (vault_jobs d) (rj_id j) \<noteq> None then Inl (VaultError ''revocation event ID already used'')
      else Inr (put_job j d0))"

text \<open>Queue a revocation when the decision blocks, and return the changed record.\<close>

definition after_decision :: "bool \<Rightarrow> vault_record \<Rightarrow> int \<Rightarrow> vault_data \<Rightarrow> vault_error + vault_record \<times> vault_data" where
  "after_decision blocks r at d =
     (if blocks then (case queueRevocation r at (put_record r d) of Inl e \<Rightarrow> Inl e | Inr d' \<Rightarrow> Inr (r, d'))
      else Inr (r, put_record r d))"

definition recordRescreen :: "string \<Rightarrow> rescreen_event \<Rightarrow> vault_record \<Rightarrow> vault_record vault_op" where
  "recordRescreen rid ev expected d =
     (case obj_get (vd_records d) rid of None \<Rightarrow> Inl RescreenConflictError
      | Some r \<Rightarrow>
        if vr_id expected \<noteq> rid \<or> r \<noteq> expected then Inl RescreenConflictError
        else if vr_state r = VBlocked \<or> vr_state r = VRejected then Inl (VaultError ''terminal compliance state requires explicit review; rescreen cannot clear it'')
        else if \<not> timestamp (rs_at ev) then Inl bad_timestamp
        else if rs_at ev < latest_decision r then Inl (VaultError ''rescreen timestamp precedes retained decision'')
        else if rs_decision ev \<notin> {''ALLOW'', ''REVIEW'', ''BLOCK''} then Inl (VaultError ''invalid rescreen decision'')
        else after_decision (rs_decision ev = ''BLOCK'')
          (r\<lparr>vr_lastScreenedAt := Some (rs_at ev), vr_rescreens := vr_rescreens r @ [ev],
             vr_state := if rs_decision ev = ''BLOCK'' then VBlocked else if rs_decision ev = ''REVIEW'' then VReview else cleared_state r\<rparr>)
          (rs_at ev) d)"

definition reviewSnapshot :: "vault_env \<Rightarrow> string \<Rightarrow> string \<Rightarrow> vault_data \<Rightarrow> vault_error + string \<times> vault_record" where
  "reviewSnapshot E key rid d = (case obj_get (vd_records d) rid of None \<Rightarrow> Inl ReviewConflictError
     | Some r \<Rightarrow> Inr (reviewRevision E key d r, r))"

definition revision_text :: "string \<Rightarrow> bool" where
  "revision_text s \<longleftrightarrow> length s = 64 \<and> list_all lower_hex_digit s"

definition decideReview :: "vault_env \<Rightarrow> string \<Rightarrow> string \<Rightarrow> review_event \<Rightarrow> string \<Rightarrow> vault_record vault_op" where
  "decideReview E key rid ev expectedRevision d =
     (case obj_get (vd_records d) rid of None \<Rightarrow> Inl ReviewConflictError
      | Some r \<Rightarrow>
        if \<not> revision_text expectedRevision \<or> reviewRevision E key d r \<noteq> expectedRevision then Inl ReviewConflictError
        else if \<not> timestamp (rw_at ev) then Inl bad_timestamp
        else if \<not> (opaque_reference (rw_operator ev) \<and> opaque_reference (rw_reason ev)) then Inl bad_reference
        else if rw_outcome ev \<noteq> ''cleared'' \<and> rw_outcome ev \<noteq> ''blocked'' then Inl (VaultError ''invalid review outcome'')
        else if rw_at ev < latest_decision r then Inl (VaultError ''review timestamp precedes retained decision'')
        else if rw_outcome ev = ''cleared'' \<and> list_ex (\<lambda>j. rj_state j \<noteq> RevConfirmed) (jobs_of d rid)
          then Inl (VaultError ''pending revocation must be reconciled before clearance; clearance does not reissue on chain'')
        else after_decision (rw_outcome ev = ''blocked'')
          (r\<lparr>vr_reviews := vr_reviews r @ [ev\<lparr>rw_basedOn := Some expectedRevision\<rparr>],
             vr_state := if rw_outcome ev = ''cleared'' then cleared_state r else VBlocked\<rparr>)
          (rw_at ev) d)"

section \<open>Retention controls\<close>

definition extendRetention :: "string \<Rightarrow> int \<Rightarrow> string \<Rightarrow> string \<Rightarrow> int \<Rightarrow> unit vault_op" where
  "extendRetention rid until operator ref at d =
     (if \<not> (timestamp at \<and> timestamp until) then Inl bad_timestamp
      else if \<not> (opaque_reference operator \<and> opaque_reference ref) then Inl bad_reference
      else case mustGet rid d of Inl e \<Rightarrow> Inl e
      | Inr r \<Rightarrow> let c = controls rid d in
          if until \<le> max (vr_retentionUntil r) (case rt_minimumUntil c of None \<Rightarrow> 0 | Some m \<Rightarrow> m)
          then Inl (VaultError ''retention can only be extended'')
          else Inr ((), put_controls rid (c\<lparr>rt_minimumUntil := Some until,
            rt_extensions := rt_extensions c @ [\<lparr>ex_until = until, ex_operator = operator, ex_reference = ref, ex_at = at\<rparr>]\<rparr>) d))"

definition placeHold :: "string \<Rightarrow> string \<Rightarrow> string \<Rightarrow> string \<Rightarrow> int \<Rightarrow> unit vault_op" where
  "placeHold rid holdId operator ref at d =
     (case mustGet rid d of Inl e \<Rightarrow> Inl e
      | Inr r \<Rightarrow>
        if \<not> timestamp at then Inl bad_timestamp
        else if \<not> (opaque_reference holdId \<and> opaque_reference operator \<and> opaque_reference ref) then Inl bad_reference
        else let c = controls rid d in
          if list_ex (\<lambda>h. lh_id h = holdId) (rt_holds c) then Inl (VaultError ''hold ID already used'')
          else Inr ((), put_controls rid (c\<lparr>rt_holds := rt_holds c
            @ [\<lparr>lh_id = holdId, lh_operator = operator, lh_reference = ref, lh_at = at, lh_release = None\<rparr>]\<rparr>) d))"

text \<open>The hold found by \<^verbatim>\<open>find\<close> is changed in place.\<close>

fun release_first :: "string \<Rightarrow> string \<times> string \<times> int \<Rightarrow> legal_hold list \<Rightarrow> legal_hold list" where
  "release_first holdId rel [] = []"
| "release_first holdId rel (h # hs) =
     (if lh_id h = holdId then h\<lparr>lh_release := Some rel\<rparr> # hs else h # release_first holdId rel hs)"

definition releaseHold :: "string \<Rightarrow> string \<Rightarrow> string \<Rightarrow> string \<Rightarrow> int \<Rightarrow> unit vault_op" where
  "releaseHold rid holdId operator ref at d =
     (case mustGet rid d of Inl e \<Rightarrow> Inl e
      | Inr r \<Rightarrow>
        if \<not> timestamp at then Inl bad_timestamp
        else if \<not> (opaque_reference operator \<and> opaque_reference ref) then Inl bad_reference
        else let c = controls rid d in
          case find (\<lambda>h. lh_id h = holdId) (rt_holds c) of
            None \<Rightarrow> Inl (VaultError ''unknown or already released hold'')
          | Some h \<Rightarrow>
              if lh_release h \<noteq> None then Inl (VaultError ''unknown or already released hold'')
              else if at < lh_at h then Inl (VaultError ''hold release precedes placement'')
              else Inr ((), put_controls rid (c\<lparr>rt_holds := release_first holdId (operator, ref, at) (rt_holds c)\<rparr>) d))"

section \<open>Deletion\<close>

definition not_expired_aside :: "blocker list \<Rightarrow> blocker list" where
  "not_expired_aside = filter (\<lambda>b. b \<noteq> RETENTION_NOT_EXPIRED)"

definition deletion_policy_ok :: "vault_record \<Rightarrow> string \<Rightarrow> string \<Rightarrow> bool" where
  "deletion_policy_ok r policyRef disposition \<longleftrightarrow> (case vr_retentionPolicy r of None \<Rightarrow> True
     | Some p \<Rightarrow> policyRef = (case re_approvalRef p of None \<Rightarrow> re_policyId p | Some a \<Rightarrow> a) \<and> disposition = re_credentialDisposition p)"

text \<open>The random identifier of the request is the first argument; \<open>q\<close> holds the input of the caller.\<close>

definition requestDeletion :: "vault_env \<Rightarrow> string \<Rightarrow> string \<Rightarrow> deletion_request \<Rightarrow> int \<Rightarrow> deletion_request vault_op" where
  "requestDeletion E fresh_id rid q at d =
     (if \<not> timestamp at then Inl bad_timestamp
      else if \<not> (opaque_reference (dr_operator q) \<and> opaque_reference (dr_policyRef q) \<and> opaque_reference (dr_serviceRef q)) then Inl bad_reference
      else if dr_disposition q \<notin> {''unchanged'', ''source-revoked'', ''not-issued''} then Inl (VaultError ''invalid deletion decision'')
      else case mustGet rid d of Inl e \<Rightarrow> Inl e
      | Inr r \<Rightarrow>
        if \<not> deletion_policy_ok r (dr_policyRef q) (dr_disposition q)
          then Inl (VaultError ''deletion decision does not match the retained policy snapshot'')
        else let blockers = not_expired_aside (safetyBlockers d r at);
                 confirmed = list_ex (\<lambda>j. rj_state j = RevConfirmed) (jobs_of d rid) in
          if blockers \<noteq> [] then Inl (DeletionBlocked blockers)
          else if (dr_disposition q = ''source-revoked'' \<and> \<not> confirmed) \<or> (dr_disposition q = ''not-issued'' \<and> vr_state r \<noteq> VRejected)
              \<or> (vr_state r = VBlocked \<and> dr_disposition q \<noteq> ''source-revoked'')
            then Inl (VaultError ''service disposition is not supported by local evidence'')
          else let request = q\<lparr>dr_id := fresh_id, dr_fingerprint := deletionFingerprint E d r, dr_requestedAt := at, dr_approval := None\<rparr>;
                   c = controls rid d in
            Inr (request, put_controls rid (c\<lparr>rt_requests := rt_requests c @ [request]\<rparr>) d))"

definition approveDeletion :: "vault_env \<Rightarrow> string \<Rightarrow> string \<Rightarrow> string \<Rightarrow> int \<Rightarrow> unit vault_op" where
  "approveDeletion E rid requestId operator at d =
     (if \<not> timestamp at then Inl bad_timestamp
      else if \<not> opaque_reference operator then Inl bad_reference
      else case mustGet rid d of Inl e \<Rightarrow> Inl e
      | Inr r \<Rightarrow> let c = controls rid d in
        case last_request c of None \<Rightarrow> Inl (VaultError ''deletion request is not current'')
        | Some q \<Rightarrow>
          if dr_id q \<noteq> requestId then Inl (VaultError ''deletion request is not current'')
          else if dr_operator q = operator then Inl (VaultError ''deletion requires a different approver label'')
          else if dr_approval q \<noteq> None then Inl (VaultError ''deletion request already approved'')
          else if at < dr_requestedAt q then Inl (VaultError ''approval precedes request'')
          else if dr_fingerprint q \<noteq> deletionFingerprint E d r then Inl (VaultError ''deletion request is stale'')
          else let blockers = not_expired_aside (safetyBlockers d r at) in
            if blockers \<noteq> [] then Inl (DeletionBlocked blockers)
            else Inr ((), put_controls rid (c\<lparr>rt_requests := butlast (rt_requests c) @ [q\<lparr>dr_approval := Some (operator, at)\<rparr>]\<rparr>) d))"

record deletion_line =
  dl_recordId :: string
  dl_retentionUntil :: int
  dl_requestId :: "string option"
  dl_automatic :: bool
  dl_blockers :: "blocker list"

definition deletionPreview :: "vault_env \<Rightarrow> int \<Rightarrow> vault_data \<Rightarrow> vault_error + deletion_line list" where
  "deletionPreview E now d =
     (if \<not> timestamp now then Inl bad_timestamp
      else Inr (map (\<lambda>(k, r). let q = last_request (controls (vr_id r) d) in
        \<lparr>dl_recordId = vr_id r, dl_retentionUntil = retentionDeadline d r, dl_requestId = map_option dr_id q,
         dl_automatic = (case q of None \<Rightarrow> False | Some q \<Rightarrow> dr_automatic q), dl_blockers = deletionBlockers E d r now\<rparr>) (vd_records d)))"

definition eraseApproved :: "vault_record \<Rightarrow> deletion_request \<Rightarrow> int \<Rightarrow> vault_data \<Rightarrow> vault_data" where
  "eraseApproved r q at d = d\<lparr>vd_records := AList.delete (vr_id r) (vd_records d),
     vd_erasures := vd_erasures d @ [\<lparr>er_recordId = vr_id r, er_at = at, er_reason = dr_policyRef q, er_requestId = Some (dr_id q)\<rparr>]\<rparr>"

definition erase :: "vault_env \<Rightarrow> string \<Rightarrow> string \<Rightarrow> int \<Rightarrow> bool vault_op" where
  "erase E rid requestId at d =
     (if \<not> timestamp at then Inl bad_timestamp
      else case obj_get (vd_records d) rid of None \<Rightarrow> Inr (False, d)
      | Some r \<Rightarrow> (case last_request (controls rid d) of None \<Rightarrow> Inl (VaultError ''deletion request is not current'')
        | Some q \<Rightarrow>
          if dr_id q \<noteq> requestId then Inl (VaultError ''deletion request is not current'')
          else let blockers = deletionBlockers E d r at in
            if blockers \<noteq> [] then Inl (DeletionBlocked blockers) else Inr (True, eraseApproved r q at d)))"

text \<open>The loop of \<^verbatim>\<open>purgeExpired\<close> runs over the records present when it starts.\<close>

fun purge_loop :: "vault_env \<Rightarrow> int \<Rightarrow> vault_record list \<Rightarrow> vault_data \<Rightarrow> nat \<times> vault_data" where
  "purge_loop E now [] d = (0, d)"
| "purge_loop E now (r # rs) d =
     (case last_request (controls (vr_id r) d) of None \<Rightarrow> purge_loop E now rs d
      | Some q \<Rightarrow>
        if \<not> dr_automatic q \<or> deletionBlockers E d r now \<noteq> [] then purge_loop E now rs d
        else (case purge_loop E now rs (eraseApproved r q now d) of (n, d') \<Rightarrow> (Suc n, d')))"

definition purgeExpired :: "vault_env \<Rightarrow> int \<Rightarrow> nat vault_op" where
  "purgeExpired E now d = (if \<not> timestamp now then Inl bad_timestamp else Inr (purge_loop E now (map snd (vd_records d)) d))"

section \<open>Reports\<close>

definition vault_counts :: "vault_data \<Rightarrow> nat \<times> (vault_status \<Rightarrow> nat)" where
  "vault_counts d = (length (vd_erasures d), \<lambda>s. length (filter (\<lambda>r. vr_state r = s) (map snd (vd_records d))))"

record monitor_record =
  mr_id :: string
  mr_state :: vault_status
  mr_createdAt :: int
  mr_retentionUntil :: int
  mr_lastScreenedAt :: "int option"
  mr_sourceObserved :: bool

record monitor_job =
  mj_id :: string
  mj_recordId :: string
  mj_state :: revocation_state
  mj_createdAt :: int
  mj_confirmedAt :: "int option"
  mj_hasError :: bool
  mj_latestObservation :: "(string \<times> int) option"

definition monitoringSnapshot :: "vault_data \<Rightarrow> monitor_record list \<times> monitor_job list" where
  "monitoringSnapshot d =
     (map (\<lambda>(k, r). \<lparr>mr_id = vr_id r, mr_state = vr_state r, mr_createdAt = vr_createdAt r, mr_retentionUntil = retentionDeadline d r,
        mr_lastScreenedAt = vr_lastScreenedAt r, mr_sourceObserved = (vr_sourceIssuance r \<noteq> None)\<rparr>) (vd_records d),
      map (\<lambda>(k, j). \<lparr>mj_id = rj_id j, mj_recordId = rj_recordId j, mj_state = rj_state j, mj_createdAt = rj_createdAt j,
        mj_confirmedAt = rj_confirmedAt j, mj_hasError = truthy (rj_lastError j),
        mj_latestObservation = (if rj_observations j = [] then None
          else let ob = snd (last (rj_observations j)) in Some (ob_state ob, ob_observedAt ob))\<rparr>) (vault_jobs d))"

section \<open>The revocation outbox\<close>

definition listPendingRevocations :: "vault_data \<Rightarrow> revocation_job list" where
  "listPendingRevocations d = filter (\<lambda>j. rj_state j \<noteq> RevConfirmed) (map snd (vault_jobs d))"

definition getRevocation :: "string \<Rightarrow> vault_data \<Rightarrow> revocation_job option" where
  "getRevocation rid d = obj_get (vault_jobs d) rid"

definition observation_targets :: "revocation_job \<Rightarrow> revocation_observation \<Rightarrow> bool" where
  "observation_targets j ob \<longleftrightarrow> (case rj_transaction j of None \<Rightarrow> False
     | Some tx \<Rightarrow> rt_chainId tx = 11155111 \<and> to_lower (rt_hash tx) = sn_transactionHash (ob_source ob)
        \<and> to_lower (rt_source tx) = cc_source (ob_config ob)
        \<and> (case rj_sourceTarget j of None \<Rightarrow> True
           | Some (c, s) \<Rightarrow> c = 11155111 \<and> to_lower s = cc_source (ob_config ob)))"

definition recordRevocationObservation ::
  "vault_env \<Rightarrow> string \<Rightarrow> revocation_job \<Rightarrow> revocation_observation \<Rightarrow> int \<Rightarrow> unit vault_op" where
  "recordRevocationObservation E rid expected input recordedAt d =
     (case obj_get (vault_jobs d) rid of None \<Rightarrow> Inl (RevocationObservationError ''REVOCATION_JOB_CHANGED'')
      | Some j \<Rightarrow>
        if rj_id expected \<noteq> rid \<or> j \<noteq> expected then Inl (RevocationObservationError ''REVOCATION_JOB_CHANGED'')
        else case normalizeRevocationObservation (ve_isAddress E) input of
            Inl e \<Rightarrow> Inl (RevocationObservationError ''INVALID_REVOCATION_OBSERVATION'')
        | Inr ob \<Rightarrow>
          if \<not> timestamp recordedAt then Inl bad_timestamp
          else if \<not> observation_targets j ob then Inl (RevocationObservationError ''REVOCATION_OBSERVATION_TARGET_MISMATCH'')
          else if recordedAt < ob_observedAt ob * 1000 \<or> recordedAt - ob_observedAt ob * 1000 > 300000
              \<or> recordedAt < rj_createdAt j \<or> ob_observedAt ob < rj_createdAt j div 1000
            then Inl (RevocationObservationError ''STALE_REVOCATION_OBSERVATION'')
          else if rj_observations j \<noteq> [] \<and> (ob_observedAt ob < ob_observedAt (snd (last (rj_observations j)))
              \<or> recordedAt < fst (last (rj_observations j)))
            then Inl (RevocationObservationError ''BACKDATED_REVOCATION_OBSERVATION'')
          else if rj_observations j \<noteq> [] \<and> snd (last (rj_observations j)) = ob then Inr ((), d)
          else Inr ((), put_job (j\<lparr>rj_observations := rj_observations j @ [(recordedAt, ob)]\<rparr>) d))"

definition legacy_blocked :: "vault_data \<Rightarrow> vault_record \<Rightarrow> bool" where
  "legacy_blocked d r \<longleftrightarrow> vr_state r = VBlocked \<and> jobs_of d (vr_id r) = []"

definition listLegacyBlocked :: "vault_data \<Rightarrow> (string \<times> string) list" where
  "listLegacyBlocked d = map (\<lambda>r. (vr_id r, vr_walletAddress r)) (filter (legacy_blocked d) (map snd (vd_records d)))"

fun recover_loop :: "int \<Rightarrow> vault_record list \<Rightarrow> vault_data \<Rightarrow> vault_error + vault_data" where
  "recover_loop now [] d = Inr d"
| "recover_loop now (r # rs) d =
     (if legacy_blocked d r then (case queueRevocation r now d of Inl e \<Rightarrow> Inl e | Inr d' \<Rightarrow> recover_loop now rs d')
      else recover_loop now rs d)"

definition recoverBlockedRevocations :: "int \<Rightarrow> unit vault_op" where
  "recoverBlockedRevocations now d = (case recover_loop now (map snd (vd_records d)) d of Inl e \<Rightarrow> Inl e | Inr d' \<Rightarrow> Inr ((), d'))"

definition prepareRevocation :: "string \<Rightarrow> revocation_tx \<Rightarrow> revocation_job vault_op" where
  "prepareRevocation rid tx d =
     (case mustGetJob rid d of Inl e \<Rightarrow> Inl e
      | Inr j \<Rightarrow>
        if rj_state j = RevConfirmed then Inl (VaultError ''revocation already confirmed'')
        else if (case rj_transaction j of None \<Rightarrow> False | Some old \<Rightarrow> rt_hash old \<noteq> rt_hash tx)
          then Inl (VaultError ''revocation already has a different signed transaction'')
        else let j' = j\<lparr>rj_transaction := Some tx, rj_state := RevPrepared\<rparr> in Inr (j', put_job j' d))"

definition finishRevocation :: "string \<Rightarrow> int \<Rightarrow> unit vault_op" where
  "finishRevocation rid at d =
     (case mustGetJob rid d of Inl e \<Rightarrow> Inl e
      | Inr j \<Rightarrow> (case rj_transaction j of None \<Rightarrow> Inl (VaultError ''revocation has no prepared transaction'')
        | Some tx \<Rightarrow> Inr ((), put_job (j\<lparr>rj_state := RevConfirmed, rj_confirmedAt := Some at, rj_lastError := None,
            rj_transaction := Some (tx\<lparr>rt_raw := []\<rparr>)\<rparr>) d)))"

definition failRevocation :: "string \<Rightarrow> string \<Rightarrow> bool \<Rightarrow> unit vault_op" where
  "failRevocation rid error minedRevert d =
     (case mustGetJob rid d of Inl e \<Rightarrow> Inl e
      | Inr j \<Rightarrow>
        if rj_state j = RevConfirmed then Inl (VaultError ''cannot fail a confirmed revocation'')
        else let j' = j\<lparr>rj_lastError := Some (take 200 error)\<rparr> in
          Inr ((), put_job (if minedRevert then j'\<lparr>rj_state := RevPending, rj_transaction := None\<rparr> else j') d))"

definition record_rotation :: "key_rotation \<Rightarrow> unit vault_op" where
  "record_rotation k d = Inr ((), d\<lparr>vd_maintenance := Some ((case vd_maintenance d of None \<Rightarrow> [] | Some m \<Rightarrow> m) @ [k])\<rparr>)"

section \<open>Calls\<close>

text \<open>One constructor per public operation that runs under \<^verbatim>\<open>mutate\<close>, with the arguments of the caller.\<close>

datatype vault_call =
    DoPut vault_record
  | DoMaterialize string string
  | DoConfirmSource string string source_issuance
  | DoRescreen string rescreen_event vault_record
  | DoReview string review_event string
  | DoExtend string int string string int
  | DoPlaceHold string string string string int
  | DoReleaseHold string string string string int
  | DoRequest string string deletion_request int
  | DoApprove string string string int
  | DoErase string string int
  | DoPurge int
  | DoObserve string revocation_job revocation_observation int
  | DoRecover int
  | DoPrepare string revocation_tx
  | DoFinish string int
  | DoFail string string bool
  | DoRotate key_rotation

definition forget :: "'e + 'a \<times> 'd \<Rightarrow> 'e + 'd" where
  "forget r = (case r of Inl e \<Rightarrow> Inl e | Inr (x, d) \<Rightarrow> Inr d)"

fun run_call :: "vault_env \<Rightarrow> string \<Rightarrow> vault_call \<Rightarrow> vault_data \<Rightarrow> vault_error + vault_data" where
  "run_call E key (DoPut r) d = forget (vault_put r d)"
| "run_call E key (DoMaterialize rid h) d = forget (recordMaterialization rid h d)"
| "run_call E key (DoConfirmSource rid h obs) d = forget (recordSourceConfirmation rid h obs d)"
| "run_call E key (DoRescreen rid ev x) d = forget (recordRescreen rid ev x d)"
| "run_call E key (DoReview rid ev x) d = forget (decideReview E key rid ev x d)"
| "run_call E key (DoExtend rid u opr ref at) d = forget (extendRetention rid u opr ref at d)"
| "run_call E key (DoPlaceHold rid h opr ref at) d = forget (placeHold rid h opr ref at d)"
| "run_call E key (DoReleaseHold rid h opr ref at) d = forget (releaseHold rid h opr ref at d)"
| "run_call E key (DoRequest n rid q at) d = forget (requestDeletion E n rid q at d)"
| "run_call E key (DoApprove rid q opr at) d = forget (approveDeletion E rid q opr at d)"
| "run_call E key (DoErase rid q at) d = forget (erase E rid q at d)"
| "run_call E key (DoPurge now) d = forget (purgeExpired E now d)"
| "run_call E key (DoObserve rid x ob at) d = forget (recordRevocationObservation E rid x ob at d)"
| "run_call E key (DoRecover now) d = forget (recoverBlockedRevocations now d)"
| "run_call E key (DoPrepare rid tx) d = forget (prepareRevocation rid tx d)"
| "run_call E key (DoFinish rid at) d = forget (finishRevocation rid at d)"
| "run_call E key (DoFail rid err m) d = forget (failRevocation rid err m d)"
| "run_call E key (DoRotate k) d = forget (record_rotation k d)"

text \<open>A successful call, with the revision that \<^verbatim>\<open>mutate\<close> counts up.\<close>

definition next_revision :: "vault_data \<Rightarrow> vault_data" where
  "next_revision d = d\<lparr>vd_revision := vd_revision d + 1\<rparr>"

inductive vault_step :: "vault_env \<Rightarrow> vault_data \<Rightarrow> vault_data \<Rightarrow> bool" for E where
  vault_stepI: "run_call E key c d = Inr d' \<Longrightarrow> vault_step E d (next_revision d')"

abbreviation vault_reachable :: "vault_env \<Rightarrow> vault_data \<Rightarrow> bool" where
  "vault_reachable E \<equiv> reachable (\<lambda>d. d = empty_vault) (vault_step E)"

lemma forget_Inr: "forget r = Inr d \<longleftrightarrow> (\<exists>x. r = Inr (x, d))"
  by (auto simp: forget_def split: sum.splits prod.splits)

section \<open>Elementary changes\<close>

text \<open>
  Every call is a sequence of a few elementary changes. They are the abstract view of the vault:
  a record appears, is amended or is erased; a job is queued or amended; the controls of a record
  that exists change.
\<close>

definition record_ok :: "vault_record \<Rightarrow> bool" where
  "record_ok r \<longleftrightarrow> vr_id r \<noteq> [] \<and> timestamp (vr_createdAt r) \<and> timestamp (vr_retentionUntil r)
     \<and> vr_createdAt r \<le> vr_retentionUntil r \<and> retention_snapshot_ok r"

definition amended :: "vault_record \<Rightarrow> vault_record \<Rightarrow> bool" where
  "amended r r' \<longleftrightarrow> vr_id r' = vr_id r \<and> vr_evidenceHash r' = vr_evidenceHash r \<and> (record_ok r \<longrightarrow> record_ok r')"

definition job_ok :: "revocation_job \<Rightarrow> bool" where
  "job_ok j \<longleftrightarrow> (rj_state j = RevPending \<longleftrightarrow> rj_transaction j = None)
     \<and> (case rj_transaction j of None \<Rightarrow> True | Some tx \<Rightarrow> rj_state j = RevConfirmed \<longrightarrow> rt_raw tx = [])"

definition job_amended :: "revocation_job \<Rightarrow> revocation_job \<Rightarrow> bool" where
  "job_amended j j' \<longleftrightarrow> rj_id j' = rj_id j \<and> rj_recordId j' = rj_recordId j \<and> rj_walletAddress j' = rj_walletAddress j
     \<and> rj_createdAt j' = rj_createdAt j \<and> rj_sourceTarget j' = rj_sourceTarget j
     \<and> (job_ok j \<longrightarrow> job_ok j') \<and> (rj_state j = RevConfirmed \<longrightarrow> rj_state j' = RevConfirmed)"

definition approvals_ok :: "retention_controls \<Rightarrow> bool" where
  "approvals_ok c \<longleftrightarrow> list_all (\<lambda>q. case dr_approval q of None \<Rightarrow> True | Some (who, at) \<Rightarrow> who \<noteq> dr_operator q) (rt_requests c)"

definition open_job :: "revocation_job \<Rightarrow> bool" where
  "open_job j \<longleftrightarrow> rj_state j \<noteq> RevConfirmed"

inductive vault_change :: "vault_env \<Rightarrow> vault_data \<Rightarrow> vault_data \<Rightarrow> bool" for E where
  change_jobs: "vault_change E d (d\<lparr>vd_revocations := Some (vault_jobs d)\<rparr>)"
| change_new: "obj_get (vd_records d) (vr_id r) = None \<Longrightarrow> vr_id r \<notin> er_recordId ` set (vd_erasures d) \<Longrightarrow> record_ok r
     \<Longrightarrow> vault_change E d (put_record r d)"
| change_record: "obj_get (vd_records d) k = Some r \<Longrightarrow> amended r r' \<Longrightarrow> vault_change E d (put_record r' d)"
| change_queue: "obj_get (vd_records d) (vr_id r) = Some r \<Longrightarrow> \<not> list_ex open_job (jobs_of d (vr_id r))
     \<Longrightarrow> obj_get (vault_jobs d) (rj_id (queued_job r at)) = None \<Longrightarrow> vault_change E d (put_job (queued_job r at) d)"
| change_job: "obj_get (vault_jobs d) k = Some j \<Longrightarrow> job_amended j j' \<Longrightarrow> vault_change E d (put_job j' d)"
| change_controls: "obj_get (vd_records d) k = Some r \<Longrightarrow> (approvals_ok (controls k d) \<Longrightarrow> approvals_ok c) \<Longrightarrow> vault_change E d (put_controls k c d)"
| change_erase: "obj_get (vd_records d) k = Some r \<Longrightarrow> last_request (controls (vr_id r) d) = Some q \<Longrightarrow> deletionBlockers E d r at = []
     \<Longrightarrow> vault_change E d (eraseApproved r q at d)"
| change_maintenance: "vault_change E d (d\<lparr>vd_maintenance := m\<rparr>)"
| change_revision: "vault_change E d (next_revision d)"

section \<open>The invariant\<close>

definition records_good :: "vault_record obj \<Rightarrow> bool" where
  "records_good m \<longleftrightarrow> obj_wf m \<and> (\<forall>k r. obj_get m k = Some r \<longrightarrow> vr_id r = k \<and> record_ok r)"

definition records_inv :: "vault_data \<Rightarrow> bool" where
  "records_inv d \<longleftrightarrow> records_good (vd_records d)"

definition jobs_inv :: "vault_data \<Rightarrow> bool" where
  "jobs_inv d \<longleftrightarrow> obj_wf (vault_jobs d) \<and> (\<forall>k j. obj_get (vault_jobs d) k = Some j \<longrightarrow> rj_id j = k \<and> job_ok j)
     \<and> (\<forall>k j k' j'. obj_get (vault_jobs d) k = Some j \<longrightarrow> obj_get (vault_jobs d) k' = Some j' \<longrightarrow> open_job j \<longrightarrow> open_job j'
          \<longrightarrow> rj_recordId j = rj_recordId j' \<longrightarrow> k = k')"

definition controls_inv :: "vault_data \<Rightarrow> bool" where
  "controls_inv d \<longleftrightarrow> (\<forall>k. approvals_ok (controls k d))"

definition justified :: "retention_controls \<Rightarrow> erasure \<Rightarrow> bool" where
  "justified c e \<longleftrightarrow>
     (\<exists>q \<in> set (rt_requests c). er_requestId e = Some (dr_id q) \<and> er_reason e = dr_policyRef q
        \<and> (\<exists>who at. dr_approval q = Some (who, at) \<and> who \<noteq> dr_operator q \<and> dr_requestedAt q \<le> at \<and> at \<le> er_at e))
     \<and> (\<forall>h \<in> set (rt_holds c). lh_release h \<noteq> None)
     \<and> (case rt_minimumUntil c of None \<Rightarrow> True | Some m \<Rightarrow> m \<le> er_at e)"

definition erasures_inv :: "vault_data \<Rightarrow> bool" where
  "erasures_inv d \<longleftrightarrow> (\<forall>e \<in> set (vd_erasures d). obj_get (vd_records d) (er_recordId e) = None
     \<and> justified (controls (er_recordId e) d) e
     \<and> (\<forall>k j. obj_get (vault_jobs d) k = Some j \<longrightarrow> rj_recordId j = er_recordId e \<longrightarrow> \<not> open_job j))"

definition vault_inv :: "vault_data \<Rightarrow> bool" where
  "vault_inv d \<longleftrightarrow> records_inv d \<and> jobs_inv d \<and> controls_inv d \<and> erasures_inv d"

lemma put_record_parts [simp]:
  "vd_records (put_record r d) = obj_put (vr_id r) r (vd_records d)" "vault_jobs (put_record r d) = vault_jobs d"
  "controls k (put_record r d) = controls k d" "vd_erasures (put_record r d) = vd_erasures d"
  by (simp_all add: put_record_def vault_jobs_def controls_def)

lemma put_job_parts [simp]:
  "vd_records (put_job j d) = vd_records d" "vault_jobs (put_job j d) = obj_put (rj_id j) j (vault_jobs d)"
  "controls k (put_job j d) = controls k d" "vd_erasures (put_job j d) = vd_erasures d"
  by (simp_all add: put_job_def vault_jobs_def controls_def)

lemma put_controls_parts [simp]:
  "vd_records (put_controls i c d) = vd_records d" "vault_jobs (put_controls i c d) = vault_jobs d"
  "controls k (put_controls i c d) = (if k = i then c else controls k d)" "vd_erasures (put_controls i c d) = vd_erasures d"
  by (simp_all add: put_controls_def vault_jobs_def controls_def update_conv')

lemma erase_parts [simp]:
  "vd_records (eraseApproved r q at d) = AList.delete (vr_id r) (vd_records d)" "vault_jobs (eraseApproved r q at d) = vault_jobs d"
  "controls k (eraseApproved r q at d) = controls k d"
  "vd_erasures (eraseApproved r q at d) = vd_erasures d @ [\<lparr>er_recordId = vr_id r, er_at = at, er_reason = dr_policyRef q, er_requestId = Some (dr_id q)\<rparr>]"
  by (simp_all add: eraseApproved_def vault_jobs_def controls_def)

lemma field_parts [simp]:
  "vault_jobs (d\<lparr>vd_revocations := Some js\<rparr>) = js" "controls k (d\<lparr>vd_revocations := x\<rparr>) = controls k d"
  "vault_jobs (d\<lparr>vd_maintenance := m\<rparr>) = vault_jobs d" "controls k (d\<lparr>vd_maintenance := m\<rparr>) = controls k d"
  "vault_jobs (next_revision d) = vault_jobs d" "controls k (next_revision d) = controls k d"
  "vd_records (next_revision d) = vd_records d" "vd_erasures (next_revision d) = vd_erasures d"
  by (simp_all add: vault_jobs_def controls_def next_revision_def)

lemma obj_wf_delete [simp]: "obj_wf m \<Longrightarrow> obj_wf (AList.delete k m)"
  by (simp add: obj_wf_def distinct_delete)

lemma jobs_of_iff: "obj_wf (vault_jobs d) \<Longrightarrow> j \<in> set (jobs_of d rid) \<longleftrightarrow> (\<exists>k. obj_get (vault_jobs d) k = Some j) \<and> rj_recordId j = rid"
  using obj_values_get [of "vault_jobs d" j] by (auto simp: jobs_of_def)

lemma open_jobs_none:
  assumes "obj_wf (vault_jobs d)" "\<not> list_ex open_job (jobs_of d rid)" "obj_get (vault_jobs d) k = Some j" "rj_recordId j = rid"
  shows "\<not> open_job j"
  using assms by (auto simp: list_ex_iff jobs_of_iff)

text \<open>What an empty list of blockers says.\<close>

lemma no_safety_blockers:
  assumes "safetyBlockers d r now = []"
  shows "retentionDeadline d r \<le> now" "vr_createdAt r \<le> now" "\<forall>h \<in> set (rt_holds (controls (vr_id r) d)). lh_release h \<noteq> None"
    "vr_state r = VActive \<or> vr_state r = VBlocked \<or> vr_state r = VRejected"
    "\<not> list_ex open_job (jobs_of d (vr_id r))"
    "vr_state r = VBlocked \<Longrightarrow> \<exists>j \<in> set (jobs_of d (vr_id r)). rj_state j = RevConfirmed"
  using assms by (auto simp: safetyBlockers_def Let_def list_ex_iff open_job_def split: if_splits)

lemma no_deletion_blockers:
  assumes "deletionBlockers E d r now = []" "last_request (controls (vr_id r) d) = Some q"
  shows "safetyBlockers d r now = []" "dr_fingerprint q = deletionFingerprint E d r"
    "\<exists>who at. dr_approval q = Some (who, at) \<and> dr_requestedAt q \<le> at \<and> at \<le> now"
  using assms by (auto simp: deletionBlockers_def split: if_splits option.splits)

lemma last_request_in: "last_request c = Some q \<Longrightarrow> q \<in> set (rt_requests c)"
  by (auto simp: last_request_def split: if_splits)

lemma erase_justified:
  assumes "controls_inv d" "last_request (controls (vr_id r) d) = Some q" "deletionBlockers E d r at = []"
  shows "justified (controls (vr_id r) d) \<lparr>er_recordId = vr_id r, er_at = at, er_reason = dr_policyRef q, er_requestId = Some (dr_id q)\<rparr>"
proof -
  note b = no_deletion_blockers [OF assms(3,2)]
  note sb = no_safety_blockers [OF b(1)]
  from b(3) obtain who t where a: "dr_approval q = Some (who, t)" "dr_requestedAt q \<le> t" "t \<le> at" by auto
  moreover have "who \<noteq> dr_operator q"
    using assms(1) last_request_in [OF assms(2)] a(1) by (auto simp: controls_inv_def approvals_ok_def list_all_iff split: option.splits)
  moreover have "case rt_minimumUntil (controls (vr_id r) d) of None \<Rightarrow> True | Some m \<Rightarrow> m \<le> at"
    using sb(1) by (auto simp: retentionDeadline_def split: option.splits)
  ultimately show ?thesis
    using sb(3) last_request_in [OF assms(2)] unfolding justified_def by (auto split: option.splits)
qed

lemma records_good_put: "records_good m \<Longrightarrow> record_ok r \<Longrightarrow> records_good (obj_put (vr_id r) r m)"
  by (auto simp: records_good_def obj_simps split: if_splits)

lemma records_good_delete: "records_good m \<Longrightarrow> records_good (AList.delete k m)"
  by (auto simp: records_good_def obj_simps split: if_splits)

lemma records_invD: "records_inv d \<Longrightarrow> obj_get (vd_records d) k = Some r \<Longrightarrow> vr_id r = k \<and> record_ok r"
  by (simp add: records_inv_def records_good_def)

lemma change_records_inv: "vault_change E d d' \<Longrightarrow> records_inv d \<Longrightarrow> records_inv d'"
proof (induction rule: vault_change.induct)
  case (change_record d k r r')
  then show ?case using records_invD [of d k r] by (auto simp: records_inv_def amended_def intro: records_good_put)
qed (auto simp: records_inv_def intro: records_good_put records_good_delete)

lemma change_controls_inv: "vault_change E d d' \<Longrightarrow> controls_inv d \<Longrightarrow> controls_inv d'"
  by (induction rule: vault_change.induct) (auto simp: controls_inv_def)

lemma queued_job_ok [simp]: "job_ok (queued_job r at)" "rj_recordId (queued_job r at) = vr_id r"
  by (simp_all add: job_ok_def queued_job_def)

lemma change_jobs_inv: "vault_change E d d' \<Longrightarrow> jobs_inv d \<Longrightarrow> jobs_inv d'"
proof (induction rule: vault_change.induct)
  case (change_queue d r at)
  have "obj_wf (vault_jobs d)" using change_queue.prems by (simp add: jobs_inv_def)
  note none = open_jobs_none [OF this change_queue.hyps(2)]
  have "rj_recordId j \<noteq> vr_id r" if "obj_get (vault_jobs d) k = Some j" "open_job j" for k j using none that by blast
  then show ?case using change_queue.prems by (auto simp: jobs_inv_def obj_simps) (metis+)?
next
  case (change_job d k j j')
  then show ?case by (auto simp: jobs_inv_def obj_simps job_amended_def open_job_def) (metis+)?
qed (auto simp: jobs_inv_def)

lemma change_erasures_inv:
  "vault_change E d d' \<Longrightarrow> vault_inv d \<Longrightarrow> erasures_inv d'"
proof (induction rule: vault_change.induct)
  case (change_record d k r r')
  have "er_recordId e \<noteq> vr_id r'" if "e \<in> set (vd_erasures d)" for e
    using change_record that records_invD [of d k r] by (auto simp: vault_inv_def erasures_inv_def amended_def)
  then show ?case using change_record.prems by (auto simp: vault_inv_def erasures_inv_def obj_simps)
next
  case (change_queue d r at)
  have "vr_id r \<noteq> er_recordId e" if "e \<in> set (vd_erasures d)" for e
    using change_queue that by (auto simp: vault_inv_def erasures_inv_def)
  then show ?case using change_queue.prems by (auto simp: vault_inv_def erasures_inv_def obj_simps split: if_splits)
next
  case (change_job d k j j')
  then show ?case by (auto simp: vault_inv_def erasures_inv_def obj_simps job_amended_def open_job_def split: if_splits)
next
  case (change_controls d k r c)
  have "er_recordId e \<noteq> k" if "e \<in> set (vd_erasures d)" for e
    using change_controls that by (auto simp: vault_inv_def erasures_inv_def)
  then show ?case using change_controls.prems by (auto simp: vault_inv_def erasures_inv_def)
next
  case (change_erase d k r q at)
  have w: "obj_wf (vault_jobs d)" "controls_inv d" using change_erase.prems by (simp_all add: vault_inv_def jobs_inv_def)
  note sb = no_safety_blockers [OF no_deletion_blockers(1) [OF change_erase.hyps(3,2)]]
  show ?case
    using change_erase.prems erase_justified [OF w(2) change_erase.hyps(2,3)] open_jobs_none [OF w(1) sb(5)]
    by (auto simp: vault_inv_def erasures_inv_def obj_simps)
qed (auto simp: vault_inv_def erasures_inv_def obj_simps image_iff)

lemma change_inv: "vault_change E d d' \<Longrightarrow> vault_inv d \<Longrightarrow> vault_inv d'"
  using change_records_inv change_jobs_inv change_controls_inv change_erasures_inv by (auto simp: vault_inv_def)

lemma changes_inv: "(vault_change E)\<^sup>*\<^sup>* d d' \<Longrightarrow> vault_inv d \<Longrightarrow> vault_inv d'"
  by (induction rule: rtranclp_induct) (auto intro: change_inv)

lemma empty_vault_inv: "vault_inv empty_vault"
  by (simp add: vault_inv_def records_inv_def records_good_def jobs_inv_def controls_inv_def erasures_inv_def empty_vault_def vault_jobs_def
      controls_def no_controls_def approvals_ok_def)

section \<open>Calls are sequences of changes\<close>

abbreviation changes :: "vault_env \<Rightarrow> vault_data \<Rightarrow> vault_data \<Rightarrow> bool" where
  "changes E \<equiv> (vault_change E)\<^sup>*\<^sup>*"

lemma mustGet_Inr [simp]: "mustGet rid d = Inr r \<longleftrightarrow> obj_get (vd_records d) rid = Some r"
  by (simp add: mustGet_def split: option.splits)

lemma mustGetJob_Inr [simp]: "mustGetJob rid d = Inr j \<longleftrightarrow> obj_get (vault_jobs d) rid = Some j"
  by (simp add: mustGetJob_def split: option.splits)

lemma record_ok_amend:
  "record_ok (r\<lparr>vr_sourceIssuance := a, vr_state := b\<rparr>) = record_ok r" "record_ok (r\<lparr>vr_sourceIssuance := a\<rparr>) = record_ok r"
  "record_ok (r\<lparr>vr_lastScreenedAt := c, vr_rescreens := e, vr_state := b\<rparr>) = record_ok r"
  "record_ok (r\<lparr>vr_reviews := f, vr_state := b\<rparr>) = record_ok r"
  by (simp_all add: record_ok_def retention_snapshot_ok_def split: option.split)

lemma put_changes: "vault_put r d = Inr (x, d') \<Longrightarrow> changes E d d'"
  by (auto simp: vault_put_def record_ok_def list_ex_iff intro!: r_into_rtranclp change_new split: if_splits option.splits)

lemma materialize_changes: "recordMaterialization rid h d = Inr (x, d') \<Longrightarrow> changes E d d'"
  unfolding recordMaterialization_def
  by (auto simp: amended_def record_ok_amend intro!: r_into_rtranclp change_record split: if_splits sum.splits)

lemma confirm_source_changes: "recordSourceConfirmation rid h obs d = Inr (x, d') \<Longrightarrow> changes E d d'"
  unfolding recordSourceConfirmation_def Let_def
  by (auto simp: amended_def record_ok_amend intro!: r_into_rtranclp change_record split: if_splits sum.splits option.splits)

lemma queue_changes:
  assumes "queueRevocation r at d = Inr d'" "obj_get (vd_records d) (vr_id r) = Some r"
  shows "changes E d d'"
proof -
  let ?d = "d\<lparr>vd_revocations := Some (vault_jobs d)\<rparr>"
  have f: "changes E d ?d" by (intro r_into_rtranclp change_jobs)
  have j: "jobs_of ?d k = jobs_of d k" for k by (simp add: jobs_of_def)
  from assms(1) consider "d' = ?d"
    | "d' = put_job (queued_job r at) ?d" "\<not> list_ex open_job (jobs_of d (vr_id r))" "obj_get (vault_jobs d) (rj_id (queued_job r at)) = None"
    by (auto simp: queueRevocation_def Let_def open_job_def list_ex_iff split: if_splits)
  then show ?thesis
  proof cases
    case 2
    have "vault_change E ?d d'" unfolding 2(1) using 2(2,3) assms(2) j by (intro change_queue) simp_all
    with f show ?thesis by (rule rtranclp.rtrancl_into_rtrancl)
  qed (use f in simp)
qed

lemma after_decision_changes:
  assumes "after_decision b r' at d = Inr (x, d')" "obj_get (vd_records d) k = Some r" "amended r r'"
  shows "changes E d d'"
proof -
  have 1: "changes E d (put_record r' d)" by (intro r_into_rtranclp change_record [OF assms(2,3)])
  have "changes E (put_record r' d) d'"
    using assms(1) queue_changes [of r' at "put_record r' d" d' E]
    by (auto simp: after_decision_def obj_simps split: if_splits sum.splits)
  with 1 show ?thesis by (rule rtranclp_trans)
qed

lemma rescreen_changes: "recordRescreen rid ev x d = Inr (y, d') \<Longrightarrow> changes E d d'"
  unfolding recordRescreen_def
  by (auto simp: amended_def record_ok_amend elim!: after_decision_changes split: if_splits option.splits)

lemma review_changes: "decideReview E key rid ev x d = Inr (y, d') \<Longrightarrow> changes E d d'"
  unfolding decideReview_def
  by (auto simp: amended_def record_ok_amend elim!: after_decision_changes split: if_splits option.splits)

lemma controls_change:
  "obj_get (vd_records d) rid = Some r \<Longrightarrow> (approvals_ok (controls rid d) \<Longrightarrow> approvals_ok c) \<Longrightarrow> changes E d (put_controls rid c d)"
  by (rule r_into_rtranclp, rule change_controls)

lemma extend_changes: "extendRetention rid u opr ref at d = Inr (x, d') \<Longrightarrow> changes E d d'"
  unfolding extendRetention_def Let_def
  by (auto simp: approvals_ok_def intro!: controls_change split: if_splits sum.splits)

lemma place_hold_changes: "placeHold rid h opr ref at d = Inr (x, d') \<Longrightarrow> changes E d d'"
  unfolding placeHold_def Let_def
  by (auto simp: approvals_ok_def intro!: controls_change split: if_splits sum.splits)

lemma release_hold_changes: "releaseHold rid h opr ref at d = Inr (x, d') \<Longrightarrow> changes E d d'"
  unfolding releaseHold_def Let_def
  by (auto simp: approvals_ok_def intro!: controls_change split: if_splits sum.splits option.splits)

lemma request_changes: "requestDeletion E n rid q at d = Inr (x, d') \<Longrightarrow> changes E d d'"
  unfolding requestDeletion_def Let_def
  by (auto simp: approvals_ok_def intro!: controls_change split: if_splits sum.splits)

lemma approve_changes:
  assumes "approveDeletion E rid qid opr at d = Inr (x, d')"
  shows "changes E d d'"
proof -
  from assms obtain r q where r: "obj_get (vd_records d) rid = Some r" "last_request (controls rid d) = Some q" "dr_operator q \<noteq> opr"
    and d': "d' = put_controls rid ((controls rid d)\<lparr>rt_requests := butlast (rt_requests (controls rid d)) @ [q\<lparr>dr_approval := Some (opr, at)\<rparr>]\<rparr>) d"
    unfolding approveDeletion_def Let_def by (auto split: if_splits sum.splits option.splits)
  have "approvals_ok ((controls rid d)\<lparr>rt_requests := butlast (rt_requests (controls rid d)) @ [q\<lparr>dr_approval := Some (opr, at)\<rparr>]\<rparr>)"
    if "approvals_ok (controls rid d)"
    using that r(3) by (auto simp: approvals_ok_def list_all_iff dest: in_set_butlastD)
  with r(1) show ?thesis unfolding d' by (rule controls_change)
qed

lemma blockers_after_erase [simp]: "deletionBlockers E (eraseApproved r q at d) r' now = deletionBlockers E d r' now"
proof -
  have 1: "jobs_of (eraseApproved r q at d) k = jobs_of d k" for k by (simp add: jobs_of_def)
  then have 2: "sorted_jobs E (eraseApproved r q at d) k = sorted_jobs E d k" for k by (simp add: sorted_jobs_def)
  have 3: "deletionFingerprint E (eraseApproved r q at d) r' = deletionFingerprint E d r'" by (simp add: deletionFingerprint_def 2)
  have 4: "safetyBlockers (eraseApproved r q at d) r' now = safetyBlockers d r' now" by (simp add: safetyBlockers_def retentionDeadline_def 1)
  show ?thesis unfolding deletionBlockers_def 3 4 by simp
qed

lemma erase_changes: "records_inv d \<Longrightarrow> erase E rid qid at d = Inr (x, d') \<Longrightarrow> changes E d d'"
  using records_invD [of d rid]
  by (auto simp: erase_def Let_def intro!: r_into_rtranclp change_erase split: if_splits option.splits)

lemma purge_loop_changes:
  "purge_loop E now rs d = (n, d') \<Longrightarrow> \<forall>r \<in> set rs. obj_get (vd_records d) (vr_id r) = Some r \<Longrightarrow> distinct (map vr_id rs) \<Longrightarrow> changes E d d'"
proof (induction rs arbitrary: d n)
  case (Cons r rs)
  show ?case
  proof (cases "\<exists>q. last_request (controls (vr_id r) d) = Some q \<and> dr_automatic q \<and> deletionBlockers E d r now = []")
    case True
    then obtain q where q: "last_request (controls (vr_id r) d) = Some q" "dr_automatic q" "deletionBlockers E d r now = []" by blast
    obtain m where m: "purge_loop E now rs (eraseApproved r q now d) = (m, d')"
      using Cons.prems(1) q by (auto split: prod.splits)
    have "changes E d (eraseApproved r q now d)"
      using Cons.prems(2) q by (intro r_into_rtranclp change_erase [where k = "vr_id r"]) simp_all
    moreover have "changes E (eraseApproved r q now d) d'"
    proof (rule Cons.IH [OF m])
      show "\<forall>x \<in> set rs. obj_get (vd_records (eraseApproved r q now d)) (vr_id x) = Some x"
      proof
        fix x assume x: "x \<in> set rs"
        then have "vr_id x \<noteq> vr_id r" using Cons.prems(3) by (force simp: image_iff)
        then show "obj_get (vd_records (eraseApproved r q now d)) (vr_id x) = Some x" using Cons.prems(2) x by (simp add: obj_simps)
      qed
      show "distinct (map vr_id rs)" using Cons.prems(3) by simp
    qed
    ultimately show ?thesis by (rule rtranclp_trans)
  next
    case False
    then have "purge_loop E now rs d = (n, d')" using Cons.prems(1) by (auto split: option.splits if_splits)
    then show ?thesis using Cons.prems(2,3) by (auto intro: Cons.IH)
  qed
qed simp

lemma records_listed:
  assumes "records_inv d"
  shows "\<forall>r \<in> set (map snd (vd_records d)). obj_get (vd_records d) (vr_id r) = Some r" "distinct (map vr_id (map snd (vd_records d)))"
proof -
  have w: "distinct (map fst (vd_records d))" using assms by (simp add: records_inv_def records_good_def obj_wf_def)
  have i: "vr_id r = k" if "(k, r) \<in> set (vd_records d)" for k r
    using that w records_invD [OF assms, of k r] by (simp add: map_of_eq_Some_iff)
  show "\<forall>r \<in> set (map snd (vd_records d)). obj_get (vd_records d) (vr_id r) = Some r" using i w by (auto simp: map_of_eq_Some_iff)
  have "map vr_id (map snd (vd_records d)) = map fst (vd_records d)" using i by (auto intro!: map_cong)
  with w show "distinct (map vr_id (map snd (vd_records d)))" by (simp only:)
qed

lemma purge_changes: "records_inv d \<Longrightarrow> purgeExpired E now d = Inr (x, d') \<Longrightarrow> changes E d d'"
  using purge_loop_changes records_listed by (auto simp: purgeExpired_def split: if_splits)

lemma job_change:
  "obj_get (vault_jobs d) k = Some j \<Longrightarrow> job_amended j j' \<Longrightarrow> changes E d (put_job j' d)"
  by (rule r_into_rtranclp, rule change_job)

lemma observe_changes: "recordRevocationObservation E rid x ob at d = Inr (y, d') \<Longrightarrow> changes E d d'"
  unfolding recordRevocationObservation_def
  by (auto simp: job_amended_def job_ok_def intro!: job_change split: if_splits option.splits sum.splits)

lemma prepare_changes: "prepareRevocation rid tx d = Inr (y, d') \<Longrightarrow> changes E d d'"
  unfolding prepareRevocation_def Let_def
  by (auto simp: job_amended_def job_ok_def intro!: job_change split: if_splits sum.splits)

lemma finish_changes: "finishRevocation rid at d = Inr (y, d') \<Longrightarrow> changes E d d'"
  unfolding finishRevocation_def
  by (auto simp: job_amended_def job_ok_def intro!: job_change split: option.splits sum.splits)

lemma fail_changes: "failRevocation rid err m d = Inr (y, d') \<Longrightarrow> changes E d d'"
  unfolding failRevocation_def Let_def
  by (auto simp: job_amended_def job_ok_def intro!: job_change split: if_splits sum.splits)

lemma queue_records: "queueRevocation r at d = Inr d' \<Longrightarrow> vd_records d' = vd_records d"
  by (auto simp: queueRevocation_def Let_def split: if_splits)

lemma recover_loop_changes:
  "recover_loop now rs d = Inr d' \<Longrightarrow> \<forall>r \<in> set rs. obj_get (vd_records d) (vr_id r) = Some r \<Longrightarrow> changes E d d'"
proof (induction rs arbitrary: d)
  case (Cons r rs)
  show ?case
  proof (cases "legacy_blocked d r")
    case True
    with Cons.prems(1) obtain e where e: "queueRevocation r now d = Inr e" "recover_loop now rs e = Inr d'" by (auto split: sum.splits)
    have "changes E e d'" using Cons.prems(2) queue_records [OF e(1)] by (intro Cons.IH [OF e(2)]) simp
    moreover have "changes E d e" using Cons.prems(2) by (intro queue_changes [OF e(1)]) simp
    ultimately show ?thesis by (meson rtranclp_trans)
  next
    case False
    with Cons show ?thesis by simp
  qed
qed simp

lemma recover_changes: "records_inv d \<Longrightarrow> recoverBlockedRevocations now d = Inr (x, d') \<Longrightarrow> changes E d d'"
  using recover_loop_changes records_listed by (auto simp: recoverBlockedRevocations_def split: sum.splits)

lemma rotation_changes: "record_rotation k d = Inr (x, d') \<Longrightarrow> changes E d d'"
  by (auto simp: record_rotation_def intro!: r_into_rtranclp change_maintenance)

lemmas call_changes = put_changes materialize_changes confirm_source_changes rescreen_changes review_changes extend_changes
  place_hold_changes release_hold_changes request_changes approve_changes erase_changes purge_changes observe_changes recover_changes
  prepare_changes finish_changes fail_changes rotation_changes

lemma run_call_changes:
  assumes "run_call E key c d = Inr d'" "records_inv d"
  shows "changes E d d'"
  using assms by (cases c) (auto simp: forget_Inr dest: call_changes)

lemma vault_step_inv: "vault_step E d d' \<Longrightarrow> vault_inv d \<Longrightarrow> vault_inv d'"
proof (induction rule: vault_step.induct)
  case (vault_stepI key c d d')
  have "changes E d d'" using vault_stepI by (intro run_call_changes) (simp_all add: vault_inv_def)
  then have "vault_inv d'" using vault_stepI.prems by (rule changes_inv)
  then show ?case by (rule change_inv [OF change_revision])
qed

interpretation vault: inductive_invariant "\<lambda>d. d = empty_vault" "vault_step E" vault_inv for E
  by unfold_locales (auto simp: empty_vault_inv intro: vault_step_inv)

section \<open>Erasure\<close>

lemma change_erasures_grow: "vault_change E d d' \<Longrightarrow> set (vd_erasures d) \<subseteq> set (vd_erasures d')"
  by (induction rule: vault_change.induct) auto

lemma changes_erasures_grow: "changes E d d' \<Longrightarrow> set (vd_erasures d) \<subseteq> set (vd_erasures d')"
  by (induction rule: rtranclp_induct) (auto dest: change_erasures_grow)

lemma step_erasures_grow:
  assumes "vault_step E d d'" "vault_inv d"
  shows "set (vd_erasures d) \<subseteq> set (vd_erasures d')"
  using assms by (cases rule: vault_step.cases) (auto simp: vault_inv_def dest!: run_call_changes changes_erasures_grow)

lemma steps_erasures_grow:
  "(vault_step E)\<^sup>*\<^sup>* d d' \<Longrightarrow> vault_inv d \<Longrightarrow> set (vd_erasures d) \<subseteq> set (vd_erasures d') \<and> vault_inv d'"
proof (induction rule: rtranclp_induct)
  case (step y z)
  then show ?case using step_erasures_grow [of E y z] vault_step_inv [of E y z] by blast
qed simp

lemma erased_record_facts:
  assumes "vault_reachable E d" "(vault_step E)\<^sup>*\<^sup>* d d'" "e \<in> set (vd_erasures d)"
  shows "e \<in> set (vd_erasures d')" "vault_get (er_recordId e) d' = None" "justified (controls (er_recordId e) d') e"
    "\<forall>j \<in> set (listPendingRevocations d'). rj_recordId j \<noteq> er_recordId e"
proof -
  have "vault_inv d" using assms(1) by (rule vault.reachable_inv)
  with assms(2) have i: "set (vd_erasures d) \<subseteq> set (vd_erasures d')" "vault_inv d'" by (simp_all add: steps_erasures_grow)
  then show e: "e \<in> set (vd_erasures d')" using assms(3) by auto
  show "vault_get (er_recordId e) d' = None" "justified (controls (er_recordId e) d') e"
    using e i(2) by (simp_all add: vault_get_def vault_inv_def erasures_inv_def)
  have "obj_wf (vault_jobs d')" using i(2) by (simp add: vault_inv_def jobs_inv_def)
  then show "\<forall>j \<in> set (listPendingRevocations d'). rj_recordId j \<noteq> er_recordId e"
    using e i(2) by (fastforce simp: listPendingRevocations_def vault_inv_def erasures_inv_def open_job_def obj_wf_def map_of_eq_Some_iff)
qed

text \<open>C4. 
  Erasure is final and accounted for. Whatever calls follow, the tombstone of an erased record
  stays, the record does not come back, all its legal holds were released, the extended deadline
  had passed, no revocation of it is open, and a deletion request on file, with the reason the
  tombstone names, was approved by an operator other than the one who made it.
\<close>
theorem erasure_is_final_and_justified:
  assumes "vault_reachable E d" "(vault_step E)\<^sup>*\<^sup>* d d'" "e \<in> set (vd_erasures d)"
  shows "e \<in> set (vd_erasures d') \<and> vault_get (er_recordId e) d' = None \<and> justified (controls (er_recordId e) d') e
    \<and> (\<forall>j \<in> set (listPendingRevocations d'). rj_recordId j \<noteq> er_recordId e)"
  using erased_record_facts [OF assms] by blast

text \<open>Which calls can make a record disappear.\<close>

lemma after_decision_keeps: "after_decision b r at d = Inr (x, d') \<Longrightarrow> obj_get (vd_records d') k = None \<Longrightarrow> obj_get (vd_records d) k = None"
  by (auto simp: after_decision_def obj_simps split: if_splits sum.splits dest!: queue_records)

lemma recover_records: "recover_loop now rs d = Inr d' \<Longrightarrow> vd_records d' = vd_records d"
  by (induction rs arbitrary: d) (auto split: if_splits sum.splits dest: queue_records)

lemma keeps_records:
  "vault_put r d = Inr (x1, d') \<Longrightarrow> obj_get (vd_records d') k = None \<Longrightarrow> obj_get (vd_records d) k = None"
  "recordMaterialization rid h d = Inr (x2, d') \<Longrightarrow> obj_get (vd_records d') k = None \<Longrightarrow> obj_get (vd_records d) k = None"
  "recordSourceConfirmation rid h obs d = Inr (x2, d') \<Longrightarrow> obj_get (vd_records d') k = None \<Longrightarrow> obj_get (vd_records d) k = None"
  "recordRescreen rid ev expd d = Inr (x1, d') \<Longrightarrow> obj_get (vd_records d') k = None \<Longrightarrow> obj_get (vd_records d) k = None"
  "decideReview E key rid rvw expr d = Inr (x1, d') \<Longrightarrow> obj_get (vd_records d') k = None \<Longrightarrow> obj_get (vd_records d) k = None"
  by (auto simp: vault_put_def recordMaterialization_def recordSourceConfirmation_def recordRescreen_def decideReview_def Let_def obj_simps
      elim: after_decision_keeps split: if_splits option.splits sum.splits)

lemma same_records:
  "extendRetention rid u opr ref at d = Inr (x2, d') \<Longrightarrow> vd_records d' = vd_records d"
  "placeHold rid h opr ref at d = Inr (x2, d') \<Longrightarrow> vd_records d' = vd_records d"
  "releaseHold rid h opr ref at d = Inr (x2, d') \<Longrightarrow> vd_records d' = vd_records d"
  "requestDeletion E n rid q at d = Inr (x3, d') \<Longrightarrow> vd_records d' = vd_records d"
  "approveDeletion E rid qid opr at d = Inr (x2, d') \<Longrightarrow> vd_records d' = vd_records d"
  "recordRevocationObservation E rid j ob at d = Inr (x2, d') \<Longrightarrow> vd_records d' = vd_records d"
  "recoverBlockedRevocations at d = Inr (x2, d') \<Longrightarrow> vd_records d' = vd_records d"
  "prepareRevocation rid tx d = Inr (x4, d') \<Longrightarrow> vd_records d' = vd_records d"
  "finishRevocation rid at d = Inr (x2, d') \<Longrightarrow> vd_records d' = vd_records d"
  "failRevocation rid err m d = Inr (x2, d') \<Longrightarrow> vd_records d' = vd_records d"
  "record_rotation kr d = Inr (x2, d') \<Longrightarrow> vd_records d' = vd_records d"
  unfolding extendRetention_def placeHold_def releaseHold_def requestDeletion_def approveDeletion_def recordRevocationObservation_def
    recoverBlockedRevocations_def prepareRevocation_def finishRevocation_def failRevocation_def record_rotation_def Let_def
  by (auto split: if_splits option.splits sum.splits dest: recover_records)

text \<open>A record may be deleted: the conditions at the time of the deletion.\<close>

definition deletable :: "vault_env \<Rightarrow> vault_data \<Rightarrow> vault_record \<Rightarrow> int \<Rightarrow> bool" where
  "deletable E d r now \<longleftrightarrow>
     retentionDeadline d r \<le> now
     \<and> (\<forall>h \<in> set (rt_holds (controls (vr_id r) d)). lh_release h \<noteq> None)
     \<and> (vr_state r = VActive \<or> vr_state r = VRejected
        \<or> vr_state r = VBlocked \<and> (\<exists>j \<in> set (jobs_of d (vr_id r)). rj_state j = RevConfirmed))
     \<and> (\<forall>j \<in> set (jobs_of d (vr_id r)). rj_state j = RevConfirmed)
     \<and> (\<exists>q who at. last_request (controls (vr_id r) d) = Some q \<and> dr_approval q = Some (who, at) \<and> who \<noteq> dr_operator q
          \<and> dr_requestedAt q \<le> at \<and> at \<le> now \<and> dr_fingerprint q = deletionFingerprint E d r)"

lemma no_blockers_deletable:
  assumes "controls_inv d" "last_request (controls (vr_id r) d) = Some q" "deletionBlockers E d r now = []"
  shows "deletable E d r now"
proof -
  note b = no_deletion_blockers [OF assms(3,2)]
  note sb = no_safety_blockers [OF b(1)]
  from b(3) obtain who at where a: "dr_approval q = Some (who, at)" "dr_requestedAt q \<le> at" "at \<le> now" by auto
  have w: "who \<noteq> dr_operator q"
    using assms(1) last_request_in [OF assms(2)] a(1) by (auto simp: controls_inv_def approvals_ok_def list_all_iff split: option.splits)
  have j: "\<forall>j \<in> set (jobs_of d (vr_id r)). rj_state j = RevConfirmed" using sb(5) by (auto simp: list_ex_iff open_job_def)
  show ?thesis unfolding deletable_def using sb(1,3,4,6) j a w b(2) assms(2) by blast
qed

lemma purge_loop_removes:
  "purge_loop E now rs d = (n, d') \<Longrightarrow> obj_get (vd_records d) k = Some r \<Longrightarrow> obj_get (vd_records d') k = None
     \<Longrightarrow> \<exists>r' \<in> set rs. vr_id r' = k \<and> (\<exists>q. last_request (controls k d) = Some q) \<and> deletionBlockers E d r' now = []"
proof (induction rs arbitrary: d n)
  case (Cons s rs)
  show ?case
  proof (cases "\<exists>q. last_request (controls (vr_id s) d) = Some q \<and> dr_automatic q \<and> deletionBlockers E d s now = []")
    case True
    then obtain q where q: "last_request (controls (vr_id s) d) = Some q" "dr_automatic q" "deletionBlockers E d s now = []" by blast
    show ?thesis
    proof (cases "vr_id s = k")
      case False
      obtain m where m: "purge_loop E now rs (eraseApproved s q now d) = (m, d')"
        using Cons.prems(1) q by (auto split: prod.splits)
      have "obj_get (vd_records (eraseApproved s q now d)) k = Some r" using False Cons.prems(2) by (simp add: obj_simps)
      from Cons.IH [OF m this Cons.prems(3)] show ?thesis by auto
    qed (use q in auto)
  next
    case False
    then have "purge_loop E now rs d = (n, d')" using Cons.prems(1) by (auto split: option.splits if_splits)
    from Cons.IH [OF this Cons.prems(2,3)] show ?thesis by auto
  qed
qed simp

lemma purge_removes:
  assumes "purgeExpired E now d = Inr (n, d')" "vault_inv d" "obj_get (vd_records d) k = Some r" "obj_get (vd_records d') k = None"
  shows "deletable E d r now"
proof -
  have i: "records_inv d" "controls_inv d" using assms(2) by (simp_all add: vault_inv_def)
  have "purge_loop E now (map snd (vd_records d)) d = (n, d')" using assms(1) by (simp add: purgeExpired_def split: if_splits)
  from purge_loop_removes [OF this assms(3,4)] obtain s q where s: "s \<in> set (map snd (vd_records d))" "vr_id s = k"
    "last_request (controls k d) = Some q" "deletionBlockers E d s now = []" by blast
  with records_listed(1) [OF i(1)] assms(3) have "s = r" by force
  with s no_blockers_deletable [OF i(2)] show ?thesis by auto
qed

text \<open>C2. 
  The only calls that remove a record are \<^verbatim>\<open>erase\<close> and \<^verbatim>\<open>purgeExpired\<close>, and they remove it only
  when its extended retention has passed, no hold is active, its state is settled, every
  revocation of it is confirmed (and one exists for a blocked record), and the current deletion
  request was approved by somebody else for exactly the present content of the case.
\<close>
theorem records_disappear_only_when_deletable:
  assumes "vault_reachable E d" "run_call E key c d = Inr d'" "vault_get k d = Some r" "vault_get k d' = None"
  shows "\<exists>now. deletable E d r now \<and> ((\<exists>q. c = DoErase k q now) \<or> c = DoPurge now)"
proof -
  have i: "vault_inv d" "records_inv d" "controls_inv d" using vault.reachable_inv [OF assms(1)] by (simp_all add: vault_inv_def)
  have r: "obj_get (vd_records d) k = Some r" "obj_get (vd_records d') k = None" using assms(3,4) by (simp_all add: vault_get_def)
  show ?thesis
  proof (cases c)
    case (DoErase rid qid at)
    with assms(2) have "forget (erase E rid qid at d) = Inr d'" by simp
    with r obtain s q where e: "obj_get (vd_records d) rid = Some s" "last_request (controls rid d) = Some q"
      "deletionBlockers E d s at = []" "d' = eraseApproved s q at d"
      by (auto simp: forget_Inr erase_def Let_def split: if_splits option.splits)
    have s: "vr_id s = rid" using records_invD [OF i(2) e(1)] by simp
    have "rid = k" using r s unfolding e(4) by (simp add: obj_simps split: if_splits)
    then show ?thesis using DoErase no_blockers_deletable [OF i(3), of s q E at] s e r by auto
  next
    case (DoPurge now)
    with assms(2) obtain n where "purgeExpired E now d = Inr (n, d')" by (auto simp: forget_Inr)
    from purge_removes [OF this i(1) r] DoPurge show ?thesis by auto
  qed (use assms(2) r in \<open>auto simp: forget_Inr dest: keeps_records dest!: same_records\<close>)
qed

section \<open>The outbox keeps what was signed\<close>

text \<open>What a call may do to a job that has a signed transaction.\<close>

definition same_signature :: "revocation_job \<Rightarrow> revocation_job \<Rightarrow> bool" where
  "same_signature j j' \<longleftrightarrow> rj_recordId j' = rj_recordId j \<and> rj_walletAddress j' = rj_walletAddress j
     \<and> map_option rt_hash (rj_transaction j') = map_option rt_hash (rj_transaction j)
     \<and> (rj_state j = RevConfirmed \<longrightarrow> rj_state j' = RevConfirmed)"

definition keeps_signature :: "string \<Rightarrow> vault_data \<Rightarrow> vault_data \<Rightarrow> bool" where
  "keeps_signature k d d' \<longleftrightarrow> (\<forall>j. obj_get (vault_jobs d) k = Some j \<longrightarrow> rj_transaction j \<noteq> None
     \<longrightarrow> (\<exists>j'. obj_get (vault_jobs d') k = Some j' \<and> same_signature j j'))"

lemma same_signature_refl [simp]: "same_signature j j"
  by (simp add: same_signature_def)

lemma keeps_same: "vault_jobs d' = vault_jobs d \<Longrightarrow> keeps_signature k d d'"
  by (simp add: keeps_signature_def)

lemma keeps_trans: "keeps_signature k d d' \<Longrightarrow> keeps_signature k d' d'' \<Longrightarrow> keeps_signature k d d''"
  unfolding keeps_signature_def same_signature_def by (metis option.map_disc_iff)

lemma queue_keeps: "queueRevocation r at d = Inr d' \<Longrightarrow> keeps_signature k d d'"
  by (auto simp: queueRevocation_def Let_def keeps_signature_def obj_simps split: if_splits)

lemma recover_keeps: "recover_loop now rs d = Inr d' \<Longrightarrow> keeps_signature k d d'"
proof (induction rs arbitrary: d)
  case (Cons r rs)
  then show ?case by (auto split: if_splits sum.splits intro: keeps_trans queue_keeps)
qed (simp add: keeps_same)

lemma after_decision_signature: "after_decision b r at d = Inr (x, d') \<Longrightarrow> keeps_signature k d d'"
  using keeps_trans [of k d "put_record r d" d'] keeps_same [of "put_record r d" d k]
  by (auto simp: after_decision_def split: if_splits sum.splits dest: queue_keeps [of _ _ _ _ k])

lemma signature_kept:
  "recordRescreen rid ev expd d = Inr (x1, d') \<Longrightarrow> keeps_signature k d d'"
  "decideReview E key rid rvw expr d = Inr (x1, d') \<Longrightarrow> keeps_signature k d d'"
  "recoverBlockedRevocations at d = Inr (x2, d') \<Longrightarrow> keeps_signature k d d'"
  unfolding recordRescreen_def decideReview_def recoverBlockedRevocations_def
  by (auto elim: after_decision_signature recover_keeps split: if_splits option.splits sum.splits)

lemma purge_loop_jobs: "purge_loop E now rs d = (n, d') \<Longrightarrow> vault_jobs d' = vault_jobs d"
  by (induction rs arbitrary: d n) (auto split: if_splits option.splits prod.splits)

lemma same_jobs:
  "vault_put r d = Inr (x1, d') \<Longrightarrow> vault_jobs d' = vault_jobs d"
  "recordMaterialization rid h d = Inr (x2, d') \<Longrightarrow> vault_jobs d' = vault_jobs d"
  "recordSourceConfirmation rid h obs d = Inr (x2, d') \<Longrightarrow> vault_jobs d' = vault_jobs d"
  "extendRetention rid u opr ref at d = Inr (x2, d') \<Longrightarrow> vault_jobs d' = vault_jobs d"
  "placeHold rid h opr ref at d = Inr (x2, d') \<Longrightarrow> vault_jobs d' = vault_jobs d"
  "releaseHold rid h opr ref at d = Inr (x2, d') \<Longrightarrow> vault_jobs d' = vault_jobs d"
  "requestDeletion E n rid q at d = Inr (x3, d') \<Longrightarrow> vault_jobs d' = vault_jobs d"
  "approveDeletion E rid qid opr at d = Inr (x2, d') \<Longrightarrow> vault_jobs d' = vault_jobs d"
  "erase E rid qid at d = Inr (x5, d') \<Longrightarrow> vault_jobs d' = vault_jobs d"
  "purgeExpired E at d = Inr (x6, d') \<Longrightarrow> vault_jobs d' = vault_jobs d"
  "record_rotation kr d = Inr (x2, d') \<Longrightarrow> vault_jobs d' = vault_jobs d"
  unfolding vault_put_def recordMaterialization_def recordSourceConfirmation_def extendRetention_def placeHold_def releaseHold_def
    requestDeletion_def approveDeletion_def erase_def purgeExpired_def record_rotation_def Let_def
  by (auto split: if_splits option.splits sum.splits dest: purge_loop_jobs)

lemma jobs_invD: "jobs_inv d \<Longrightarrow> obj_get (vault_jobs d) k = Some j \<Longrightarrow> rj_id j = k \<and> job_ok j"
  by (simp add: jobs_inv_def)

lemma put_job_keeps:
  assumes "jobs_inv d" "obj_get (vault_jobs d) i = Some j" "rj_id j' = rj_id j" "rj_transaction j \<noteq> None \<Longrightarrow> i = k \<Longrightarrow> same_signature j j'"
  shows "keeps_signature k d (put_job j' d)"
  using assms(2-) jobs_invD [OF assms(1,2)] by (auto simp: keeps_signature_def obj_simps)

lemma job_signature_kept:
  assumes "jobs_inv d"
  shows "recordRevocationObservation E rid x ob at d = Inr (x2, d') \<Longrightarrow> keeps_signature k d d'"
    "prepareRevocation rid tx d = Inr (x4, d') \<Longrightarrow> keeps_signature k d d'"
    "finishRevocation rid at d = Inr (x2, d') \<Longrightarrow> keeps_signature k d d'"
    "failRevocation rid err m d = Inr (x2, d') \<Longrightarrow> \<not> (m \<and> rid = k) \<Longrightarrow> keeps_signature k d d'"
  unfolding recordRevocationObservation_def prepareRevocation_def finishRevocation_def failRevocation_def Let_def
  by (auto simp: keeps_same same_signature_def intro!: put_job_keeps [OF assms] split: if_splits option.splits sum.splits)

lemma confirmed_cannot_fail: "getRevocation k d = Some j \<Longrightarrow> rj_state j = RevConfirmed \<Longrightarrow> isl (failRevocation k err m d)"
  by (simp add: failRevocation_def mustGetJob_def getRevocation_def)

text \<open>C7. 
  A signed revocation is never lost or replaced, and confirmation is final. Once a job has a signed
  transaction, every call except the report of a mined revert of that very job, while it is not
  confirmed, leaves the job in place with a transaction of the same hash, for the same record and
  wallet. No call that succeeds, that report included, takes a confirmed job out of its state.
\<close>
theorem signed_revocation_is_kept:
  assumes "vault_reachable E d" "run_call E key c d = Inr d'" "getRevocation k d = Some j" "rj_transaction j = Some tx"
    and "(\<exists>err. c = DoFail k err True) \<Longrightarrow> rj_state j = RevConfirmed"
  shows "\<exists>j' tx'. getRevocation k d' = Some j' \<and> rj_transaction j' = Some tx' \<and> rt_hash tx' = rt_hash tx
    \<and> rj_recordId j' = rj_recordId j \<and> rj_walletAddress j' = rj_walletAddress j
    \<and> (rj_state j = RevConfirmed \<longrightarrow> rj_state j' = RevConfirmed)"
proof -
  have i: "jobs_inv d" using vault.reachable_inv [OF assms(1)] by (simp add: vault_inv_def)
  have n: "c \<noteq> DoFail k err True" for err
    using assms(2,5) confirmed_cannot_fail [OF assms(3), of err True] by (auto simp: forget_def split: sum.splits)
  have "keeps_signature k d d'"
    using assms(2) n by (cases c) (auto simp: forget_Inr dest: signature_kept job_signature_kept [OF i] keeps_same [OF same_jobs(1)]
      keeps_same [OF same_jobs(2)] keeps_same [OF same_jobs(3)] keeps_same [OF same_jobs(4)] keeps_same [OF same_jobs(5)]
      keeps_same [OF same_jobs(6)] keeps_same [OF same_jobs(7)] keeps_same [OF same_jobs(8)] keeps_same [OF same_jobs(9)]
      keeps_same [OF same_jobs(10)] keeps_same [OF same_jobs(11)])
  with assms(3,4) obtain j' where "obj_get (vault_jobs d') k = Some j'" "same_signature j j'"
    by (auto simp: keeps_signature_def getRevocation_def)
  then show ?thesis using assms(4) by (auto simp: same_signature_def getRevocation_def)
qed

lemma after_blocking:
  assumes "after_decision True r' at d = Inr (r, d')"
  shows "r = r'" "obj_get (vd_records d') (vr_id r') = Some r'" "\<exists>j \<in> set (listPendingRevocations d'). rj_recordId j = vr_id r'"
proof -
  from assms have q: "queueRevocation r' at (put_record r' d) = Inr d'" "r = r'" by (auto simp: after_decision_def split: sum.splits)
  then show "r = r'" "obj_get (vd_records d') (vr_id r') = Some r'" using queue_records [OF q(1)] by (simp_all add: obj_simps)
  show "\<exists>j \<in> set (listPendingRevocations d'). rj_recordId j = vr_id r'"
  proof (cases "\<exists>j. j \<in> set (jobs_of d (vr_id r')) \<and> rj_state j \<noteq> RevConfirmed")
    case True
    then have "vault_jobs d' = vault_jobs d" using q(1) by (auto simp: queueRevocation_def Let_def list_ex_iff jobs_of_def split: if_splits)
    with True show ?thesis by (auto simp: listPendingRevocations_def jobs_of_def)
  next
    case False
    then have "vault_jobs d' = obj_put (rj_id (queued_job r' at)) (queued_job r' at) (vault_jobs d)"
      using q(1) by (auto simp: queueRevocation_def Let_def list_ex_iff jobs_of_def split: if_splits)
    then have "obj_get (vault_jobs d') (rj_id (queued_job r' at)) = Some (queued_job r' at)" by (simp add: obj_simps)
    then have "queued_job r' at \<in> set (map snd (vault_jobs d'))" by (force dest: map_of_SomeD)
    then show ?thesis by (force simp: listPendingRevocations_def queued_job_def)
  qed
qed

text \<open>C32. 
  A decision is recorded only against the case that was reviewed. If a review made from a
  snapshot is accepted later, the record, its revocation jobs and its retention controls are
  still those of the snapshot, unless the digest collides on the two cases; and a rescreening
  result is accepted only for the very record that was screened.
\<close>
theorem stale_decisions_are_refused:
  assumes "reviewSnapshot E key rid d1 = Inr (revision, r)"
  shows "(decideReview E key rid ev revision d2 = Inr (r', d') \<longrightarrow>
        (\<exists>s. vault_get rid d2 = Some s
          \<and> (s = r \<and> review_basis E d2 s = review_basis E d1 r
            \<or> review_basis E d2 s \<noteq> review_basis E d1 r
               \<and> ve_reviewDigest E key (review_basis E d2 s) = ve_reviewDigest E key (review_basis E d1 r))))
    \<and> (recordRescreen rid sv expected d2 = Inr (r'', d'') \<longrightarrow> vault_get rid d2 = Some expected \<and> vr_id expected = rid)"
proof (intro conjI impI)
  assume "decideReview E key rid ev revision d2 = Inr (r', d')"
  then obtain s where s: "vault_get rid d2 = Some s" "reviewRevision E key d2 s = revision"
    by (auto simp: decideReview_def vault_get_def split: if_splits option.splits)
  have "s = r" if "review_basis E d2 s = review_basis E d1 r" using that by (simp add: review_basis_def)
  moreover have "revision = reviewRevision E key d1 r"
    using assms by (simp add: reviewSnapshot_def split: option.splits)
  ultimately show "\<exists>s. vault_get rid d2 = Some s
          \<and> (s = r \<and> review_basis E d2 s = review_basis E d1 r
            \<or> review_basis E d2 s \<noteq> review_basis E d1 r
               \<and> ve_reviewDigest E key (review_basis E d2 s) = ve_reviewDigest E key (review_basis E d1 r))"
    using s unfolding reviewRevision_def by metis
next
  assume "recordRescreen rid sv expected d2 = Inr (r'', d'')"
  then show "vault_get rid d2 = Some expected" "vr_id expected = rid"
    by (auto simp: recordRescreen_def vault_get_def split: if_splits option.splits)
qed

lemma blocking_facts:
  assumes "vault_reachable E d"
  shows "recordRescreen rid ev expected d = Inr (r, d') \<Longrightarrow> rs_decision ev = ''BLOCK'' \<Longrightarrow>
      vr_state r = VBlocked \<and> vault_get rid d' = Some r \<and> (\<exists>j \<in> set (listPendingRevocations d'). rj_recordId j = rid)"
    "decideReview E key rid rvw x d = Inr (r, d') \<Longrightarrow> rw_outcome rvw = ''blocked'' \<Longrightarrow>
      vr_state r = VBlocked \<and> vault_get rid d' = Some r \<and> (\<exists>j \<in> set (listPendingRevocations d'). rj_recordId j = rid)"
proof -
  have i: "records_inv d" using vault.reachable_inv [OF assms] by (simp add: vault_inv_def)
  show "vr_state r = VBlocked \<and> vault_get rid d' = Some r \<and> (\<exists>j \<in> set (listPendingRevocations d'). rj_recordId j = rid)"
    if "recordRescreen rid ev expected d = Inr (r, d')" "rs_decision ev = ''BLOCK''"
  proof -
    from that obtain s r' where s: "obj_get (vd_records d) rid = Some s" "after_decision True r' (rs_at ev) d = Inr (r, d')"
      "vr_id r' = vr_id s" "vr_state r' = VBlocked"
      by (auto simp: recordRescreen_def split: if_splits option.splits)
    from after_blocking [OF s(2)] s records_invD [OF i s(1)] show ?thesis by (auto simp: vault_get_def)
  qed
  show "vr_state r = VBlocked \<and> vault_get rid d' = Some r \<and> (\<exists>j \<in> set (listPendingRevocations d'). rj_recordId j = rid)"
    if "decideReview E key rid rvw x d = Inr (r, d')" "rw_outcome rvw = ''blocked''"
  proof -
    from that obtain s r' where s: "obj_get (vd_records d) rid = Some s" "after_decision True r' (rw_at rvw) d = Inr (r, d')"
      "vr_id r' = vr_id s" "vr_state r' = VBlocked"
      by (auto simp: decideReview_def split: if_splits option.splits)
    from after_blocking [OF s(2)] s records_invD [OF i s(1)] show ?thesis by (auto simp: vault_get_def)
  qed
qed

text \<open>
  A blocking decision and its revocation are one write: after a rescreening or a review that
  blocks, the record is blocked and the outbox holds an open revocation of it.
\<close>
theorem blocking_queues_a_revocation:
  assumes "vault_reachable E d"
  shows "(recordRescreen rid ev expected d = Inr (r, d') \<and> rs_decision ev = ''BLOCK''
       \<or> decideReview E key rid rvw x d = Inr (r, d') \<and> rw_outcome rvw = ''blocked'') \<longrightarrow>
      vr_state r = VBlocked \<and> vault_get rid d' = Some r \<and> (\<exists>j \<in> set (listPendingRevocations d'). rj_recordId j = rid)"
  using blocking_facts [OF assms] by blast

section \<open>An example\<close>

text \<open>A record is stored and becomes active, its deletion is requested and approved, and it is erased after its deadline.\<close>

definition sample_env :: vault_env where
  "sample_env = \<lparr>ve_isAddress = is_hex 40, ve_collate = (\<lambda>s. s), ve_deletionDigest = (\<lambda>x. ''d''),
     ve_reviewDigest = (\<lambda>k x. replicate 64 CHR ''a'')\<rparr>"

definition sample_record :: vault_record where
  "sample_record = \<lparr>vr_id = ''r'', vr_walletAddress = ''w'', vr_consentVersion = ''1'', vr_processingPolicy = None, vr_retentionPolicy = None,
     vr_screeningSubject = \<lparr>ss_fullName = ''n'', ss_romanizedName = None, ss_dateOfBirth = [], ss_nationality = [], ss_residence = [], ss_walletAddress = ''w''\<rparr>,
     vr_evidenceHash = ''e'', vr_evidence = JNull, vr_attrs = None, vr_claimsRoot = None, vr_claims = None, vr_state = VPending,
     vr_createdAt = 10, vr_retentionUntil = 20, vr_lastScreenedAt = None, vr_rescreens = [], vr_reviews = [], vr_sourceIssuance = None\<rparr>"

definition sample_request :: deletion_request where
  "sample_request = \<lparr>dr_id = [], dr_fingerprint = [], dr_requestedAt = 0, dr_operator = ''a'', dr_policyRef = ''p'', dr_serviceRef = ''s'',
     dr_disposition = ''unchanged'', dr_automatic = True, dr_approval = None\<rparr>"

fun run_calls :: "vault_env \<Rightarrow> string \<Rightarrow> vault_call list \<Rightarrow> vault_data \<Rightarrow> vault_data option" where
  "run_calls E key [] d = Some d"
| "run_calls E key (c # cs) d = (case run_call E key c d of Inl e \<Rightarrow> None | Inr d' \<Rightarrow> run_calls E key cs (next_revision d'))"

lemma run_calls_reachable: "run_calls E key cs d = Some d' \<Longrightarrow> vault_reachable E d \<Longrightarrow> vault_reachable E d'"
proof (induction cs arbitrary: d)
  case (Cons c cs)
  then obtain d1 where d1: "run_call E key c d = Inr d1" "run_calls E key cs (next_revision d1) = Some d'" by (auto split: sum.splits)
  from reachable.reachable_step [OF Cons.prems(2) vault_stepI [OF d1(1)]] show ?case by (rule Cons.IH [OF d1(2)])
qed simp

lemma empty_reachable: "vault_reachable E empty_vault"
  by (rule reachable.reachable_init) simp

definition sample_stored :: "vault_call list" where
  "sample_stored = [DoPut sample_record, DoMaterialize ''r'' ''e'']"

definition sample_approved :: "vault_call list" where
  "sample_approved = sample_stored @ [DoRequest ''q'' ''r'' sample_request 15, DoApprove ''r'' ''q'' ''b'' 16]"

definition sample_erased :: "vault_call list" where
  "sample_erased = sample_approved @ [DoErase ''r'' ''q'' 30]"

definition sample_blocked :: "vault_call list" where
  "sample_blocked = sample_stored @ [DoReview ''r'' \<lparr>rw_at = 17, rw_operator = ''a'', rw_outcome = ''blocked'', rw_reason = ''x'', rw_basedOn = None\<rparr> (replicate 64 CHR ''a''),
     DoPrepare ''r:revoke:17'' \<lparr>rt_hash = ''h'', rt_raw = ''t'', rt_chainId = 1, rt_source = ''s''\<rparr>]"

definition sample_vault :: "vault_call list \<Rightarrow> vault_data" where
  "sample_vault cs = (case run_calls sample_env ''k'' cs empty_vault of Some d \<Rightarrow> d | None \<Rightarrow> empty_vault)"

lemma sample_vault_reachable: "vault_reachable sample_env (sample_vault cs)"
  unfolding sample_vault_def by (auto split: option.splits intro: run_calls_reachable empty_reachable)

theorem erasure_is_final_and_justified_witness:
  "justified (controls ''r'' (sample_vault sample_erased)) (hd (vd_erasures (sample_vault sample_erased)))
    \<and> vault_get ''r'' (sample_vault sample_erased) = None"
proof -
  have e: "hd (vd_erasures (sample_vault sample_erased)) \<in> set (vd_erasures (sample_vault sample_erased))"
    "er_recordId (hd (vd_erasures (sample_vault sample_erased))) = ''r''" by code_simp+
  from erasure_is_final_and_justified [OF sample_vault_reachable rtranclp.rtrancl_refl e(1)] show ?thesis unfolding e(2) by simp
qed

theorem records_disappear_only_when_deletable_witness:
  "\<exists>now r. vault_get ''r'' (sample_vault sample_approved) = Some r \<and> deletable sample_env (sample_vault sample_approved) r now"
proof -
  let ?c = "DoErase ''r'' ''q'' 30" and ?d = "sample_vault sample_approved"
  have "\<not> isl (run_call sample_env ''k'' ?c ?d) \<and> vault_get ''r'' ?d \<noteq> None \<and> vault_get ''r'' (projr (run_call sample_env ''k'' ?c ?d)) = None"
    by code_simp
  then obtain r where r: "run_call sample_env ''k'' ?c ?d = Inr (projr (run_call sample_env ''k'' ?c ?d))" "vault_get ''r'' ?d = Some r"
    "vault_get ''r'' (projr (run_call sample_env ''k'' ?c ?d)) = None" by auto
  from records_disappear_only_when_deletable [OF sample_vault_reachable r] r(2) show ?thesis by blast
qed

theorem signed_revocation_is_kept_witness:
  "\<exists>d' j'. run_call sample_env ''k'' (DoFinish ''r:revoke:17'' 40) (sample_vault sample_blocked) = Inr d'
    \<and> getRevocation ''r:revoke:17'' d' = Some j' \<and> map_option rt_hash (rj_transaction j') = Some ''h''"
proof -
  let ?c = "DoFinish ''r:revoke:17'' 40" and ?d = "sample_vault sample_blocked"
  have "\<not> isl (run_call sample_env ''k'' ?c ?d)
      \<and> map_option (\<lambda>j. map_option rt_hash (rj_transaction j)) (getRevocation ''r:revoke:17'' ?d) = Some (Some ''h'')"
    by code_simp
  then obtain j tx where r: "run_call sample_env ''k'' ?c ?d = Inr (projr (run_call sample_env ''k'' ?c ?d))"
    "getRevocation ''r:revoke:17'' ?d = Some j" "rj_transaction j = Some tx" "rt_hash tx = ''h''" by auto
  have "rj_state j = RevConfirmed" if "\<exists>err. ?c = DoFail ''r:revoke:17'' err True" using that by simp
  from signed_revocation_is_kept [OF sample_vault_reachable r(1-3) this] r show ?thesis by (metis option.map(2))
qed

theorem stale_decisions_are_refused_witness:
  "\<exists>rv r r' d'. reviewSnapshot sample_env ''k'' ''r'' (sample_vault sample_stored) = Inr (rv, r)
    \<and> decideReview sample_env ''k'' ''r'' \<lparr>rw_at = 17, rw_operator = ''a'', rw_outcome = ''cleared'', rw_reason = ''x'', rw_basedOn = None\<rparr> rv
        (sample_vault sample_stored) = Inr (r', d')
    \<and> vault_get ''r'' (sample_vault sample_stored) \<noteq> None"
proof -
  let ?d = "sample_vault sample_stored"
    and ?ev = "\<lparr>rw_at = 17, rw_operator = ''a'', rw_outcome = ''cleared'', rw_reason = ''x'', rw_basedOn = None\<rparr>"
  have "\<not> isl (reviewSnapshot sample_env ''k'' ''r'' ?d)
      \<and> \<not> isl (decideReview sample_env ''k'' ''r'' ?ev (fst (projr (reviewSnapshot sample_env ''k'' ''r'' ?d))) ?d)"
    by code_simp
  then obtain rv r r' d' where r: "reviewSnapshot sample_env ''k'' ''r'' ?d = Inr (rv, r)" "decideReview sample_env ''k'' ''r'' ?ev rv ?d = Inr (r', d')"
    by (metis fst_conv isl_def sum.collapse(2) sum.sel(2) surj_pair)
  from stale_decisions_are_refused [OF r(1)] r show ?thesis by blast
qed

theorem blocking_queues_a_revocation_witness:
  "\<exists>r d'. decideReview sample_env ''k'' ''r'' \<lparr>rw_at = 17, rw_operator = ''a'', rw_outcome = ''blocked'', rw_reason = ''x'', rw_basedOn = None\<rparr>
        (replicate 64 CHR ''a'') (sample_vault sample_stored) = Inr (r, d')
    \<and> (\<exists>j \<in> set (listPendingRevocations d'). rj_recordId j = ''r'')"
proof -
  let ?d = "sample_vault sample_stored"
    and ?ev = "\<lparr>rw_at = 17, rw_operator = ''a'', rw_outcome = ''blocked'', rw_reason = ''x'', rw_basedOn = None\<rparr>"
  have "\<not> isl (decideReview sample_env ''k'' ''r'' ?ev (replicate 64 CHR ''a'') ?d)" by code_simp
  then obtain r d' where r: "decideReview sample_env ''k'' ''r'' ?ev (replicate 64 CHR ''a'') ?d = Inr (r, d')"
    by (metis isl_def sum.collapse(2) surj_pair)
  have "decideReview sample_env ''k'' ''r'' ?ev (replicate 64 CHR ''a'') ?d = Inr (r, d') \<and> rw_outcome ?ev = ''blocked''" using r by simp
  then show ?thesis using blocking_queues_a_revocation [OF sample_vault_reachable] r by metis
qed

end
