(* ===== verification/Issuance_Journal.thy ===== *)
theory Issuance_Journal
  imports Evidence Vault
begin

text \<open>
  The journal of issuances, \<^verbatim>\<open>pipeline/issuance-journal.ts\<close>: the entry of a request, the script that
  runs atomically in Redis with its signer gates, leases and deadlines, and the client. The script
  runs on the time of Redis; a request to it may be lost before or after it ran.

  The encryption of the payload and the digest that names a signer are parameters.
\<close>

section \<open>Entries\<close>

record issued_credential =
  ic_attrs :: string
  ic_claimsRoot :: string
  ic_evidenceHash :: string
  ic_methods :: int
  ic_methodNames :: "string list"
  ic_expiry :: int
  ic_regime :: int
  ic_claims :: "claim list"
  ic_evidence :: json
  ic_screeningSnapshotId :: "string option"

datatype issue_outcome =
    Issued issued_credential
  | NotIssued string string string json  \<comment> \<open>status, reason, evidence hash, evidence\<close>

datatype issuance_phase = Prepared | Submitted | SourceConfirmed | Materialized | Failed

record signed_issuance =
  sg_hash :: string
  sg_raw :: string
  sg_nonce :: int
  sg_chainId :: int
  sg_source :: string
  sg_issuer :: string
  sg_gasLimit :: "string option"

record source_confirmation =
  sc_blockNumber :: int
  sc_blockHash :: string
  sc_transactionIndex :: int
  sc_confirmedAt :: int
  sc_gasUsed :: "string option"

record issuance_target =
  tg_chainId :: int
  tg_source :: string
  tg_issuer :: string
  tg_hubChainId :: int
  tg_asc :: string
  tg_issuerMode :: "string option"
  tg_operatingKey :: "string option"
  tg_issuerKeyEpoch :: "int option"

record issuance_entry =
  ie_version :: int
  ie_requestId :: string
  ie_wallet :: string
  ie_fingerprint :: string
  ie_consentVersion :: string
  ie_processingPolicy :: "processing_evidence option"
  ie_retentionPolicy :: "retention_binding option"
  ie_createdAt :: int
  ie_prepareUntil :: int
  ie_phase :: issuance_phase
  ie_target :: issuance_target
  ie_outcome :: issue_outcome
  ie_assurance :: int
  ie_evidenceRecord :: "vault_record option"
  ie_evidenceStored :: bool
  ie_transaction :: "signed_issuance option"
  ie_revertedTransactions :: "(string \<times> int \<times> int) list"
  ie_sourceConfirmation :: "source_confirmation option"
  ie_broadcastAcceptedAt :: "int option"
  ie_materializedAt :: "int option"
  ie_lastError :: "string option"

definition is_issued :: "issuance_entry \<Rightarrow> bool" where
  "is_issued e \<longleftrightarrow> (case ie_outcome e of Issued c \<Rightarrow> True | _ \<Rightarrow> False)"

definition needsSigner :: "issuance_entry \<Rightarrow> bool" where
  "needsSigner e \<longleftrightarrow> is_issued e \<and> (ie_phase e = Prepared \<or> ie_phase e = Submitted)"

definition terminal :: "issuance_entry \<Rightarrow> bool" where
  "terminal e \<longleftrightarrow> ie_phase e = Failed \<or> ie_phase e = Materialized"

section \<open>The script\<close>

text \<open>The hash of a request with the expiry of its key, and the four keys the script works on.\<close>

record 'p redis_request =
  rq_revision :: nat
  rq_payload :: 'p
  rq_signer :: string
  rq_needsSigner :: bool
  rq_owner :: "string option"
  rq_leaseUntil :: int
  rq_terminalExpiresAt :: "int option"
  rq_expiry :: "int option"

record 'p redis =
  rd_requests :: "(string \<times> 'p redis_request) list"
  rd_signers :: "(string \<times> string) list"
  rd_pending :: "(string \<times> int) list"
  rd_active :: "string list"

record 'p journal_args =
  ja_op :: string
  ja_id :: string
  ja_owner :: string
  ja_revision :: nat
  ja_payload :: 'p
  ja_needsSigner :: bool
  ja_signer :: string
  ja_terminal :: bool

datatype 'p journal_reply = RSnapshot nat 'p | RCode string | RMembers "string list"

text \<open>A key past its expiry does not exist for Redis.\<close>

definition live_request :: "int \<Rightarrow> string \<Rightarrow> 'p redis \<Rightarrow> 'p redis_request option" where
  "live_request now rid R = (case obj_get (rd_requests R) rid of None \<Rightarrow> None
     | Some q \<Rightarrow> (case rq_expiry q of Some t \<Rightarrow> if t \<le> now then None else Some q | None \<Rightarrow> Some q))"

definition put_request :: "string \<Rightarrow> 'p redis_request \<Rightarrow> 'p redis \<Rightarrow> 'p redis" where
  "put_request rid q R = R\<lparr>rd_requests := obj_put rid q (rd_requests R)\<rparr>"

definition snapshot_reply :: "'p redis_request \<Rightarrow> 'p journal_reply" where
  "snapshot_reply q = RSnapshot (rq_revision q) (rq_payload q)"

definition terminalDeadline :: "int \<Rightarrow> 'p redis_request \<Rightarrow> int" where
  "terminalDeadline now q =
     (case (rq_terminalExpiresAt q, rq_expiry q) of
        (None, None) \<Rightarrow> now + 86400000
      | (None, Some t) \<Rightarrow> if t > 0 then t else now + 86400000
      | (Some s, None) \<Rightarrow> s
      | (Some s, Some t) \<Rightarrow> if t > 0 \<and> t < s then t else s)"

text \<open>\<^verbatim>\<open>retain\<close>: a terminal entry gets its deadline and leaves the queue; any other is persistent and queued.\<close>

definition retain :: "int \<Rightarrow> bool \<Rightarrow> int \<Rightarrow> string \<Rightarrow> 'p redis_request \<Rightarrow> 'p redis \<Rightarrow> 'p redis" where
  "retain now isTerminal until rid q R =
     (if isTerminal
      then (put_request rid (q\<lparr>rq_terminalExpiresAt := Some until, rq_expiry := Some until\<rparr>) R)\<lparr>rd_pending := AList.delete rid (rd_pending R)\<rparr>
      else (put_request rid (q\<lparr>rq_terminalExpiresAt := None, rq_expiry := None\<rparr>) R)
        \<lparr>rd_pending := (if obj_get (rd_pending R) rid = None then obj_put rid now (rd_pending R) else rd_pending R)\<rparr>)"

definition take_signer :: "string \<Rightarrow> string \<Rightarrow> 'p redis \<Rightarrow> 'p redis" where
  "take_signer signer rid R = R\<lparr>rd_signers := obj_put signer rid (rd_signers R), rd_active := List.insert rid (rd_active R)\<rparr>"

definition drop_signer :: "string \<Rightarrow> string \<Rightarrow> 'p redis \<Rightarrow> 'p redis" where
  "drop_signer signer rid R = R\<lparr>rd_signers := (if obj_get (rd_signers R) signer = Some rid then AList.delete signer (rd_signers R) else rd_signers R),
     rd_active := removeAll rid (rd_active R)\<rparr>"

definition signer_busy :: "string \<Rightarrow> string \<Rightarrow> 'p redis \<Rightarrow> bool" where
  "signer_busy signer rid R \<longleftrightarrow> (case obj_get (rd_signers R) signer of None \<Rightarrow> False | Some holder \<Rightarrow> holder \<noteq> rid)"

definition journal_pending :: "'p redis \<Rightarrow> string list" where
  "journal_pending R = rd_active R
     @ filter (\<lambda>i. i \<notin> set (rd_active R)) (take 1000 (map fst (sort_key snd (sort_key fst (rd_pending R)))))"

definition journal_create :: "int \<Rightarrow> 'p journal_args \<Rightarrow> 'p redis_request option \<Rightarrow> 'p redis \<Rightarrow> 'p journal_reply \<times> 'p redis" where
  "journal_create now a cur R = (case cur of Some q \<Rightarrow> (snapshot_reply q, R)
     | None \<Rightarrow>
       if ja_terminal a \<and> ja_needsSigner a then (RCode ''RETENTION_STATE_INVALID'', R)
       else let q = \<lparr>rq_revision = 1, rq_payload = ja_payload a, rq_signer = ja_signer a, rq_needsSigner = ja_needsSigner a, rq_owner = None,
                      rq_leaseUntil = 0, rq_terminalExpiresAt = None, rq_expiry = None\<rparr> in
         (snapshot_reply q, retain now (ja_terminal a) (now + 86400000) (ja_id a) q R))"

definition journal_acquire :: "int \<Rightarrow> 'p journal_args \<Rightarrow> 'p redis_request \<Rightarrow> 'p redis \<Rightarrow> 'p journal_reply \<times> 'p redis" where
  "journal_acquire now a q R =
     (if rq_leaseUntil q > now then (RCode ''REQUEST_BUSY'', R)
      else if rq_needsSigner q \<and> signer_busy (ja_signer a) (ja_id a) R then (RCode ''SIGNER_BUSY'', R)
      else let R1 = (if rq_needsSigner q then take_signer (ja_signer a) (ja_id a) R else R) in
        (snapshot_reply q, put_request (ja_id a) (q\<lparr>rq_owner := Some (ja_owner a), rq_leaseUntil := now + 30000\<rparr>) R1))"

definition journal_save :: "int \<Rightarrow> 'p journal_args \<Rightarrow> 'p redis_request \<Rightarrow> 'p redis \<Rightarrow> 'p journal_reply \<times> 'p redis" where
  "journal_save now a q R =
     (if rq_owner q \<noteq> Some (ja_owner a) \<or> rq_leaseUntil q \<le> now then (RCode ''LEASE_LOST'', R)
      else if rq_revision q \<noteq> ja_revision a then (RCode ''REVISION_CONFLICT'', R)
      else if ja_terminal a \<and> ja_needsSigner a then (RCode ''RETENTION_STATE_INVALID'', R)
      else if ja_needsSigner a \<and> signer_busy (ja_signer a) (ja_id a) R then (RCode ''SIGNER_BUSY'', R)
      else let R1 = (if ja_needsSigner a then take_signer (ja_signer a) (ja_id a) R else drop_signer (ja_signer a) (ja_id a) R);
               q1 = q\<lparr>rq_payload := ja_payload a, rq_needsSigner := ja_needsSigner a, rq_leaseUntil := now + 30000, rq_revision := Suc (rq_revision q)\<rparr> in
        (snapshot_reply q1, retain now (ja_terminal a) (terminalDeadline now q) (ja_id a) q1 R1))"

definition journal_release :: "'p journal_args \<Rightarrow> 'p redis_request \<Rightarrow> 'p redis \<Rightarrow> 'p journal_reply \<times> 'p redis" where
  "journal_release a q R = (RCode ''released'',
     if rq_owner q = Some (ja_owner a) then put_request (ja_id a) (q\<lparr>rq_owner := None, rq_leaseUntil := 0\<rparr>) R else R)"

text \<open>The whole script; \<open>acl\<close> says whether the connection may set an expiry.\<close>

definition journal_eval :: "int \<Rightarrow> bool \<Rightarrow> 'p journal_args \<Rightarrow> 'p redis \<Rightarrow> 'p journal_reply \<times> 'p redis" where
  "journal_eval now acl a R =
     (let cur = live_request now (ja_id a) R; saved = Option.bind cur rq_terminalExpiresAt in
      if (ja_op a = ''create'' \<or> ja_op a = ''save'') \<and> ja_terminal a \<and> \<not> acl then (RCode ''JOURNAL_UNAVAILABLE'', R)
      else if (case saved of None \<Rightarrow> False | Some s \<Rightarrow> s \<le> 0 \<or> 9007199254740991 < s) then (RCode ''RETENTION_STATE_INVALID'', R)
      else if (case saved of None \<Rightarrow> False | Some s \<Rightarrow> s \<le> now) then (RCode ''RETENTION_DEADLINE_PASSED'', R)
      else if ja_op a = ''pending'' then (RMembers (journal_pending R), R)
      else if ja_op a = ''create'' then journal_create now a cur R
      else case cur of None \<Rightarrow> (RCode ''NOT_FOUND'', R)
      | Some q \<Rightarrow>
        if ja_op a = ''get'' then (snapshot_reply q, R)
        else if ja_op a = ''release'' then journal_release a q R
        else if rq_signer q \<noteq> ja_signer a then (RCode ''TARGET_CONFLICT'', R)
        else if ja_op a = ''acquire'' then journal_acquire now a q R
        else if ja_op a = ''save'' then journal_save now a q R
        else (RCode ''INVALID_OPERATION'', R))"

section \<open>The client\<close>

record 'p journal_config =
  jc_seal :: "issuance_entry \<Rightarrow> 'p"
  jc_open :: "string \<Rightarrow> 'p \<Rightarrow> issuance_entry option"
  jc_length :: "'p \<Rightarrow> nat"
  jc_empty :: 'p
  jc_signer :: "int \<Rightarrow> string \<Rightarrow> string"

type_synonym journal_error = string

definition requestId :: "string \<Rightarrow> journal_error + string" where
  "requestId rid = (if is_hash rid then Inr (to_lower rid) else Inl ''INVALID_REQUEST_ID'')"

definition signerKey :: "'p journal_config \<Rightarrow> issuance_entry \<Rightarrow> string" where
  "signerKey J e = jc_signer J (tg_chainId (ie_target e)) (to_lower (tg_issuer (ie_target e)))"

text \<open>\<^verbatim>\<open>open\<close>: the payload is authentic for the request, of version 1, and names the request.\<close>

definition open_entry :: "'p journal_config \<Rightarrow> string \<Rightarrow> 'p \<Rightarrow> journal_error + issuance_entry" where
  "open_entry J rid p = (case requestId rid of Inl e \<Rightarrow> Inl ''JOURNAL_AUTHENTICATION_FAILED''
     | Inr i \<Rightarrow> (case jc_open J i p of None \<Rightarrow> Inl ''JOURNAL_AUTHENTICATION_FAILED''
       | Some e \<Rightarrow> if ie_version e = 1 \<and> requestId (ie_requestId e) = Inr i then Inr e else Inl ''JOURNAL_AUTHENTICATION_FAILED''))"

text \<open>How one round trip to Redis ends.\<close>

datatype delivery = Answered | RequestLost | ReplyLost

record journal_weather =
  jw_now :: int
  jw_acl :: bool
  jw_delivery :: delivery

definition journal_args_of :: "'p journal_config \<Rightarrow> string \<Rightarrow> string \<Rightarrow> string \<Rightarrow> (nat \<times> issuance_entry) option \<Rightarrow> 'p journal_args" where
  "journal_args_of J op i owner s = \<lparr>ja_op = op, ja_id = i, ja_owner = owner,
     ja_revision = (case s of None \<Rightarrow> 0 | Some (n, e) \<Rightarrow> n),
     ja_payload = (case s of None \<Rightarrow> jc_empty J | Some (n, e) \<Rightarrow> jc_seal J e),
     ja_needsSigner = (case s of None \<Rightarrow> False | Some (n, e) \<Rightarrow> needsSigner e),
     ja_signer = (case s of None \<Rightarrow> [] | Some (n, e) \<Rightarrow> signerKey J e),
     ja_terminal = (case s of None \<Rightarrow> False | Some (n, e) \<Rightarrow> terminal e)\<rparr>"

definition journal_run :: "'p journal_config \<Rightarrow> journal_weather \<Rightarrow> string \<Rightarrow> string \<Rightarrow> string \<Rightarrow> (nat \<times> issuance_entry) option \<Rightarrow> 'p redis
    \<Rightarrow> (journal_error + 'p journal_reply) \<times> 'p redis" where
  "journal_run J W op rid owner s R = (case requestId rid of Inl e \<Rightarrow> (Inl e, R)
     | Inr i \<Rightarrow>
       if (case s of None \<Rightarrow> False | Some (n, e) \<Rightarrow> isl (requestId (ie_requestId e))) then (Inl ''INVALID_REQUEST_ID'', R)
       else let a = journal_args_of J op i owner s in
         if 500000 < jc_length J (ja_payload a) then (Inl ''JOURNAL_ENTRY_TOO_LARGE'', R)
         else (case jw_delivery W of
             RequestLost \<Rightarrow> (Inl ''JOURNAL_UNAVAILABLE'', R)
           | ReplyLost \<Rightarrow> (Inl ''JOURNAL_UNAVAILABLE'', snd (journal_eval (jw_now W) (jw_acl W) a R))
           | Answered \<Rightarrow> (case journal_eval (jw_now W) (jw_acl W) a R of (r, R') \<Rightarrow> (Inr r, R'))))"

definition read_snapshot :: "'p journal_config \<Rightarrow> string \<Rightarrow> 'p journal_reply \<Rightarrow> journal_error + nat \<times> issuance_entry" where
  "read_snapshot J rid r = (case r of
     RSnapshot n p \<Rightarrow> if n < 1 \<or> 9007199254740991 < int n then Inl ''BAD_JOURNAL_REVISION''
       else (case open_entry J rid p of Inl e \<Rightarrow> Inl e | Inr e \<Rightarrow> Inr (n, e))
   | RCode c \<Rightarrow> Inl (if c = [] then ''JOURNAL_UNAVAILABLE'' else c)
   | RMembers ms \<Rightarrow> Inl (case ms of [] \<Rightarrow> ''JOURNAL_UNAVAILABLE'' | m # _ \<Rightarrow> m))"

definition run_snapshot :: "'p journal_config \<Rightarrow> journal_weather \<Rightarrow> string \<Rightarrow> string \<Rightarrow> string \<Rightarrow> (nat \<times> issuance_entry) option \<Rightarrow> 'p redis
    \<Rightarrow> (journal_error + nat \<times> issuance_entry) \<times> 'p redis" where
  "run_snapshot J W op rid owner s R = (case journal_run J W op rid owner s R of
     (Inl e, R') \<Rightarrow> (Inl e, R') | (Inr r, R') \<Rightarrow> (read_snapshot J rid r, R'))"

definition redis_create :: "'p journal_config \<Rightarrow> journal_weather \<Rightarrow> issuance_entry \<Rightarrow> 'p redis \<Rightarrow> (journal_error + nat \<times> issuance_entry) \<times> 'p redis" where
  "redis_create J W e = run_snapshot J W ''create'' (ie_requestId e) [] (Some (0, e))"

definition redis_get :: "'p journal_config \<Rightarrow> journal_weather \<Rightarrow> string \<Rightarrow> 'p redis \<Rightarrow> (journal_error + (nat \<times> issuance_entry) option) \<times> 'p redis" where
  "redis_get J W rid R = (case journal_run J W ''get'' rid [] None R of
     (Inl e, R') \<Rightarrow> (Inl e, R')
   | (Inr r, R') \<Rightarrow> if r = RCode ''NOT_FOUND'' then (Inr None, R')
       else (case read_snapshot J rid r of Inl e \<Rightarrow> (Inl e, R') | Inr s \<Rightarrow> (Inr (Some s), R')))"

text \<open>\<^verbatim>\<open>acquire\<close> makes two round trips; between them other clients may work, so it is the pair of its halves.\<close>

definition redis_acquire_snapshot :: "'p journal_config \<Rightarrow> journal_weather \<Rightarrow> string \<Rightarrow> string \<Rightarrow> nat \<times> issuance_entry \<Rightarrow> 'p redis
    \<Rightarrow> (journal_error + nat \<times> issuance_entry) \<times> 'p redis" where
  "redis_acquire_snapshot J W rid owner s = run_snapshot J W ''acquire'' rid owner (Some s)"

definition redis_save :: "'p journal_config \<Rightarrow> journal_weather \<Rightarrow> nat \<times> issuance_entry \<Rightarrow> string \<Rightarrow> 'p redis \<Rightarrow> (journal_error + nat \<times> issuance_entry) \<times> 'p redis" where
  "redis_save J W s owner = run_snapshot J W ''save'' (ie_requestId (snd s)) owner (Some s)"

definition redis_release :: "'p journal_config \<Rightarrow> journal_weather \<Rightarrow> string \<Rightarrow> string \<Rightarrow> 'p redis \<Rightarrow> 'p redis" where
  "redis_release J W rid owner R = snd (journal_run J W ''release'' rid owner None R)"

definition redis_pending :: "'p journal_config \<Rightarrow> journal_weather \<Rightarrow> 'p redis \<Rightarrow> (journal_error + string list) \<times> 'p redis" where
  "redis_pending J W R = (case journal_run J W ''pending'' (''0x'' @ replicate 64 CHR ''0'') [] None R of
     (Inr (RMembers ms), R') \<Rightarrow> (Inr ms, R') | (Inr r, R') \<Rightarrow> (Inr (case r of RCode c \<Rightarrow> [c] | _ \<Rightarrow> []), R') | (Inl e, R') \<Rightarrow> (Inl e, R'))"

section \<open>The signer gate\<close>

text \<open>What the client relies on of its cipher: a sealed entry opens under its own request.\<close>

definition journal_ok :: "'p journal_config \<Rightarrow> bool" where
  "journal_ok J \<longleftrightarrow> (\<forall>e i. requestId (ie_requestId e) = Inr i \<longrightarrow> jc_open J i (jc_seal J e) = Some e)"

text \<open>A stored entry that needs the signer and has a signature: its nonce is not settled yet.\<close>

definition unresolved :: "'p journal_config \<Rightarrow> 'p redis \<Rightarrow> string \<Rightarrow> string \<Rightarrow> bool" where
  "unresolved J R i signer \<longleftrightarrow> (\<exists>q e. obj_get (rd_requests R) i = Some q \<and> jc_open J i (rq_payload q) = Some e \<and> rq_signer q = signer
     \<and> needsSigner e \<and> ie_transaction e \<noteq> None)"

text \<open>
  The calls the program makes: the entry of a call belongs to the request, and a request is
  created before anything is signed for it.
\<close>

definition sound_call :: "string \<Rightarrow> string \<Rightarrow> (nat \<times> issuance_entry) option \<Rightarrow> bool" where
  "sound_call op rid s \<longleftrightarrow> (case s of None \<Rightarrow> op \<noteq> ''create'' \<and> op \<noteq> ''save''
     | Some (n, e) \<Rightarrow> requestId (ie_requestId e) = requestId rid \<and> (op = ''create'' \<longrightarrow> ie_transaction e = None))"

inductive journal_step :: "'p journal_config \<Rightarrow> 'p redis \<Rightarrow> 'p redis \<Rightarrow> bool" for J where
  journal_stepI: "sound_call op rid s \<Longrightarrow> journal_run J W op rid owner s R = (r, R') \<Longrightarrow> journal_step J R R'"

definition empty_redis :: "'p redis" where
  "empty_redis = \<lparr>rd_requests = [], rd_signers = [], rd_pending = [], rd_active = []\<rparr>"

definition journal_init :: "'p journal_config \<Rightarrow> 'p redis \<Rightarrow> bool" where
  "journal_init J R \<longleftrightarrow> journal_ok J \<and> R = empty_redis"

definition gate_held :: "'p journal_config \<Rightarrow> 'p redis \<Rightarrow> string \<Rightarrow> 'p redis_request \<Rightarrow> bool" where
  "gate_held J R i q \<longleftrightarrow> (\<exists>e. jc_open J i (rq_payload q) = Some e \<and> needsSigner e \<and> ie_transaction e \<noteq> None)
     \<longrightarrow> obj_get (rd_signers R) (rq_signer q) = Some i"

definition flag_right :: "'p journal_config \<Rightarrow> string \<Rightarrow> 'p redis_request \<Rightarrow> bool" where
  "flag_right J i q \<longleftrightarrow> (\<forall>e. jc_open J i (rq_payload q) = Some e \<longrightarrow> rq_needsSigner q = needsSigner e)
     \<and> (rq_needsSigner q \<longrightarrow> rq_expiry q = None \<and> rq_terminalExpiresAt q = None)"

definition journal_inv :: "'p journal_config \<Rightarrow> 'p redis \<Rightarrow> bool" where
  "journal_inv J R \<longleftrightarrow> journal_ok J
     \<and> (\<forall>i q. obj_get (rd_requests R) i = Some q \<longrightarrow> gate_held J R i q \<and> flag_right J i q)
     \<and> (\<forall>s i. obj_get (rd_signers R) s = Some i \<longrightarrow> i \<in> set (rd_active R)
          \<and> (\<exists>q. obj_get (rd_requests R) i = Some q \<and> rq_needsSigner q \<and> rq_signer q = s))"

text \<open>The parts of the state after the helpers of the script.\<close>

lemma journal_parts [simp]:
  "rd_requests (put_request i q R) = obj_put i q (rd_requests R)" "rd_signers (put_request i q R) = rd_signers R"
  "rd_active (put_request i q R) = rd_active R"
  "rd_requests (take_signer s i R) = rd_requests R" "rd_signers (take_signer s i R) = obj_put s i (rd_signers R)"
  "rd_active (take_signer s i R) = List.insert i (rd_active R)"
  "rd_requests (drop_signer s i R) = rd_requests R" "rd_active (drop_signer s i R) = removeAll i (rd_active R)"
  "rd_signers (drop_signer s i R) = (if obj_get (rd_signers R) s = Some i then AList.delete s (rd_signers R) else rd_signers R)"
  "rd_signers (retain now b t i q R) = rd_signers R" "rd_active (retain now b t i q R) = rd_active R"
  "rd_requests (retain now b t i q R) = obj_put i (if b then q\<lparr>rq_terminalExpiresAt := Some t, rq_expiry := Some t\<rparr>
     else q\<lparr>rq_terminalExpiresAt := None, rq_expiry := None\<rparr>) (rd_requests R)"
  by (simp_all add: put_request_def take_signer_def drop_signer_def retain_def)

lemma live_request_stored: "live_request now i R = Some q \<Longrightarrow> obj_get (rd_requests R) i = Some q"
  by (auto simp: live_request_def split: option.splits if_splits)

lemma needs_signer_live:
  assumes "journal_inv J R" "obj_get (rd_requests R) i = Some q" "rq_needsSigner q"
  shows "live_request now i R = Some q"
  using assms by (auto simp: journal_inv_def flag_right_def live_request_def)

lemma needs_not_terminal: "needsSigner e \<Longrightarrow> \<not> terminal e"
  by (auto simp: needsSigner_def terminal_def)

lemma journal_inv_ok: "journal_inv J R \<Longrightarrow> journal_ok J"
  by (simp add: journal_inv_def)

lemma journal_inv_request: "journal_inv J R \<Longrightarrow> obj_get (rd_requests R) i = Some q \<Longrightarrow> gate_held J R i q \<and> flag_right J i q"
  by (simp add: journal_inv_def)

lemma journal_inv_signer:
  assumes "journal_inv J R" "obj_get (rd_signers R) s = Some i" "obj_get (rd_requests R) i = Some q"
  shows "rq_needsSigner q" "rq_signer q = s" "i \<in> set (rd_active R)"
  using assms by (force simp: journal_inv_def)+

lemma journal_inv_holder: "journal_inv J R \<Longrightarrow> obj_get (rd_signers R) s = Some i \<Longrightarrow> \<exists>q. obj_get (rd_requests R) i = Some q"
  by (force simp: journal_inv_def)

lemma journal_invI:
  assumes "journal_ok J" "\<And>j p. obj_get (rd_requests R) j = Some p \<Longrightarrow> gate_held J R j p \<and> flag_right J j p"
    "\<And>s j. obj_get (rd_signers R) s = Some j \<Longrightarrow> j \<in> set (rd_active R) \<and> (\<exists>p. obj_get (rd_requests R) j = Some p \<and> rq_needsSigner p \<and> rq_signer p = s)"
  shows "journal_inv J R"
  using assms unfolding journal_inv_def by blast

lemma gate_held_mono: "gate_held J R j p \<Longrightarrow> (\<And>s. obj_get (rd_signers R) s = Some j \<Longrightarrow> obj_get (rd_signers R') s = Some j) \<Longrightarrow> gate_held J R' j p"
  by (auto simp: gate_held_def)

text \<open>Replacing the stored request of one identifier, with the gates and the queue that go with it.\<close>

lemma journal_inv_replace:
  assumes inv: "journal_inv J R" and new: "gate_held J R' i q'" "flag_right J i q'" and R': "rd_requests R' = obj_put i q' (rd_requests R)"
    and others: "\<And>s j. j \<noteq> i \<Longrightarrow> obj_get (rd_signers R') s = Some j \<longleftrightarrow> obj_get (rd_signers R) s = Some j"
      "\<And>j. j \<noteq> i \<Longrightarrow> j \<in> set (rd_active R') \<longleftrightarrow> j \<in> set (rd_active R)"
    and mine: "\<And>s. obj_get (rd_signers R') s = Some i \<Longrightarrow> rq_needsSigner q' \<and> rq_signer q' = s \<and> i \<in> set (rd_active R')"
  shows "journal_inv J R'"
proof (rule journal_invI)
  show "journal_ok J" using inv by (rule journal_inv_ok)
next
  fix j p assume p: "obj_get (rd_requests R') j = Some p"
  show "gate_held J R' j p \<and> flag_right J j p"
  proof (cases "j = i")
    case True
    with p R' new show ?thesis by (simp add: obj_simps)
  next
    case False
    with p R' have "obj_get (rd_requests R) j = Some p" by (simp add: obj_simps)
    from journal_inv_request [OF inv this] others(1) [OF False] show ?thesis by (auto intro: gate_held_mono)
  qed
next
  fix s j assume h: "obj_get (rd_signers R') s = Some j"
  show "j \<in> set (rd_active R') \<and> (\<exists>p. obj_get (rd_requests R') j = Some p \<and> rq_needsSigner p \<and> rq_signer p = s)"
  proof (cases "j = i")
    case True
    with h mine R' show ?thesis by (simp add: obj_simps)
  next
    case False
    with h others have o: "obj_get (rd_signers R) s = Some j" by simp
    from journal_inv_holder [OF inv o] obtain p where "obj_get (rd_requests R) j = Some p" by blast
    from journal_inv_signer [OF inv o this] this False others(2) [OF False] R' show ?thesis by (simp add: obj_simps)
  qed
qed

lemma journal_inv_touch:
  assumes "journal_inv J R" "obj_get (rd_requests R) i = Some q"
  shows "journal_inv J (put_request i (q\<lparr>rq_owner := w, rq_leaseUntil := t\<rparr>) R)"
proof (rule journal_inv_replace [OF assms(1)])
  show "gate_held J (put_request i (q\<lparr>rq_owner := w, rq_leaseUntil := t\<rparr>) R) i (q\<lparr>rq_owner := w, rq_leaseUntil := t\<rparr>)"
    "flag_right J i (q\<lparr>rq_owner := w, rq_leaseUntil := t\<rparr>)"
    using journal_inv_request [OF assms] by (auto simp: gate_held_def flag_right_def)
qed (use journal_inv_signer [OF assms(1) _ assms(2)] in auto)

lemma journal_inv_take:
  assumes inv: "journal_inv J R" and q: "obj_get (rd_requests R) i = Some q" "rq_needsSigner q" "\<not> signer_busy (rq_signer q) i R"
  shows "journal_inv J (take_signer (rq_signer q) i R)"
proof (rule journal_invI)
  show "journal_ok J" using inv by (rule journal_inv_ok)
next
  fix j p assume "obj_get (rd_requests (take_signer (rq_signer q) i R)) j = Some p"
  then show "gate_held J (take_signer (rq_signer q) i R) j p \<and> flag_right J j p"
    using journal_inv_request [OF inv, of j p] q(3) by (auto simp: signer_busy_def obj_simps elim!: gate_held_mono split: option.splits)
next
  fix s j assume h: "obj_get (rd_signers (take_signer (rq_signer q) i R)) s = Some j"
  show "j \<in> set (rd_active (take_signer (rq_signer q) i R))
      \<and> (\<exists>p. obj_get (rd_requests (take_signer (rq_signer q) i R)) j = Some p \<and> rq_needsSigner p \<and> rq_signer p = s)"
  proof (cases "s = rq_signer q")
    case True
    with h q show ?thesis by (simp add: obj_simps)
  next
    case False
    with h have o: "obj_get (rd_signers R) s = Some j" by (simp add: obj_simps)
    from journal_inv_holder [OF inv o] obtain p where "obj_get (rd_requests R) j = Some p" by blast
    from journal_inv_signer [OF inv o this] this show ?thesis by simp
  qed
qed

lemma journal_inv_save_signer:
  assumes inv: "journal_inv J R" and q: "obj_get (rd_requests R) i = Some q" "rq_signer q = s" "\<not> signer_busy s i R"
    and q': "rq_signer q' = s" "rq_needsSigner q'" "flag_right J i q'"
  shows "journal_inv J ((take_signer s i R)\<lparr>rd_requests := obj_put i q' (rd_requests R), rd_pending := p\<rparr>)"
proof (rule journal_inv_replace [OF inv _ q'(3)])
  show "gate_held J ((take_signer s i R)\<lparr>rd_requests := obj_put i q' (rd_requests R), rd_pending := p\<rparr>) i q'"
    using q' by (auto simp: gate_held_def obj_simps)
next
  fix r j assume "j \<noteq> i"
  with q(3) show "obj_get (rd_signers ((take_signer s i R)\<lparr>rd_requests := obj_put i q' (rd_requests R), rd_pending := p\<rparr>)) r = Some j
      \<longleftrightarrow> obj_get (rd_signers R) r = Some j"
    by (cases "r = s") (auto simp: obj_simps signer_busy_def split: option.splits)
next
  fix r assume "obj_get (rd_signers ((take_signer s i R)\<lparr>rd_requests := obj_put i q' (rd_requests R), rd_pending := p\<rparr>)) r = Some i"
  then have "r = s \<or> obj_get (rd_signers R) r = Some i" by (simp add: obj_simps split: if_splits)
  then have "r = s" using journal_inv_signer(2) [OF inv _ q(1)] q(2) by metis
  with q' show "rq_needsSigner q' \<and> rq_signer q' = r
      \<and> i \<in> set (rd_active ((take_signer s i R)\<lparr>rd_requests := obj_put i q' (rd_requests R), rd_pending := p\<rparr>))"
    by simp
qed simp_all

lemma journal_inv_save_free:
  assumes inv: "journal_inv J R" and q: "obj_get (rd_requests R) i = Some q" "rq_signer q = s"
    and q': "\<not> rq_needsSigner q'" "flag_right J i q'"
  shows "journal_inv J ((drop_signer s i R)\<lparr>rd_requests := obj_put i q' (rd_requests R), rd_pending := p\<rparr>)"
proof (rule journal_inv_replace [OF inv _ q'(2)])
  show "gate_held J ((drop_signer s i R)\<lparr>rd_requests := obj_put i q' (rd_requests R), rd_pending := p\<rparr>) i q'"
    using q' by (auto simp: gate_held_def flag_right_def)
next
  fix r j assume "j \<noteq> i"
  then show "obj_get (rd_signers ((drop_signer s i R)\<lparr>rd_requests := obj_put i q' (rd_requests R), rd_pending := p\<rparr>)) r = Some j
      \<longleftrightarrow> obj_get (rd_signers R) r = Some j"
    by (cases "r = s") (auto simp: obj_simps)
next
  fix r assume h: "obj_get (rd_signers ((drop_signer s i R)\<lparr>rd_requests := obj_put i q' (rd_requests R), rd_pending := p\<rparr>)) r = Some i"
  have False
  proof (cases "r = s")
    case True
    with h show ?thesis by (auto simp: obj_simps split: if_splits)
  next
    case False
    with h have "obj_get (rd_signers R) r = Some i" by (auto simp: obj_simps split: if_splits)
    from journal_inv_signer(2) [OF inv this q(1)] q(2) False show ?thesis by simp
  qed
  then show "rq_needsSigner q' \<and> rq_signer q' = r
      \<and> i \<in> set (rd_active ((drop_signer s i R)\<lparr>rd_requests := obj_put i q' (rd_requests R), rd_pending := p\<rparr>))" ..
qed (use q(1) in auto)

lemma retain_is: "retain now b t i q R = R\<lparr>rd_requests := obj_put i (if b then q\<lparr>rq_terminalExpiresAt := Some t, rq_expiry := Some t\<rparr>
     else q\<lparr>rq_terminalExpiresAt := None, rq_expiry := None\<rparr>) (rd_requests R), rd_pending := rd_pending (retain now b t i q R)\<rparr>"
  by (simp add: retain_def put_request_def)

lemma sealed_flag:
  assumes "journal_ok J" "requestId (ie_requestId e) = Inr i" "rq_payload q = jc_seal J e" "rq_needsSigner q = needsSigner e"
    "needsSigner e \<longrightarrow> rq_expiry q = None \<and> rq_terminalExpiresAt q = None"
  shows "flag_right J i q"
  using assms by (auto simp: flag_right_def journal_ok_def)

lemma journal_create_inv:
  assumes inv: "journal_inv J R" and new: "live_request now i R = None" and e: "requestId (ie_requestId e) = Inr i" "ie_transaction e = None"
    and res: "journal_create now (journal_args_of J op i owner (Some (n, e))) None R = (r, R')"
  shows "journal_inv J R'"
proof -
  have ok: "journal_ok J" using inv by (simp add: journal_inv_def)
  have free: "obj_get (rd_signers R) s \<noteq> Some i" for s
  proof
    assume "obj_get (rd_signers R) s = Some i"
    from journal_inv_holder [OF inv this] journal_inv_signer [OF inv this] obtain q where
      "obj_get (rd_requests R) i = Some q" "rq_needsSigner q" by blast
    from needs_signer_live [OF inv this] new show False by simp
  qed
  show ?thesis
  proof (cases "terminal e \<and> needsSigner e")
    case True
    with res inv show ?thesis by (auto simp: journal_create_def journal_args_of_def)
  next
    case False
    let ?q = "\<lparr>rq_revision = 1, rq_payload = jc_seal J e, rq_signer = signerKey J e, rq_needsSigner = needsSigner e, rq_owner = None,
        rq_leaseUntil = 0, rq_terminalExpiresAt = (if terminal e then Some (now + 86400000) else None),
        rq_expiry = (if terminal e then Some (now + 86400000) else None)\<rparr>"
    have R': "rd_requests R' = obj_put i ?q (rd_requests R)" "rd_signers R' = rd_signers R" "rd_active R' = rd_active R"
      using res False by (auto simp: journal_create_def journal_args_of_def Let_def)
    show ?thesis
    proof (rule journal_inv_replace [OF inv _ _ R'(1)])
      show "gate_held J R' i ?q" using ok e by (auto simp: gate_held_def journal_ok_def)
      show "flag_right J i ?q" using ok e(1) False by (intro sealed_flag [of J e]) (auto dest: needs_not_terminal)
    qed (use free R' in auto)
  qed
qed

lemma journal_save_inv:
  assumes inv: "journal_inv J R" and q: "obj_get (rd_requests R) i = Some q" "rq_signer q = signerKey J e" and e: "requestId (ie_requestId e) = Inr i"
    and res: "journal_save now (journal_args_of J op i owner (Some (n, e))) q R = (r, R')"
  shows "journal_inv J R'"
proof (cases "R' = R")
  case False
  let ?t = "terminalDeadline now q"
  let ?q = "q\<lparr>rq_payload := jc_seal J e, rq_needsSigner := needsSigner e, rq_leaseUntil := now + 30000, rq_revision := Suc (rq_revision q)\<rparr>"
  let ?q' = "if terminal e then ?q\<lparr>rq_terminalExpiresAt := Some ?t, rq_expiry := Some ?t\<rparr> else ?q\<lparr>rq_terminalExpiresAt := None, rq_expiry := None\<rparr>"
  let ?R1 = "if needsSigner e then take_signer (signerKey J e) i R else drop_signer (signerKey J e) i R"
  from res False have c: "\<not> (terminal e \<and> needsSigner e)" "needsSigner e \<Longrightarrow> \<not> signer_busy (signerKey J e) i R"
    and R': "R' = retain now (terminal e) ?t i ?q ?R1"
    by (auto simp: journal_save_def journal_args_of_def Let_def split: if_splits)
  have ok: "journal_ok J" using inv by (simp add: journal_inv_def)
  have f: "flag_right J i ?q'" using ok e c by (intro sealed_flag [of J e]) auto
  have s: "rq_signer ?q' = signerKey J e" "rq_needsSigner ?q' = needsSigner e" using q by simp_all
  show ?thesis
  proof (cases "needsSigner e")
    case True
    from journal_inv_save_signer [OF inv q c(2) [OF True] s(1) _ f] s(2) True
    show ?thesis unfolding R' by (subst retain_is) simp
  next
    case n: False
    from journal_inv_save_free [OF inv q _ f] s(2) n
    show ?thesis unfolding R' by (subst retain_is) simp
  qed
qed (use inv in simp)

lemma journal_eval_inv:
  assumes inv: "journal_inv J R" and call: "sound_call op rid s" "requestId rid = Inr i"
  shows "journal_inv J (snd (journal_eval now acl (journal_args_of J op i owner s) R))"
proof (cases "live_request now i R")
  case None
  show ?thesis
  proof (cases "op = ''create''")
    case True
    with call obtain n e where "s = Some (n, e)" "requestId (ie_requestId e) = Inr i" "ie_transaction e = None"
      by (auto simp: sound_call_def split: option.splits)
    with None True inv show ?thesis
      by (cases "journal_create now (journal_args_of J op i owner s) None R")
        (auto simp: journal_eval_def journal_args_of_def Let_def dest: journal_create_inv)
  next
    case False
    with None inv show ?thesis by (auto simp: journal_eval_def journal_args_of_def Let_def)
  qed
next
  case (Some q)
  note st = live_request_stored [OF Some]
  let ?a = "journal_args_of J op i owner s"
  have a: "ja_id ?a = i" "ja_op ?a = op" by (simp_all add: journal_args_of_def)
  have release: "journal_inv J (snd (journal_release ?a q R))"
    using journal_inv_touch [OF inv st] inv a by (auto simp: journal_release_def)
  have acquire: "journal_inv J (snd (journal_acquire now ?a q R))" if "rq_signer q = ja_signer ?a"
  proof -
    have "journal_inv J (take_signer (ja_signer ?a) i R)" if "rq_needsSigner q" "\<not> signer_busy (ja_signer ?a) i R"
      using journal_inv_take [OF inv st] that \<open>rq_signer q = ja_signer ?a\<close> by simp
    with st inv a show ?thesis by (auto simp: journal_acquire_def Let_def intro!: journal_inv_touch)
  qed
  have save: "journal_inv J (snd (journal_save now ?a q R))" if "op = ''save''" "rq_signer q = ja_signer ?a"
  proof -
    from call that obtain n e where e: "s = Some (n, e)" "requestId (ie_requestId e) = Inr i" by (auto simp: sound_call_def split: option.splits)
    with that have "rq_signer q = signerKey J e" by (simp add: journal_args_of_def)
    then show ?thesis using journal_save_inv [OF inv st _ e(2)] e(1) by (metis prod.collapse)
  qed
  show ?thesis using inv release acquire save a Some
    by (auto simp: journal_eval_def Let_def journal_create_def)
qed

lemma journal_step_inv: "journal_step J R R' \<Longrightarrow> journal_inv J R \<Longrightarrow> journal_inv J R'"
proof (induction rule: journal_step.induct)
  case (journal_stepI op rid s W owner R r R')
  show ?case
  proof (cases "requestId rid")
    case (Inl e)
    with journal_stepI show ?thesis by (simp add: journal_run_def)
  next
    case (Inr i)
    note eval = journal_eval_inv [OF journal_stepI.prems journal_stepI.hyps(1) Inr, of "jw_now W" "jw_acl W" owner]
    from journal_stepI.hyps(2) Inr have "R' = R \<or> R' = snd (journal_eval (jw_now W) (jw_acl W) (journal_args_of J op i owner s) R)"
      by (auto simp: journal_run_def Let_def split: if_splits delivery.splits prod.splits)
    with eval journal_stepI.prems show ?thesis by auto
  qed
qed

interpretation journal: inductive_invariant "journal_init J" "journal_step J" "journal_inv J" for J
proof unfold_locales
  show "journal_inv J R" if "journal_init J R" for R using that by (simp add: journal_init_def journal_inv_def empty_redis_def)
qed (rule journal_step_inv)

lemma unresolved_facts:
  assumes "reachable (journal_init J) (journal_step J) R" "unresolved J R i s"
  shows "obj_get (rd_signers R) s = Some i" "unresolved J R j s \<Longrightarrow> j = i" "i \<in> set (journal_pending R)"
    "live_request now i R \<noteq> None"
proof -
  note inv = journal.reachable_inv [OF assms(1)]
  have held: "obj_get (rd_signers R) s = Some k" if "unresolved J R k s" for k
    using that journal_inv_request [OF inv] by (auto simp: unresolved_def gate_held_def)
  show g: "obj_get (rd_signers R) s = Some i" by (rule held [OF assms(2)])
  then show "unresolved J R j s \<Longrightarrow> j = i" using held by fastforce
  from assms(2) obtain q e where q: "obj_get (rd_requests R) i = Some q" "jc_open J i (rq_payload q) = Some e" "needsSigner e"
    by (auto simp: unresolved_def)
  from journal_inv_signer [OF inv g q(1)] show "i \<in> set (journal_pending R)" by (simp add: journal_pending_def)
  from journal_inv_request [OF inv q(1)] q have "rq_needsSigner q" by (simp add: flag_right_def)
  from needs_signer_live [OF inv q(1) this] show "live_request now i R \<noteq> None" by simp
qed

text \<open>C5. 
  One signer has at most one request whose nonce is not settled. In every state that the calls of
  any number of clients can produce, with lost requests and lost replies, expired leases and
  expired keys, two different requests of the same signer are never both waiting with a signed
  transaction; the one that waits holds the gate, and it does not expire.
\<close>
theorem one_unresolved_request_per_signer:
  assumes "reachable (journal_init J) (journal_step J) R" "unresolved J R i s"
  shows "obj_get (rd_signers R) s = Some i \<and> (\<forall>j. unresolved J R j s \<longrightarrow> j = i)
    \<and> i \<in> set (journal_pending R) \<and> live_request now i R \<noteq> None"
  using unresolved_facts [OF assms] by blast

section \<open>An example\<close>

definition sample_rid :: string where
  "sample_rid = ''0x'' @ replicate 64 CHR ''1''"

definition sample_entry :: "issuance_phase \<Rightarrow> signed_issuance option \<Rightarrow> issuance_entry" where
  "sample_entry ph tx = \<lparr>ie_version = 1, ie_requestId = sample_rid, ie_wallet = ''w'', ie_fingerprint = ''f'', ie_consentVersion = ''1'',
     ie_processingPolicy = None, ie_retentionPolicy = None, ie_createdAt = 0, ie_prepareUntil = 9, ie_phase = ph,
     ie_target = \<lparr>tg_chainId = 1, tg_source = ''s'', tg_issuer = ''0xab'', tg_hubChainId = 2, tg_asc = ''a'', tg_issuerMode = None,
       tg_operatingKey = None, tg_issuerKeyEpoch = None\<rparr>,
     ie_outcome = Issued \<lparr>ic_attrs = ''t'', ic_claimsRoot = ''c'', ic_evidenceHash = ''e'', ic_methods = 0, ic_methodNames = [], ic_expiry = 9,
       ic_regime = 1, ic_claims = [], ic_evidence = JNull, ic_screeningSnapshotId = None\<rparr>,
     ie_assurance = 1, ie_evidenceRecord = None, ie_evidenceStored = False, ie_transaction = tx, ie_revertedTransactions = [],
     ie_sourceConfirmation = None, ie_broadcastAcceptedAt = None, ie_materializedAt = None, ie_lastError = None\<rparr>"

definition sample_journal :: "issuance_entry journal_config" where
  "sample_journal = \<lparr>jc_seal = (\<lambda>e. e), jc_open = (\<lambda>i e. Some e), jc_length = (\<lambda>p. 0),
     jc_empty = sample_entry Prepared None, jc_signer = (\<lambda>c i. i)\<rparr>"

definition sample_signed :: signed_issuance where
  "sample_signed = \<lparr>sg_hash = ''h'', sg_raw = ''r'', sg_nonce = 7, sg_chainId = 1, sg_source = ''s'', sg_issuer = ''0xab'', sg_gasLimit = None\<rparr>"

type_synonym journal_call = "string \<times> string \<times> int \<times> (nat \<times> issuance_entry) option"

fun journal_calls :: "journal_call list \<Rightarrow> issuance_entry redis \<Rightarrow> issuance_entry redis" where
  "journal_calls [] R = R"
| "journal_calls ((op, owner, now, s) # cs) R =
     journal_calls cs (snd (journal_run sample_journal \<lparr>jw_now = now, jw_acl = True, jw_delivery = Answered\<rparr> op sample_rid owner s R))"

definition sample_calls :: "journal_call list" where
  "sample_calls = [(''create'', [], 1, Some (0, sample_entry Prepared None)), (''acquire'', ''me'', 2, Some (1, sample_entry Prepared None)),
     (''save'', ''me'', 3, Some (1, sample_entry Submitted (Some sample_signed)))]"

lemma sample_rid_ok: "requestId sample_rid = Inr sample_rid"
  by code_simp

lemma sample_open: "needsSigner (sample_entry Prepared tx)" "needsSigner (sample_entry Submitted tx)"
  "\<not> terminal (sample_entry Prepared tx)" "\<not> terminal (sample_entry Submitted tx)"
  by (simp_all add: needsSigner_def is_issued_def terminal_def sample_entry_def)

lemma sample_config: "jc_seal sample_journal e = e" "jc_open sample_journal i e = Some e" "jc_length sample_journal e = 0"
  by (simp_all add: sample_journal_def)

lemma sample_ids: "ie_requestId (sample_entry ph tx) = sample_rid" "signerKey sample_journal (sample_entry ph tx) = ''0xab''"
  "ie_transaction (sample_entry ph tx) = tx"
  by (simp add: sample_entry_def, simp add: sample_entry_def signerKey_def sample_journal_def, code_simp, simp add: sample_entry_def)

lemma sample_redis: "journal_calls sample_calls empty_redis = \<lparr>rd_requests = [(sample_rid, \<lparr>rq_revision = 2, rq_payload = sample_entry Submitted (Some sample_signed),
     rq_signer = ''0xab'', rq_needsSigner = True, rq_owner = Some ''me'', rq_leaseUntil = 30003, rq_terminalExpiresAt = None, rq_expiry = None\<rparr>)],
   rd_signers = [(''0xab'', sample_rid)], rd_pending = [(sample_rid, 1)], rd_active = [sample_rid]\<rparr>"
  by (simp add: sample_calls_def empty_redis_def journal_run_def sample_rid_ok sample_ids sample_open journal_args_of_def journal_eval_def Let_def
      live_request_def journal_create_def journal_acquire_def journal_save_def retain_def put_request_def take_signer_def
      signer_busy_def sample_config)

lemma journal_calls_reachable:
  "reachable (journal_init sample_journal) (journal_step sample_journal) R
    \<Longrightarrow> \<forall>(op, owner, now, s) \<in> set cs. sound_call op sample_rid s
    \<Longrightarrow> reachable (journal_init sample_journal) (journal_step sample_journal) (journal_calls cs R)"
proof (induction cs arbitrary: R)
  case (Cons c cs)
  obtain op owner now s where c: "c = (op, owner, now, s)" by (cases c)
  let ?run = "journal_run sample_journal \<lparr>jw_now = now, jw_acl = True, jw_delivery = Answered\<rparr> op sample_rid owner s R"
  have "journal_step sample_journal R (snd ?run)" using Cons.prems(2) c by (intro journal_stepI [OF _ prod.collapse [symmetric]]) auto
  with Cons.prems(1) have "reachable (journal_init sample_journal) (journal_step sample_journal) (snd ?run)"
    by (rule reachable_step)
  from Cons.IH [OF this] Cons.prems(2) c show ?case by simp
qed simp

theorem one_unresolved_request_per_signer_witness:
  "obj_get (rd_signers (journal_calls sample_calls empty_redis)) ''0xab'' = Some sample_rid
    \<and> unresolved sample_journal (journal_calls sample_calls empty_redis) sample_rid ''0xab''"
proof -
  let ?R = "journal_calls sample_calls empty_redis"
  have "journal_init sample_journal empty_redis" by (simp add: journal_init_def journal_ok_def sample_journal_def)
  then have "reachable (journal_init sample_journal) (journal_step sample_journal) empty_redis" by (rule reachable_init)
  moreover have "\<forall>(op, owner, now, s) \<in> set sample_calls. sound_call op sample_rid s"
    by (simp add: sample_calls_def sound_call_def sample_ids)
  ultimately have r: "reachable (journal_init sample_journal) (journal_step sample_journal) ?R" by (rule journal_calls_reachable)
  have u: "unresolved sample_journal ?R sample_rid ''0xab''"
    by (simp add: sample_redis unresolved_def sample_config sample_open sample_ids)
  from one_unresolved_request_per_signer [OF r u] u show ?thesis by blast
qed

end
