(* ===== verification/Vault_Storage.thy ===== *)
theory Vault_Storage
  imports Vault
begin

text \<open>
  The file of the evidence vault: the encrypted envelope, the lock file, the write path of
  \<^verbatim>\<open>mutate\<close> with every way a file operation can fail, key rotation, backup and restore
  (\<^verbatim>\<open>pipeline/vault.ts\<close> and \<^verbatim>\<open>pipeline/vault-atomic.ts\<close>). Several processes may use the file: the
  phases of \<^verbatim>\<open>mutate\<close> interleave, and crashes and the removal of a lock left behind are steps too.

  AES-256-GCM and the digests of \<^verbatim>\<open>node:crypto\<close> over JSON texts are parameters.
\<close>

section \<open>The envelope\<close>

datatype 'a field = Absent | Malformed | Given 'a

record vault_plain =
  vp_version :: int
  vp_revision :: "int field"
  vp_records :: "vault_record obj"
  vp_erasures :: "erasure list"
  vp_revocations :: "revocation_job obj option"
  vp_retention :: "retention_controls obj field"
  vp_maintenance :: "key_rotation list field"

record backup_manifest =
  bm_version :: int
  bm_backupId :: string
  bm_createdAt :: int
  bm_revision :: int
  bm_stateCommitment :: string
  bm_ciphertextHash :: string
  bm_keyId :: string
  bm_deleteBy :: "int option field"

text \<open>The text of an envelope is of an arbitrary type; the code only stores, hashes and opens it.\<close>

record 'r vault_cipher =
  vc_version :: "'r \<Rightarrow> int option"
  vc_open :: "string \<Rightarrow> 'r \<Rightarrow> vault_plain option"
  vc_seal :: "string \<Rightarrow> string \<Rightarrow> vault_data \<Rightarrow> 'r"
  vc_derive :: "string \<Rightarrow> string"
  vc_keyId :: "string \<Rightarrow> string"
  vc_commitment :: "vault_data \<Rightarrow> string"
  vc_hash :: "'r \<Rightarrow> string"
  vc_mac :: "string \<Rightarrow> backup_manifest \<times> 'r \<Rightarrow> string"

definition deriveVaultKey :: "'r vault_cipher \<Rightarrow> string \<Rightarrow> vault_error + string" where
  "deriveVaultKey C secret =
     (if length secret < 32 then Inl (VaultError ''EVIDENCE_VAULT_KEY must be at least 32 characters'') else Inr (vc_derive C secret))"

definition auth_failed :: vault_error where
  "auth_failed = VaultError ''evidence vault authentication failed (wrong key or corrupt file)''"

definition given :: "'a field \<Rightarrow> 'a option" where
  "given x = (case x of Given v \<Rightarrow> Some v | _ \<Rightarrow> None)"

definition decryptVaultData :: "'r vault_cipher \<Rightarrow> 'r \<Rightarrow> string \<Rightarrow> vault_error + vault_data" where
  "decryptVaultData C raw key = (case vc_version C raw of
     None \<Rightarrow> Inl FileError
   | Some v \<Rightarrow>
      if v \<noteq> 1 then Inl (VaultError ''unsupported evidence vault version'')
      else (case vc_open C key raw of None \<Rightarrow> Inl auth_failed
        | Some p \<Rightarrow>
          if vp_version p = 1 then Inr \<lparr>vd_revision = 0, vd_records = vp_records p, vd_erasures = vp_erasures p,
            vd_revocations = vp_revocations p, vd_retention = [], vd_maintenance = given (vp_maintenance p)\<rparr>
          else if vp_version p \<noteq> 2 then Inl auth_failed
          else (case vp_retention p of
              Given rs \<Rightarrow>
                if vp_revision p = Malformed \<or> (case vp_revision p of Given n \<Rightarrow> \<not> integer0 n | _ \<Rightarrow> False)
                   \<or> vp_maintenance p = Malformed then Inl auth_failed
                else Inr \<lparr>vd_revision = (case vp_revision p of Given n \<Rightarrow> n | _ \<Rightarrow> 0), vd_records = vp_records p,
                  vd_erasures = vp_erasures p, vd_revocations = vp_revocations p, vd_retention = rs,
                  vd_maintenance = given (vp_maintenance p)\<rparr>
            | _ \<Rightarrow> Inl auth_failed)))"

text \<open>
  What the code relies on of the cipher and of JSON: an envelope opens to what was sealed under
  its key, and under no other key.
\<close>

definition plain_of :: "vault_data \<Rightarrow> vault_plain" where
  "plain_of d = \<lparr>vp_version = 2, vp_revision = Given (vd_revision d), vp_records = vd_records d, vp_erasures = vd_erasures d,
     vp_revocations = vd_revocations d, vp_retention = Given (vd_retention d),
     vp_maintenance = (case vd_maintenance d of None \<Rightarrow> Absent | Some m \<Rightarrow> Given m)\<rparr>"

definition cipher_ok :: "'r vault_cipher \<Rightarrow> bool" where
  "cipher_ok C \<longleftrightarrow> (\<forall>k iv d. vc_version C (vc_seal C k iv d) = Some 1
     \<and> (\<forall>k'. vc_open C k' (vc_seal C k iv d) = (if k' = k then Some (plain_of d) else None)))"

section \<open>Writing the file\<close>

record 'r vault_disk =
  vk_file :: "'r option"
  vk_lock :: bool

text \<open>How \<^verbatim>\<open>writeVaultEnvelope\<close> ends: durably, before the rename, or after it without the directory being synced.\<close>

datatype write_outcome = Written | NotRenamed | RenamedUnsynced

definition writeVaultEnvelope :: "write_outcome \<Rightarrow> 'r \<Rightarrow> 'r vault_disk \<Rightarrow> (vault_error + unit) \<times> 'r vault_disk" where
  "writeVaultEnvelope out text k = (case out of
     Written \<Rightarrow> (Inr (), k\<lparr>vk_file := Some text\<rparr>)
   | NotRenamed \<Rightarrow> (Inl VaultWriteError, k)
   | RenamedUnsynced \<Rightarrow> (Inl VaultWriteError, k\<lparr>vk_file := Some text\<rparr>))"

text \<open>The exclusive variant links the temporary file to a name that must not exist.\<close>

definition writeVaultEnvelopeExclusive :: "write_outcome \<Rightarrow> 'r \<Rightarrow> 'r option \<Rightarrow> (vault_error + unit) \<times> 'r option" where
  "writeVaultEnvelopeExclusive out text old = (case old of Some t \<Rightarrow> (Inl VaultWriteError, Some t)
   | None \<Rightarrow> (case out of Written \<Rightarrow> (Inr (), Some text)
      | NotRenamed \<Rightarrow> (Inl VaultWriteError, None)
      | RenamedUnsynced \<Rightarrow> (Inl VaultWriteError, Some text)))"

text \<open>The faults that one run of \<^verbatim>\<open>mutate\<close> meets.\<close>

record vault_faults =
  fl_mkdir :: bool
  fl_open :: bool
  fl_lockWrite :: bool
  fl_read :: bool
  fl_write :: write_outcome
  fl_close :: bool
  fl_unlink :: bool
  fl_iv :: string

datatype phase = Idle | Holding | Writing string vault_data | Leaving string

record vault_instance =
  vi_key :: string
  vi_unconfirmed :: bool
  vi_phase :: phase

definition vault_load :: "'r vault_cipher \<Rightarrow> bool \<Rightarrow> string \<Rightarrow> 'r vault_disk \<Rightarrow> vault_error + vault_data" where
  "vault_load C fails key k = (case vk_file k of None \<Rightarrow> Inr empty_vault
     | Some raw \<Rightarrow> if fails then Inl FileError else decryptVaultData C raw key)"

text \<open>The constructor: it fails on a wait out of range, a short secret, or a file that does not open.\<close>

definition open_vault :: "'r vault_cipher \<Rightarrow> bool \<Rightarrow> int \<Rightarrow> string \<Rightarrow> 'r vault_disk \<Rightarrow> vault_error + vault_instance" where
  "open_vault C fails lockWaitMs secret k =
     (if \<not> integer0 lockWaitMs \<or> 60000 < lockWaitMs then Inl (VaultError ''invalid vault lock wait'')
      else case deriveVaultKey C secret of Inl e \<Rightarrow> Inl e
      | Inr key \<Rightarrow> (case vault_load C fails key k of Inl e \<Rightarrow> Inl e
        | Inr d \<Rightarrow> Inr \<lparr>vi_key = key, vi_unconfirmed = False, vi_phase = Idle\<rparr>))"

definition recoveryState :: "'r vault_cipher \<Rightarrow> bool \<Rightarrow> 'r vault_disk \<Rightarrow> vault_instance \<Rightarrow> vault_error + int \<times> string \<times> string" where
  "recoveryState C fails k p = (case vault_load C fails (vi_key p) k of Inl e \<Rightarrow> Inl e
     | Inr d \<Rightarrow> Inr (vd_revision d, vc_commitment C d, vc_keyId C (vi_key p)))"

definition assertWritable :: "'r vault_disk \<Rightarrow> vault_instance \<Rightarrow> bool" where
  "assertWritable k p \<longleftrightarrow> \<not> (vi_unconfirmed p \<or> vk_lock k)"

text \<open>One attempt of \<^verbatim>\<open>openSync(lockPath, 'wx')\<close>, and the loop around it. The clock is read after each failed attempt.\<close>

datatype lock_try = LockOpened | LockExists | LockFailed

partial_function (option) acquire_from :: "(nat \<Rightarrow> lock_try) \<Rightarrow> (nat \<Rightarrow> int) \<Rightarrow> int \<Rightarrow> nat \<Rightarrow> (vault_error + unit) option" where
  "acquire_from attempts clock deadline n = (case attempts n of
     LockOpened \<Rightarrow> Some (Inr ())
   | LockFailed \<Rightarrow> Some (Inl FileError)
   | LockExists \<Rightarrow> if deadline - clock n \<le> 0 then Some (Inl VaultBusyError) else acquire_from attempts clock deadline (Suc n))"

definition acquireLock :: "(nat \<Rightarrow> lock_try) \<Rightarrow> int \<Rightarrow> int \<Rightarrow> (nat \<Rightarrow> int) \<Rightarrow> (vault_error + unit) option" where
  "acquireLock attempts start lockWaitMs clock = acquire_from attempts clock (start + lockWaitMs) 0"

text \<open>The body of \<^verbatim>\<open>mutate\<close> up to the write: load, run the operation, count the revision.\<close>

definition load_and_run :: "'r vault_cipher \<Rightarrow> bool \<Rightarrow> string \<Rightarrow> 'a vault_op \<Rightarrow> 'r vault_disk \<Rightarrow> vault_error + 'a \<times> vault_data" where
  "load_and_run C fails key f k = (case vault_load C fails key k of Inl e \<Rightarrow> Inl e
     | Inr d \<Rightarrow> (case f d of Inl e \<Rightarrow> Inl e | Inr (x, d') \<Rightarrow> Inr (x, next_revision d')))"

definition flush :: "'r vault_cipher \<Rightarrow> string \<Rightarrow> string \<Rightarrow> write_outcome \<Rightarrow> vault_data \<Rightarrow> 'r vault_disk \<Rightarrow> (vault_error + unit) \<times> 'r vault_disk" where
  "flush C key iv out d k = writeVaultEnvelope out (vc_seal C key iv d) k"

text \<open>The \<^verbatim>\<open>finally\<close> block: close the lock file and, unless it is retained, remove it.\<close>

definition leave_lock :: "vault_faults \<Rightarrow> bool \<Rightarrow> vault_error + 'a \<Rightarrow> 'r vault_disk \<Rightarrow> vault_instance
    \<Rightarrow> (vault_error + 'a) \<times> 'r vault_disk \<times> vault_instance" where
  "leave_lock F retain res k p =
     (if fl_close F then (Inl VaultWriteError, k, p\<lparr>vi_unconfirmed := True\<rparr>)
      else if retain then (res, k, p)
      else if fl_unlink F then (Inl VaultWriteError, k, p\<lparr>vi_unconfirmed := True\<rparr>)
      else (res, k\<lparr>vk_lock := False\<rparr>, p))"

text \<open>The \<^verbatim>\<open>catch\<close> block: a write error retains the lock and stops the instance.\<close>

definition fail_with :: "vault_faults \<Rightarrow> vault_error \<Rightarrow> 'r vault_disk \<Rightarrow> vault_instance \<Rightarrow> (vault_error + 'a) \<times> 'r vault_disk \<times> vault_instance" where
  "fail_with F e k p =
     leave_lock F (e = VaultWriteError) (Inl e) k (if e = VaultWriteError then p\<lparr>vi_unconfirmed := True\<rparr> else p)"

definition mutate :: "'r vault_cipher \<Rightarrow> vault_faults \<Rightarrow> 'a vault_op \<Rightarrow> string \<Rightarrow> 'r vault_disk \<Rightarrow> vault_instance
    \<Rightarrow> (vault_error + 'a) \<times> 'r vault_disk \<times> vault_instance" where
  "mutate C F f writeKey k p =
     (if vi_unconfirmed p then (Inl VaultWriteError, k, p)
      else if fl_mkdir F \<or> fl_open F then (Inl FileError, k, p)
      else if vk_lock k then (Inl VaultBusyError, k, p)
      else let k1 = k\<lparr>vk_lock := True\<rparr> in
        if fl_lockWrite F then fail_with F VaultWriteError k1 p
        else case load_and_run C (fl_read F) (vi_key p) f k1 of
          Inl e \<Rightarrow> fail_with F e k1 p
        | Inr (x, d) \<Rightarrow> (case flush C writeKey (fl_iv F) (fl_write F) d k1 of
            (Inl e, k2) \<Rightarrow> fail_with F e k2 p
          | (Inr _, k2) \<Rightarrow> leave_lock F False (Inr x) k2 p))"

definition rotateKey :: "'r vault_cipher \<Rightarrow> vault_faults \<Rightarrow> string \<Rightarrow> string \<Rightarrow> int \<Rightarrow> 'r vault_disk \<Rightarrow> vault_instance
    \<Rightarrow> (vault_error + unit) \<times> 'r vault_disk \<times> vault_instance" where
  "rotateKey C F newSecret operator at k p =
     (if \<not> timestamp at then (Inl bad_timestamp, k, p)
      else if \<not> opaque_reference operator then (Inl bad_reference, k, p)
      else case deriveVaultKey C newSecret of Inl e \<Rightarrow> (Inl e, k, p)
      | Inr nextKey \<Rightarrow>
        if vc_keyId C (vi_key p) = vc_keyId C nextKey then (Inl (VaultError ''vault rotation requires a different key''), k, p)
        else (case mutate C F (record_rotation \<lparr>kr_at = at, kr_operator = operator, kr_previousKeyId = vc_keyId C (vi_key p),
                  kr_nextKeyId = vc_keyId C nextKey\<rparr>) nextKey k p of
            (Inl e, k', p') \<Rightarrow> (Inl e, k', p')
          | (Inr u, k', p') \<Rightarrow> (Inr u, k', p'\<lparr>vi_key := nextKey\<rparr>)))"

section \<open>What one call does to the file\<close>

text \<open>The file holds the data \<open>d\<close>: sealed under some key, or no file and the empty vault.\<close>

definition contents :: "'r vault_cipher \<Rightarrow> 'r vault_disk \<Rightarrow> vault_data \<Rightarrow> bool" where
  "contents C k d \<longleftrightarrow> (vk_file k = None \<and> d = empty_vault) \<or> (\<exists>key iv. vk_file k = Some (vc_seal C key iv d))"

lemma decrypt_seal:
  assumes "cipher_ok C"
  shows "decryptVaultData C (vc_seal C k iv d) key = (if key = k \<and> integer0 (vd_revision d) then Inr d else Inl auth_failed)"
  using assms by (auto simp: cipher_ok_def decryptVaultData_def plain_of_def given_def split: option.splits)

lemma load_contents:
  assumes "cipher_ok C" "contents C k d" "vault_load C fails key k = Inr d'"
  shows "d' = d"
  using assms by (auto simp: contents_def vault_load_def decrypt_seal split: if_splits)

lemma run_contents:
  assumes "cipher_ok C" "contents C k d" "load_and_run C fails key f k = Inr (x, d')"
  shows "\<exists>d1. f d = Inr (x, d1) \<and> d' = next_revision d1"
  using assms load_contents [OF assms(1,2)] by (fastforce simp: load_and_run_def split: sum.splits prod.splits)

lemma contents_lock [simp]: "contents C (k\<lparr>vk_lock := b\<rparr>) d = contents C k d"
  by (simp add: contents_def)

lemma contents_sealed [simp]: "vk_file k = Some (vc_seal C key iv d) \<Longrightarrow> contents C k d"
  by (auto simp: contents_def)

lemma leave_lock_Inr:
  "leave_lock F retain res k p = (Inr x, k', p') \<Longrightarrow> res = Inr x \<and> p' = p \<and> vk_file k' = vk_file k \<and> (retain \<or> \<not> vk_lock k')"
  by (auto simp: leave_lock_def split: if_splits)

lemma leave_lock_Inl:
  "leave_lock F retain res k p = (Inl e, k', p') \<Longrightarrow>
     vk_file k' = vk_file k \<and> (res = Inl e \<and> p' = p \<and> (retain \<or> k' = k\<lparr>vk_lock := False\<rparr>) \<or> e = VaultWriteError \<and> vi_unconfirmed p')"
  by (auto simp: leave_lock_def split: if_splits)

lemma fail_with_Inl:
  assumes "fail_with F e k p = (res, k', p')"
  shows "\<exists>e'. res = Inl e' \<and> vk_file k' = vk_file k
    \<and> (e' = VaultWriteError \<and> vi_unconfirmed p' \<or> e' = e \<and> e \<noteq> VaultWriteError \<and> p' = p \<and> k' = k\<lparr>vk_lock := False\<rparr>)"
  using assms by (auto simp: fail_with_def leave_lock_def split: if_splits)

lemma unlock_locked: "\<not> vk_lock k \<Longrightarrow> k\<lparr>vk_lock := True, vk_lock := False\<rparr> = k" "\<not> vk_lock k \<Longrightarrow> k\<lparr>vk_lock := False\<rparr> = k"
  by (cases k; simp)+

lemma flush_cases:
  assumes "flush C key iv out d k = (r, k')"
  obtains "r = Inr ()" "vk_file k' = Some (vc_seal C key iv d)" | "r = Inl VaultWriteError" "k' = k"
  | "r = Inl VaultWriteError" "vk_file k' = Some (vc_seal C key iv d)"
  using assms by (cases out) (auto simp: flush_def writeVaultEnvelope_def)

lemma contents_file: "vk_file k' = vk_file k \<Longrightarrow> contents C k' d = contents C k d"
  by (simp add: contents_def)

text \<open>The ways in which a call can end.\<close>

lemma mutate_cases:
  assumes "cipher_ok C" "contents C k d" "mutate C F f writeKey k p = (res, k', p')"
  obtains (completed) x d' where "res = Inr x" "f d = Inr (x, d')" "contents C k' (next_revision d')" "\<not> vk_lock k'" "p' = p"
  | (refused) e where "res = Inl e" "e \<noteq> VaultWriteError" "k' = k" "p' = p"
  | (unconfirmed) "res = Inl VaultWriteError" "vi_unconfirmed p'" "contents C k' d"
  | (unsure) x d' where "res = Inl VaultWriteError" "vi_unconfirmed p'" "f d = Inr (x, d')" "contents C k' (next_revision d')"
proof -
  let ?k1 = "k\<lparr>vk_lock := True\<rparr>"
  note m = assms(3) [unfolded mutate_def Let_def]
  have c1: "contents C ?k1 d" using assms(2) by simp
  have failed: thesis if "fail_with F e k2 p = (res, k', p')" "vk_file k2 = vk_file k" "k2\<lparr>vk_lock := False\<rparr> = k" for e k2
    using fail_with_Inl [OF that(1)] that(2,3) assms(2) contents_file [of k' k C d] by (auto intro: refused unconfirmed)
  consider "vi_unconfirmed p" | "\<not> vi_unconfirmed p" "fl_mkdir F \<or> fl_open F \<or> vk_lock k"
    | "\<not> vi_unconfirmed p" "\<not> fl_mkdir F" "\<not> fl_open F" "\<not> vk_lock k" by blast
  then show thesis
  proof cases
    case 1
    with m assms(2) show thesis by (intro unconfirmed) auto
  next
    case 2
    with m show thesis by (auto split: if_splits intro: refused)
  next
    case 3
    show thesis
    proof (cases "fl_lockWrite F")
      case True
      with 3 m show thesis by (intro failed [of VaultWriteError ?k1]) (simp_all add: unlock_locked)
    next
      case nf: False
      show thesis
      proof (cases "load_and_run C (fl_read F) (vi_key p) f ?k1")
        case (Inl e)
        with 3 nf m show thesis by (intro failed [of e ?k1]) (simp_all add: unlock_locked)
      next
        case (Inr xd)
        obtain x d2 where xd: "xd = (x, d2)" by (cases xd)
        from run_contents [OF assms(1) c1 Inr [unfolded xd]] obtain d1 where d1: "f d = Inr (x, d1)" "d2 = next_revision d1" by blast
        obtain r k2 where fl: "flush C writeKey (fl_iv F) (fl_write F) d2 ?k1 = (r, k2)" by fastforce
        from fl show thesis
        proof (cases rule: flush_cases)
          case 1
          then have lv: "leave_lock F False (Inr x) k2 p = (res, k', p')" using 3 nf m Inr xd fl by simp
          have k2: "contents C k2 d2" using 1(2) by simp
          show thesis
          proof (cases res)
            case (Inl e)
            then show thesis using leave_lock_Inl [of F False "Inr x" k2 p e k' p'] lv k2 d1 contents_file [of k' k2 C d2]
              by (auto intro: unsure)
          next
            case (Inr y)
            then show thesis using leave_lock_Inr [of F False "Inr x" k2 p y k' p'] lv k2 d1 contents_file [of k' k2 C d2]
              by (auto intro: completed)
          qed
        next
          case 2
          then have "fail_with F VaultWriteError ?k1 p = (res, k', p')" using 3 nf m Inr xd fl by simp
          then show thesis using 3 by (intro failed [of VaultWriteError ?k1]) (simp_all add: unlock_locked)
        next
          case w: 3
          then have "fail_with F VaultWriteError k2 p = (res, k', p')" using 3 nf m Inr xd fl by simp
          from fail_with_Inl [OF this] w(2) d1 show thesis by (auto intro: unsure)
        qed
      qed
    qed
  qed
qed

text \<open>C8. 
  A call of \<^verbatim>\<open>mutate\<close> is atomic on the contents of the file, whatever fails. If it returns, the file
  holds the result of the operation on what it held before, with the revision counted up, and the
  lock is released. If it throws anything but a write error, the file and the lock are as before.
  After a write error the file holds the old or the new contents, and the instance accepts no
  further write.
\<close>
theorem mutate_is_atomic:
  assumes "cipher_ok C" "contents C k d" "mutate C F f writeKey k p = (res, k', p')"
  shows "case res of
      Inr x \<Rightarrow> (\<exists>d'. f d = Inr (x, d') \<and> contents C k' (next_revision d')) \<and> \<not> vk_lock k' \<and> p' = p
    | Inl e \<Rightarrow> (if e \<noteq> VaultWriteError then k' = k \<and> p' = p
        else vi_unconfirmed p' \<and> (contents C k' d \<or> (\<exists>x d'. f d = Inr (x, d') \<and> contents C k' (next_revision d'))))"
  using assms(1-3) by (cases rule: mutate_cases) auto

section \<open>Waiting for the lock\<close>

text \<open>What the loop returns, from attempt \<open>n\<close> on.\<close>

definition lock_answer :: "(nat \<Rightarrow> lock_try) \<Rightarrow> (nat \<Rightarrow> int) \<Rightarrow> int \<Rightarrow> nat \<Rightarrow> vault_error + unit \<Rightarrow> bool" where
  "lock_answer attempts clock deadline n r \<longleftrightarrow>
     (\<exists>m \<ge> n. (\<forall>i. n \<le> i \<and> i < m \<longrightarrow> attempts i = LockExists)
        \<and> (r = Inr () \<and> attempts m = LockOpened
           \<or> r = Inl FileError \<and> attempts m = LockFailed
           \<or> r = Inl VaultBusyError \<and> attempts m = LockExists \<and> deadline \<le> clock m))"

lemma lock_answer_later: "attempts n = LockExists \<Longrightarrow> lock_answer attempts clock deadline (Suc n) r \<Longrightarrow> lock_answer attempts clock deadline n r"
  unfolding lock_answer_def by (metis Suc_leD Suc_leI le_neq_implies_less)

lemma lock_answer_now:
  "r = Inr () \<and> attempts n = LockOpened \<or> r = Inl FileError \<and> attempts n = LockFailed
     \<or> r = Inl VaultBusyError \<and> attempts n = LockExists \<and> deadline \<le> clock n \<Longrightarrow> lock_answer attempts clock deadline n r"
  unfolding lock_answer_def by (intro exI [of _ n]) auto

lemma acquire_from_answers:
  assumes "\<And>n. clock n < clock (Suc n)"
  shows "\<exists>r. acquire_from attempts clock deadline n = Some r \<and> lock_answer attempts clock deadline n r"
proof (induction "nat (deadline - clock n)" arbitrary: n rule: less_induct)
  case less
  show ?case
  proof (cases "attempts n = LockExists \<and> deadline - clock n > 0")
    case True
    then have "nat (deadline - clock (Suc n)) < nat (deadline - clock n)" using assms [of n] by simp
    from less [OF this] obtain r where "acquire_from attempts clock deadline (Suc n) = Some r" "lock_answer attempts clock deadline (Suc n) r"
      by blast
    then show ?thesis using True lock_answer_later [of attempts n] by (subst acquire_from.simps) auto
  next
    case False
    then show ?thesis
      by (subst acquire_from.simps) (auto intro!: lock_answer_now split: lock_try.splits)
  qed
qed

text \<open>C37. 
  The wait for the lock ends. If the clock moves on between two attempts, which is what the code
  waits for, \<^verbatim>\<open>acquireLock\<close> returns: with the lock after an attempt that created it, with the error of
  the file system, or as busy when the lock still existed at the end of the configured wait.
\<close>
theorem acquireLock_terminates:
  assumes "\<And>n. clock n < clock (Suc n)"
  shows "\<exists>r. acquireLock attempts start lockWaitMs clock = Some r \<and> lock_answer attempts clock (start + lockWaitMs) 0 r"
  unfolding acquireLock_def by (rule acquire_from_answers) (rule assms)

section \<open>Several processes\<close>

record 'r vault_world =
  ww_disk :: "'r vault_disk"
  ww_inst :: "nat \<Rightarrow> vault_instance"

definition set_inst :: "nat \<Rightarrow> vault_instance \<Rightarrow> 'r vault_world \<Rightarrow> 'r vault_world" where
  "set_inst i p w = w\<lparr>ww_inst := (ww_inst w)(i := p)\<rparr>"

text \<open>
  The phases of \<^verbatim>\<open>mutate\<close>, with every failure, interleaved over the instances: take the lock; lose
  it to a failed write of the lock file; load, run the operation and be about to write, under the
  own key or, in a rotation, under another one; write; release the lock or fail to. A backup takes
  and releases the lock only. A process may die at any point and start again with any key, and an
  operator may remove a lock when no process is at work.
\<close>

inductive storage_step :: "'r vault_cipher \<Rightarrow> vault_env \<Rightarrow> 'r vault_world \<Rightarrow> 'r vault_world \<Rightarrow> bool" for C E where
  enter: "ww_inst w i = p \<Longrightarrow> vi_phase p = Idle \<Longrightarrow> \<not> vk_lock (ww_disk w)
     \<Longrightarrow> storage_step C E w (set_inst i (p\<lparr>vi_phase := Holding\<rparr>) (w\<lparr>ww_disk := (ww_disk w)\<lparr>vk_lock := True\<rparr>\<rparr>))"
| lock_unwritten: "ww_inst w i = p \<Longrightarrow> vi_phase p = Holding
     \<Longrightarrow> storage_step C E w (set_inst i (p\<lparr>vi_phase := Idle, vi_unconfirmed := True\<rparr>) w)"
| backup_taken: "ww_inst w i = p \<Longrightarrow> vi_phase p = Holding
     \<Longrightarrow> storage_step C E w (set_inst i (p\<lparr>vi_phase := Leaving (vi_key p)\<rparr>) w)"
| operation_fails: "ww_inst w i = p \<Longrightarrow> vi_phase p = Holding \<Longrightarrow> \<not> vi_unconfirmed p
     \<Longrightarrow> load_and_run C fails (vi_key p) (\<lambda>d. case run_call E (vi_key p) c d of Inl e \<Rightarrow> Inl e | Inr d' \<Rightarrow> Inr ((), d')) (ww_disk w) = Inl e
     \<Longrightarrow> storage_step C E w (set_inst i (p\<lparr>vi_phase := Leaving (vi_key p)\<rparr>) w)"
| operation_runs: "ww_inst w i = p \<Longrightarrow> vi_phase p = Holding \<Longrightarrow> \<not> vi_unconfirmed p
     \<Longrightarrow> load_and_run C fails (vi_key p) (\<lambda>d. case run_call E (vi_key p) c d of Inl e \<Rightarrow> Inl e | Inr d' \<Rightarrow> Inr ((), d')) (ww_disk w) = Inr ((), d')
     \<Longrightarrow> key = vi_key p \<or> (\<exists>kr. c = DoRotate kr)
     \<Longrightarrow> storage_step C E w (set_inst i (p\<lparr>vi_phase := Writing key d'\<rparr>) w)"
| write_done: "ww_inst w i = p \<Longrightarrow> vi_phase p = Writing key d' \<Longrightarrow> flush C key iv out d' (ww_disk w) = (Inr (), k')
     \<Longrightarrow> storage_step C E w (set_inst i (p\<lparr>vi_phase := Leaving key\<rparr>) (w\<lparr>ww_disk := k'\<rparr>))"
| write_unconfirmed: "ww_inst w i = p \<Longrightarrow> vi_phase p = Writing key d' \<Longrightarrow> flush C key iv out d' (ww_disk w) = (Inl e, k')
     \<Longrightarrow> storage_step C E w (set_inst i (p\<lparr>vi_phase := Idle, vi_unconfirmed := True\<rparr>) (w\<lparr>ww_disk := k'\<rparr>))"
| leave: "ww_inst w i = p \<Longrightarrow> vi_phase p = Leaving key
     \<Longrightarrow> storage_step C E w (set_inst i (p\<lparr>vi_phase := Idle, vi_key := key\<rparr>) (w\<lparr>ww_disk := (ww_disk w)\<lparr>vk_lock := False\<rparr>\<rparr>))"
| leave_unconfirmed: "ww_inst w i = p \<Longrightarrow> vi_phase p = Leaving key
     \<Longrightarrow> storage_step C E w (set_inst i (p\<lparr>vi_phase := Idle, vi_unconfirmed := True\<rparr>) w)"
| restart: "storage_step C E w (set_inst i \<lparr>vi_key = key, vi_unconfirmed = False, vi_phase = Idle\<rparr> w)"
| lock_removed: "\<forall>i. vi_phase (ww_inst w i) = Idle \<Longrightarrow> storage_step C E w (w\<lparr>ww_disk := (ww_disk w)\<lparr>vk_lock := False\<rparr>\<rparr>)"

definition storage_init :: "'r vault_cipher \<Rightarrow> 'r vault_world \<Rightarrow> bool" where
  "storage_init C w \<longleftrightarrow> cipher_ok C \<and> vk_file (ww_disk w) = None \<and> \<not> vk_lock (ww_disk w) \<and> (\<forall>i. vi_phase (ww_inst w i) = Idle)"

text \<open>At most one process is between taking and releasing the lock, and what it is about to write is a step from the present contents.\<close>

definition storage_rel :: "'r vault_cipher \<Rightarrow> vault_env \<Rightarrow> 'r vault_world \<Rightarrow> vault_data \<Rightarrow> bool" where
  "storage_rel C E w d \<longleftrightarrow> cipher_ok C \<and> contents C (ww_disk w) d
     \<and> (\<forall>i. vi_phase (ww_inst w i) \<noteq> Idle \<longrightarrow> vk_lock (ww_disk w))
     \<and> (\<forall>i j. vi_phase (ww_inst w i) \<noteq> Idle \<longrightarrow> vi_phase (ww_inst w j) \<noteq> Idle \<longrightarrow> i = j)
     \<and> (\<forall>i key d'. vi_phase (ww_inst w i) = Writing key d' \<longrightarrow> vault_step E d d')"

lemma set_inst_parts [simp]: "ww_disk (set_inst i p w) = ww_disk w" "ww_inst (set_inst i p w) = (ww_inst w)(i := p)"
  by (simp_all add: set_inst_def)

lemma flush_lock: "flush C key iv out d k = (r, k') \<Longrightarrow> vk_lock k' = vk_lock k"
  by (auto simp: flush_def writeVaultEnvelope_def split: write_outcome.splits)

lemma run_is_step:
  assumes "storage_rel C E w d"
    and "load_and_run C fails key (\<lambda>d. case run_call E key c d of Inl e \<Rightarrow> Inl e | Inr d' \<Rightarrow> Inr ((), d')) (ww_disk w) = Inr ((), d')"
  shows "vault_step E d d'"
proof -
  have "cipher_ok C" "contents C (ww_disk w) d" using assms(1) by (simp_all add: storage_rel_def)
  from run_contents [OF this assms(2)] obtain d1 where "run_call E key c d = Inr d1" "d' = next_revision d1"
    by (auto split: sum.splits)
  then show ?thesis by (auto intro: vault_stepI)
qed

lemma storage_rel_keep:
  assumes "storage_rel C E w d" "vi_phase (ww_inst w i) \<noteq> Idle \<or> vi_phase p = Idle"
    and "\<And>key d'. vi_phase p = Writing key d' \<Longrightarrow> vault_step E d d'"
  shows "storage_rel C E (set_inst i p w) d"
  using assms by (auto simp: storage_rel_def)

lemma storage_rel_write:
  assumes "storage_rel C E w d" "vi_phase (ww_inst w i) \<noteq> Idle" "vi_phase p = Idle \<or> vi_phase p = Leaving key"
    "contents C k' d'" "vk_lock k' = vk_lock (ww_disk w)"
  shows "storage_rel C E (set_inst i p (w\<lparr>ww_disk := k'\<rparr>)) d'"
proof -
  have "vi_phase (ww_inst w j) = Idle" if "j \<noteq> i" for j using assms(1,2) that by (auto simp: storage_rel_def)
  then show ?thesis using assms by (auto simp: storage_rel_def)
qed

lemma storage_simulation:
  assumes "storage_step C E w w'" "storage_rel C E w d"
  shows "\<exists>d'. storage_rel C E w' d' \<and> (d' = d \<or> vault_step E d d')"
  using assms
proof (induction rule: storage_step.induct)
  case (enter w i p)
  then have "\<forall>j. vi_phase (ww_inst w j) = Idle" by (auto simp: storage_rel_def)
  with enter show ?case by (auto simp: storage_rel_def intro!: exI [of _ d])
next
  case (operation_runs w i p fails c d' key)
  then show ?case using run_is_step [OF operation_runs.prems operation_runs.hyps(4)]
    by (intro exI [of _ d] conjI storage_rel_keep) auto
next
  case (write_done w i p key d' iv out k')
  then have "vault_step E d d'" by (auto simp: storage_rel_def)
  moreover have "contents C k' d'" using write_done.hyps(3) by (auto elim!: flush_cases)
  ultimately show ?case using write_done flush_lock [OF write_done.hyps(3)]
    by (intro exI [of _ d'] conjI storage_rel_write) auto
next
  case (write_unconfirmed w i p key d' iv out e k')
  then have s: "vault_step E d d'" by (auto simp: storage_rel_def)
  note l = flush_lock [OF write_unconfirmed.hyps(3)]
  from write_unconfirmed.hyps(3) show ?case
  proof (cases rule: flush_cases)
    case 2
    then show ?thesis using write_unconfirmed l by (intro exI [of _ d] conjI storage_rel_write) (auto simp: storage_rel_def)
  next
    case 3
    then show ?thesis using write_unconfirmed l s by (intro exI [of _ d'] conjI storage_rel_write) auto
  qed simp
next
  case (leave w i p key)
  then have "\<forall>j. j \<noteq> i \<longrightarrow> vi_phase (ww_inst w j) = Idle" by (auto simp: storage_rel_def)
  with leave show ?case by (auto simp: storage_rel_def intro!: exI [of _ d])
next
  case (lock_removed w)
  then show ?case by (auto simp: storage_rel_def intro!: exI [of _ d])
qed (intro exI [of _ d] conjI storage_rel_keep; auto)+

interpretation vault_storage: forward_simulation "storage_init C" "storage_step C E" "\<lambda>d. d = empty_vault" "vault_step E" "storage_rel C E"
  for C E
proof unfold_locales
  show "\<exists>d. storage_rel C E w d \<and> d = empty_vault" if "storage_init C w" for w
    using that by (auto simp: storage_init_def storage_rel_def contents_def)
qed (auto intro: storage_simulation)

text \<open>C3. 
  The encrypted file refines the abstract vault. However the phases of the processes interleave,
  and whatever writes fail, processes die and locks are cleared by hand while nobody works, the
  file always holds the data that some sequence of complete calls produces from the empty vault;
  in particular no update of one process is lost to another.
\<close>
theorem storage_refines_vault:
  assumes "reachable (storage_init C) (storage_step C E) w"
  shows "\<exists>d. contents C (ww_disk w) d \<and> vault_reachable E d
    \<and> (\<forall>w'. (storage_step C E)\<^sup>*\<^sup>* w w' \<longrightarrow> (\<exists>d'. contents C (ww_disk w') d' \<and> (vault_step E)\<^sup>*\<^sup>* d d'))"
proof -
  from vault_storage.simulated [OF assms] obtain d where d: "storage_rel C E w d" "vault_reachable E d" by blast
  have "\<exists>d'. contents C (ww_disk w') d' \<and> (vault_step E)\<^sup>*\<^sup>* d d'" if "(storage_step C E)\<^sup>*\<^sup>* w w'" for w'
    using vault_storage.run_simulated [OF that d(1)] by (auto simp: storage_rel_def)
  with d show ?thesis by (auto simp: storage_rel_def)
qed

section \<open>Backup and restore\<close>

record 'r backup_file =
  bf_manifest :: backup_manifest
  bf_envelope :: 'r
  bf_authentication :: string

record commitment_observation =
  co_recordId :: string
  co_walletAddress :: string
  co_evidenceHash :: string
  co_claimsRoot :: "string option"
  co_sourceTransactionHash :: "string option"

record restore_requirements =
  rq_expectedBackupId :: string
  rq_expectedStateCommitment :: string
  rq_minimumRevision :: int
  rq_commitments :: "commitment_observation list"
  rq_erasedRecordIds :: "string list"

text \<open>The earliest deadline of a record that is bound to a policy.\<close>

definition policy_deadlines :: "vault_data \<Rightarrow> int list" where
  "policy_deadlines d = map (retentionDeadline d) (filter (\<lambda>r. vr_retentionPolicy r \<noteq> None) (map snd (vd_records d)))"

definition backup_delete_by :: "vault_data \<Rightarrow> int option" where
  "backup_delete_by d = (case policy_deadlines d of [] \<Rightarrow> None | t # ts \<Rightarrow> Some (foldl min t ts))"

definition backup_manifest_of :: "'r vault_cipher \<Rightarrow> string \<Rightarrow> int \<Rightarrow> string \<Rightarrow> 'r \<Rightarrow> vault_data \<Rightarrow> backup_manifest" where
  "backup_manifest_of C backupId at key raw d = \<lparr>bm_version = 1, bm_backupId = backupId, bm_createdAt = at, bm_revision = vd_revision d,
     bm_stateCommitment = vc_commitment C d, bm_ciphertextHash = vc_hash C raw, bm_keyId = vc_keyId C key,
     bm_deleteBy = Given (backup_delete_by d)\<rparr>"

definition backup_file_of :: "'r vault_cipher \<Rightarrow> string \<Rightarrow> int \<Rightarrow> string \<Rightarrow> 'r \<Rightarrow> vault_data \<Rightarrow> 'r backup_file" where
  "backup_file_of C backupId at key raw d =
     (let m = backup_manifest_of C backupId at key raw d in
      \<lparr>bf_manifest = m, bf_envelope = raw, bf_authentication = vc_mac C key (m, raw)\<rparr>)"

text \<open>
  The read and the write of the backup under the lock. The last component is the file at the
  backup path; \<open>out\<close> says how its exclusive creation ends.
\<close>

definition take_backup :: "'r vault_cipher \<Rightarrow> bool \<Rightarrow> write_outcome \<Rightarrow> string \<Rightarrow> int \<Rightarrow> string \<Rightarrow> 'r vault_disk \<Rightarrow> 'r backup_file option
    \<Rightarrow> (vault_error + backup_manifest) \<times> 'r backup_file option" where
  "take_backup C fails out backupId at key k old = (case vk_file k of None \<Rightarrow> (Inl FileError, old)
     | Some raw \<Rightarrow>
       if fails then (Inl FileError, old)
       else (case decryptVaultData C raw key of Inl e \<Rightarrow> (Inl e, old)
         | Inr d \<Rightarrow> let b = backup_file_of C backupId at key raw d in
             (case (old, out) of
                (None, Written) \<Rightarrow> (Inr (bf_manifest b), Some b)
              | (None, RenamedUnsynced) \<Rightarrow> (Inl (VaultBackupError ''VAULT_BACKUP_UNCONFIRMED''), Some b)
              | (old, _) \<Rightarrow> (Inl (VaultBackupError ''VAULT_BACKUP_UNCONFIRMED''), old))))"

definition createBackup :: "'r vault_cipher \<Rightarrow> vault_faults \<Rightarrow> write_outcome \<Rightarrow> bool \<Rightarrow> string \<Rightarrow> int \<Rightarrow> 'r vault_disk \<Rightarrow> vault_instance \<Rightarrow> 'r backup_file option
    \<Rightarrow> (vault_error + backup_manifest) \<times> 'r backup_file option \<times> 'r vault_disk \<times> vault_instance" where
  "createBackup C F out samePath backupId at k p old =
     (if \<not> timestamp at then (Inl bad_timestamp, old, k, p)
      else if samePath then (Inl (VaultBackupError ''VAULT_BACKUP_PATH_INVALID''), old, k, p)
      else if vk_file k = None then (Inl (VaultBackupError ''VAULT_BACKUP_SOURCE_MISSING''), old, k, p)
      else if fl_mkdir F \<or> fl_open F then (Inl FileError, old, k, p)
      else if vk_lock k then (Inl VaultBusyError, old, k, p)
      else let k1 = k\<lparr>vk_lock := True\<rparr> in
        if fl_lockWrite F then (case leave_lock F True (Inl VaultWriteError) k1 (p\<lparr>vi_unconfirmed := True\<rparr>) of (r, k', p') \<Rightarrow> (r, old, k', p'))
        else (case take_backup C (fl_read F) out backupId at (vi_key p) k1 old of
          (r, b) \<Rightarrow> (case leave_lock F False r k1 p of (r', k', p') \<Rightarrow> (r', b, k', p'))))"

definition hex_text :: "nat \<Rightarrow> string \<Rightarrow> bool" where
  "hex_text n s \<longleftrightarrow> length s = n \<and> list_all lower_hex_digit s"

definition backup_authentic :: "'r vault_cipher \<Rightarrow> string \<Rightarrow> 'r backup_file \<Rightarrow> bool" where
  "backup_authentic C key b \<longleftrightarrow>
     (let m = bf_manifest b in
      bm_version m = 1 \<and> hex_text 32 (bm_backupId m) \<and> integer0 (bm_createdAt m) \<and> integer0 (bm_revision m)
      \<and> hex_text 64 (bm_stateCommitment m) \<and> hex_text 64 (bm_ciphertextHash m) \<and> hex_text 64 (bm_keyId m)
      \<and> (case bm_deleteBy m of Absent \<Rightarrow> True | Malformed \<Rightarrow> False
         | Given None \<Rightarrow> True | Given (Some t) \<Rightarrow> safe_integer t \<and> bm_createdAt m \<le> t)
      \<and> hex_text 64 (bf_authentication b) \<and> bf_authentication b = vc_mac C key (m, bf_envelope b)
      \<and> bm_keyId m = vc_keyId C key \<and> vc_hash C (bf_envelope b) = bm_ciphertextHash m)"

definition requirements_met :: "'r vault_cipher \<Rightarrow> restore_requirements \<Rightarrow> backup_manifest \<Rightarrow> vault_data \<Rightarrow> bool" where
  "requirements_met C rq m d \<longleftrightarrow>
     rq_expectedBackupId rq = bm_backupId m \<and> rq_expectedStateCommitment rq = bm_stateCommitment m
     \<and> integer0 (rq_minimumRevision rq) \<and> rq_minimumRevision rq \<le> bm_revision m \<and> vc_commitment C d = bm_stateCommitment m
     \<and> vd_revision d = bm_revision m \<and> list_all (\<lambda>i. i \<noteq> [] \<and> length i \<le> 256) (rq_erasedRecordIds rq) \<and> distinct (rq_erasedRecordIds rq)"

definition commitment_matches :: "vault_data \<Rightarrow> commitment_observation \<Rightarrow> bool" where
  "commitment_matches d co \<longleftrightarrow> co_recordId co \<noteq> [] \<and> (case obj_get (vd_records d) (co_recordId co) of None \<Rightarrow> False
     | Some r \<Rightarrow> same_hex (vr_walletAddress r) (co_walletAddress co) \<and> same_hex (vr_evidenceHash r) (co_evidenceHash co)
        \<and> (case co_claimsRoot co of None \<Rightarrow> True
           | Some c \<Rightarrow> (case vr_claimsRoot r of None \<Rightarrow> False | Some c' \<Rightarrow> c' \<noteq> [] \<and> same_hex c' c))
        \<and> (case co_sourceTransactionHash co of None \<Rightarrow> True
           | Some h \<Rightarrow> (case vr_sourceIssuance r of None \<Rightarrow> False | Some s \<Rightarrow> same_hex (si_transactionHash s) h)))"

text \<open>The checks before anything is written.\<close>

definition check_backup :: "'r vault_cipher \<Rightarrow> string \<Rightarrow> 'r backup_file option \<Rightarrow> restore_requirements \<Rightarrow> int \<Rightarrow> vault_error + vault_data" where
  "check_backup C key bf rq now = (case bf of None \<Rightarrow> Inl (VaultRestoreError ''VAULT_BACKUP_UNREADABLE'')
     | Some b \<Rightarrow>
       if \<not> backup_authentic C key b then Inl (VaultRestoreError ''VAULT_BACKUP_AUTHENTICATION_FAILED'')
       else (case decryptVaultData C (bf_envelope b) key of Inl e \<Rightarrow> Inl (VaultRestoreError ''VAULT_BACKUP_AUTHENTICATION_FAILED'')
         | Inr d \<Rightarrow>
           if \<not> requirements_met C rq (bf_manifest b) d then Inl (VaultRestoreError ''VAULT_RESTORE_REQUIREMENTS_MISMATCH'')
           else if (case bm_deleteBy (bf_manifest b) of Given (Some t) \<Rightarrow> t \<le> now | _ \<Rightarrow> False) then Inl (VaultRestoreError ''VAULT_BACKUP_EXPIRED'')
           else if list_ex (\<lambda>i. obj_get (vd_records d) i \<noteq> None) (rq_erasedRecordIds rq) then Inl (VaultRestoreError ''VAULT_ERASURE_FLOOR_VIOLATION'')
           else if \<not> list_all (commitment_matches d) (rq_commitments rq) then Inl (VaultRestoreError ''VAULT_ONCHAIN_COMMITMENT_MISMATCH'')
           else Inr d))"

text \<open>The \<^verbatim>\<open>finally\<close> block of the restore replaces every error by its own when the lock is retained.\<close>

definition restore_leave :: "vault_faults \<Rightarrow> bool \<Rightarrow> vault_error + 'a \<Rightarrow> 'r vault_disk \<Rightarrow> (vault_error + 'a) \<times> 'r vault_disk" where
  "restore_leave F retain res k =
     (if fl_close F \<or> retain \<or> fl_unlink F then (Inl (VaultRestoreError ''VAULT_RESTORE_WRITE_UNCONFIRMED''), k)
      else (res, k\<lparr>vk_lock := False\<rparr>))"

definition restoreBackup :: "'r vault_cipher \<Rightarrow> vault_faults \<Rightarrow> bool \<Rightarrow> string \<Rightarrow> 'r backup_file option \<Rightarrow> restore_requirements \<Rightarrow> int \<Rightarrow> 'r vault_disk
    \<Rightarrow> (vault_error + backup_manifest \<times> nat) \<times> 'r vault_disk" where
  "restoreBackup C F samePath secret bf rq now k =
     (if samePath \<or> vk_file k \<noteq> None then (Inl (VaultRestoreError ''VAULT_RESTORE_DESTINATION_NOT_EMPTY''), k)
      else case deriveVaultKey C secret of Inl e \<Rightarrow> (Inl e, k)
      | Inr key \<Rightarrow> (case check_backup C key bf rq now of Inl e \<Rightarrow> (Inl e, k)
        | Inr d \<Rightarrow>
          if fl_mkdir F \<or> fl_open F then (Inl FileError, k)
          else if vk_lock k then (Inl VaultBusyError, k)
          else let k1 = k\<lparr>vk_lock := True\<rparr>; b = the bf; m = bf_manifest b in
            if fl_lockWrite F then restore_leave F False (Inl FileError) k1
            else (case writeVaultEnvelopeExclusive (fl_write F) (bf_envelope b) (vk_file k1) of
                (Inl e, t) \<Rightarrow> restore_leave F True (Inl e) (k1\<lparr>vk_file := t\<rparr>)
              | (Inr _, t) \<Rightarrow>
                let k2 = k1\<lparr>vk_file := t\<rparr> in
                case vault_load C (fl_read F) key k2 of Inl e \<Rightarrow> restore_leave F False (Inl e) k2
                | Inr restored \<Rightarrow>
                  if vc_commitment C restored \<noteq> bm_stateCommitment m then restore_leave F True (Inl (VaultRestoreError ''VAULT_RESTORE_VERIFY_FAILED'')) k2
                  else restore_leave F False (Inr (m, length (rq_commitments rq))) k2)))"

lemma foldl_min: "foldl min t ts \<in> set (t # ts)" "x \<in> set (t # ts) \<Longrightarrow> foldl min t ts \<le> (x :: int)"
proof -
  have "foldl min t ts \<in> set (t # ts) \<and> (\<forall>x \<in> set (t # ts). foldl min t ts \<le> x)"
  proof (induction ts arbitrary: t)
    case (Cons a ts)
    from Cons.IH [of "min t a"] show ?case by (auto simp: min_def split: if_splits)
  qed simp
  then show "foldl min t ts \<in> set (t # ts)" "x \<in> set (t # ts) \<Longrightarrow> foldl min t ts \<le> x" by blast+
qed

lemma delete_by_None: "backup_delete_by d = None \<longleftrightarrow> policy_deadlines d = []"
  by (simp add: backup_delete_by_def split: list.splits)

lemma delete_by_Some:
  assumes "backup_delete_by d = Some t"
  shows "t \<in> set (policy_deadlines d)" "x \<in> set (policy_deadlines d) \<Longrightarrow> t \<le> x"
proof -
  obtain a ts where "policy_deadlines d = a # ts" "t = foldl min a ts"
    using assms by (auto simp: backup_delete_by_def split: list.splits)
  then show "t \<in> set (policy_deadlines d)" "x \<in> set (policy_deadlines d) \<Longrightarrow> t \<le> x" using foldl_min by metis+
qed

text \<open>What a backup that was taken is.\<close>

lemma createBackup_Inr:
  assumes "cipher_ok C" "contents C k d" "createBackup C F out samePath bid at k p old = (Inr m, b', k', p')"
  obtains raw b where "vk_file k = Some raw" "decryptVaultData C raw (vi_key p) = Inr d" "b = backup_file_of C bid at (vi_key p) raw d"
    "b' = Some b" "m = bf_manifest b" "integer0 at" "k' = k"
proof -
  from assms(3) obtain raw d2 where 1: "vk_file k = Some raw" "decryptVaultData C raw (vi_key p) = Inr d2"
    "b' = Some (backup_file_of C bid at (vi_key p) raw d2)" "m = bf_manifest (backup_file_of C bid at (vi_key p) raw d2)" "integer0 at"
    "k' = k\<lparr>vk_lock := False\<rparr>" "\<not> vk_lock k"
    by (auto simp: createBackup_def Let_def take_backup_def leave_lock_def timestamp_def split: if_splits sum.splits prod.splits option.splits
        write_outcome.splits)
  have "vault_load C False (vi_key p) k = Inr d2" using 1(1,2) by (simp add: vault_load_def)
  then have "d2 = d" by (rule load_contents [OF assms(1,2)])
  with 1 show thesis by (intro that) (simp_all add: unlock_locked)
qed

definition digests_ok :: "'r vault_cipher \<Rightarrow> bool" where
  "digests_ok C \<longleftrightarrow> (\<forall>d. hex_text 64 (vc_commitment C d)) \<and> (\<forall>x. hex_text 64 (vc_hash C x)) \<and> (\<forall>k. hex_text 64 (vc_keyId C k))
     \<and> (\<forall>k x. hex_text 64 (vc_mac C k x))"

definition no_faults :: "vault_faults \<Rightarrow> bool" where
  "no_faults F \<longleftrightarrow> \<not> fl_mkdir F \<and> \<not> fl_open F \<and> \<not> fl_lockWrite F \<and> \<not> fl_read F \<and> fl_write F = Written \<and> \<not> fl_close F \<and> \<not> fl_unlink F"

lemma decrypt_revision: "decryptVaultData C raw key = Inr d \<Longrightarrow> integer0 (vd_revision d)"
  by (auto simp: decryptVaultData_def integer_min_def safe_integer_def split: option.splits if_splits field.splits)

text \<open>C33. 
  A backup restores. What \<^verbatim>\<open>createBackup\<close> wrote is accepted by \<^verbatim>\<open>restoreBackup\<close> in an empty place, under
  the same secret, when the requirements name this backup and its state, the erased records are
  not in it, the observed commitments match, and every deadline of a policy-bound record lies
  after the backup and after the restore; the restored file then holds the same data.
\<close>
theorem backup_restores:
  assumes "cipher_ok C" "digests_ok C" "contents C k d"
    and backup: "createBackup C F out False bid at k p None = (Inr m, Some b, k', p')" "hex_text 32 bid"
    and place: "vk_file k2 = None" "\<not> vk_lock k2" "no_faults F2" "deriveVaultKey C secret = Inr (vi_key p)"
    and asked: "rq_expectedBackupId rq = bid" "rq_expectedStateCommitment rq = vc_commitment C d"
      "integer0 (rq_minimumRevision rq)" "rq_minimumRevision rq \<le> vd_revision d"
      "list_all (\<lambda>i. i \<noteq> [] \<and> length i \<le> 256 \<and> vault_get i d = None) (rq_erasedRecordIds rq)" "distinct (rq_erasedRecordIds rq)"
      "list_all (commitment_matches d) (rq_commitments rq)"
    and due: "list_all (\<lambda>t. safe_integer t \<and> at \<le> t \<and> now < t) (policy_deadlines d)"
  shows "\<exists>k3. restoreBackup C F2 False secret (Some b) rq now k2 = (Inr (m, length (rq_commitments rq)), k3)
    \<and> contents C k3 d \<and> \<not> vk_lock k3"
proof -
  obtain raw where raw: "vk_file k = Some raw" "decryptVaultData C raw (vi_key p) = Inr d"
    "b = backup_file_of C bid at (vi_key p) raw d" "m = bf_manifest b" "integer0 at"
    using createBackup_Inr [OF assms(1,3) backup(1)] by auto
  have b: "bf_manifest b = backup_manifest_of C bid at (vi_key p) raw d" "bf_envelope b = raw"
    "bf_authentication b = vc_mac C (vi_key p) (backup_manifest_of C bid at (vi_key p) raw d, raw)"
    by (simp_all add: raw(3) backup_file_of_def Let_def)
  have db: "safe_integer t \<and> at \<le> t \<and> now < t" if "backup_delete_by d = Some t" for t
    using delete_by_Some(1) [OF that] due by (auto simp: list_all_iff)
  have "backup_authentic C (vi_key p) b"
    using assms(2) backup(2) raw(5) decrypt_revision [OF raw(2)] db
    by (auto simp: backup_authentic_def b Let_def backup_manifest_of_def digests_ok_def split: option.splits)
  moreover have "requirements_met C rq (bf_manifest b) d"
    using asked by (auto simp: requirements_met_def b backup_manifest_of_def list_all_iff)
  moreover have "\<not> list_ex (\<lambda>i. obj_get (vd_records d) i \<noteq> None) (rq_erasedRecordIds rq)"
    using asked(5) by (auto simp: list_all_iff list_ex_iff vault_get_def)
  moreover have "\<not> (case bm_deleteBy (bf_manifest b) of Given (Some t) \<Rightarrow> t \<le> now | _ \<Rightarrow> False)"
    using db by (auto simp: b backup_manifest_of_def split: option.splits)
  ultimately have "check_backup C (vi_key p) (Some b) rq now = Inr d"
    using raw(2) asked(7) by (simp add: check_backup_def b(2))
  moreover have "vc_commitment C d = bm_stateCommitment (bf_manifest b)" by (simp add: b backup_manifest_of_def)
  moreover have "contents C (k2\<lparr>vk_file := Some raw\<rparr>) d" using assms(3) raw(1) by (simp add: contents_def)
  ultimately show ?thesis
    using place raw(2,4) by (simp add: restoreBackup_def no_faults_def Let_def writeVaultEnvelopeExclusive_def vault_load_def restore_leave_def b(2))
qed

text \<open>C34. 
  A restore respects what was required from outside. If \<^verbatim>\<open>restoreBackup\<close> returns, the place was
  empty, the file now opens under the secret to data of the expected state and at least the
  required revision, none of the records known to be erased is in it, every observed commitment
  matches a record, and the backup carried a valid authentication code and had not expired.
\<close>
theorem restore_respects_requirements:
  assumes "restoreBackup C F samePath secret bf rq now k = (Inr (m, n), k')"
  shows "\<exists>b key d. bf = Some b \<and> deriveVaultKey C secret = Inr key \<and> bf_authentication b = vc_mac C key (bf_manifest b, bf_envelope b)
    \<and> vk_file k = None \<and> vk_file k' = Some (bf_envelope b) \<and> \<not> vk_lock k' \<and> decryptVaultData C (bf_envelope b) key = Inr d
    \<and> vc_commitment C d = rq_expectedStateCommitment rq \<and> rq_minimumRevision rq \<le> vd_revision d
    \<and> (\<forall>i \<in> set (rq_erasedRecordIds rq). vault_get i d = None)
    \<and> (\<forall>co \<in> set (rq_commitments rq). commitment_matches d co)
    \<and> (\<forall>t. bm_deleteBy (bf_manifest b) = Given (Some t) \<longrightarrow> now < t)"
proof -
  from assms obtain key d where 1: "deriveVaultKey C secret = Inr key" "check_backup C key bf rq now = Inr d" "vk_file k = None"
    by (auto simp: restoreBackup_def split: if_splits sum.splits)
  then obtain b where b: "bf = Some b" by (cases bf) (auto simp: check_backup_def)
  with assms 1 have "vk_file k' = Some (bf_envelope b)" "\<not> vk_lock k'"
    by (auto simp: restoreBackup_def Let_def restore_leave_def writeVaultEnvelopeExclusive_def split: if_splits sum.splits write_outcome.splits)
  moreover from 1(2) b have "backup_authentic C key b" "decryptVaultData C (bf_envelope b) key = Inr d" "requirements_met C rq (bf_manifest b) d"
    "list_all (commitment_matches d) (rq_commitments rq)" "\<not> list_ex (\<lambda>i. obj_get (vd_records d) i \<noteq> None) (rq_erasedRecordIds rq)"
    "\<not> (case bm_deleteBy (bf_manifest b) of Given (Some t) \<Rightarrow> t \<le> now | _ \<Rightarrow> False)"
    by (auto simp: check_backup_def split: if_splits sum.splits)
  ultimately show ?thesis using 1 b
    by (auto simp: backup_authentic_def Let_def requirements_met_def list_all_iff list_ex_iff vault_get_def split: if_splits)
qed

text \<open>C35. 
  A record past its deadline spoils every backup. When a policy-bound record is still in the vault
  after its deadline, for instance under a legal hold, a backup can be taken, but its own
  \<^verbatim>\<open>deleteBy\<close> precedes its creation, and no restore accepts it, whatever is required.
\<close>
theorem overdue_record_spoils_backup:
  assumes "cipher_ok C" "contents C k d" "createBackup C F out False bid at k p None = (Inr m, Some b, k', p')"
    and "t \<in> set (policy_deadlines d)" "t < at"
  shows "\<exists>e. restoreBackup C F2 samePath secret (Some b) rq now k2 = (Inl e, k2)"
proof -
  obtain raw where raw: "b = backup_file_of C bid at (vi_key p) raw d"
    using createBackup_Inr [OF assms(1-3)] by auto
  obtain t' where t': "backup_delete_by d = Some t'" using assms(4) delete_by_None [of d] by (cases "backup_delete_by d") auto
  then have "t' < at" using delete_by_Some(2) [OF t' assms(4)] assms(5) by simp
  then have "\<not> backup_authentic C key b" for key
    using t' by (simp add: raw backup_authentic_def backup_file_of_def backup_manifest_of_def Let_def)
  then show ?thesis by (auto simp: restoreBackup_def check_backup_def split: sum.splits)
qed

section \<open>An example\<close>

text \<open>A cipher whose envelopes are the sealed values themselves.\<close>

definition sample_hex64 :: string where
  "sample_hex64 = replicate 64 CHR ''a''"

definition sample_cipher :: "(string \<times> string \<times> vault_data) vault_cipher" where
  "sample_cipher = \<lparr>vc_version = (\<lambda>r. Some 1), vc_open = (\<lambda>k (k', iv, d). if k = k' then Some (plain_of d) else None),
     vc_seal = (\<lambda>k iv d. (k, iv, d)), vc_derive = (\<lambda>s. s), vc_keyId = (\<lambda>k. sample_hex64), vc_commitment = (\<lambda>d. sample_hex64),
     vc_hash = (\<lambda>r. sample_hex64), vc_mac = (\<lambda>k x. sample_hex64)\<rparr>"

lemma sample_cipher_ok: "cipher_ok sample_cipher"
  by (simp add: cipher_ok_def sample_cipher_def)

lemma sample_digests_ok: "digests_ok sample_cipher"
proof -
  have "hex_text 64 sample_hex64" by code_simp
  then show ?thesis by (simp add: digests_ok_def sample_cipher_def)
qed

definition sample_secret :: string where
  "sample_secret = replicate 32 CHR ''k''"

definition quiet :: vault_faults where
  "quiet = \<lparr>fl_mkdir = False, fl_open = False, fl_lockWrite = False, fl_read = False, fl_write = Written, fl_close = False, fl_unlink = False, fl_iv = []\<rparr>"

definition sample_instance :: vault_instance where
  "sample_instance = \<lparr>vi_key = sample_secret, vi_unconfirmed = False, vi_phase = Idle\<rparr>"

definition sample_disk :: "vault_data \<Rightarrow> (string \<times> string \<times> vault_data) vault_disk" where
  "sample_disk d = \<lparr>vk_file = Some (sample_secret, [], d), vk_lock = False\<rparr>"

definition blank_disk :: "(string \<times> string \<times> vault_data) vault_disk" where
  "blank_disk = \<lparr>vk_file = None, vk_lock = False\<rparr>"

lemma sample_contents: "contents sample_cipher (sample_disk d) d" "contents sample_cipher blank_disk empty_vault"
  by (simp_all add: contents_def sample_disk_def blank_disk_def sample_cipher_def)

theorem mutate_is_atomic_witness:
  "\<exists>x k' d'. mutate sample_cipher quiet (vault_put sample_record) sample_secret blank_disk sample_instance = (Inr x, k', sample_instance)
    \<and> vault_put sample_record empty_vault = Inr (x, d') \<and> contents sample_cipher k' (next_revision d')"
proof -
  let ?m = "mutate sample_cipher quiet (vault_put sample_record) sample_secret blank_disk sample_instance"
  have "\<not> isl (fst ?m)" by code_simp
  then obtain x k' p' where m: "?m = (Inr x, k', p')" by (cases ?m; cases "fst ?m") auto
  from mutate_is_atomic [OF sample_cipher_ok sample_contents(2) m] m show ?thesis by auto
qed

theorem acquireLock_terminates_witness:
  "\<exists>r. acquireLock (\<lambda>n. LockExists) 0 5 int = Some r \<and> lock_answer (\<lambda>n. LockExists) int (0 + 5) 0 r"
  by (rule acquireLock_terminates) simp

text \<open>A process takes the lock, runs \<open>put\<close> on the empty vault and writes the file.\<close>

definition sample_put :: "unit vault_op" where
  "sample_put d = (case run_call sample_env sample_secret (DoPut sample_record) d of Inl e \<Rightarrow> Inl e | Inr d' \<Rightarrow> Inr ((), d'))"

theorem storage_refines_vault_witness:
  "\<exists>d d' (w' :: (string \<times> string \<times> vault_data) vault_world). load_and_run sample_cipher False sample_secret sample_put (blank_disk\<lparr>vk_lock := True\<rparr>) = Inr ((), d')
    \<and> vk_file (ww_disk w') = Some (sample_secret, [], d') \<and> vk_lock (ww_disk w')
    \<and> contents sample_cipher blank_disk d \<and> (\<exists>x. contents sample_cipher (ww_disk w') x \<and> (vault_step sample_env)\<^sup>*\<^sup>* d x)"
proof -
  let ?w = "\<lparr>ww_disk = blank_disk, ww_inst = (\<lambda>i. sample_instance)\<rparr>"
  let ?at = "\<lambda>ph k. \<lparr>ww_disk = k, ww_inst = (\<lambda>i. sample_instance)(i0 := sample_instance\<lparr>vi_phase := ph\<rparr>)\<rparr>"
  let ?locked = "blank_disk\<lparr>vk_lock := True\<rparr>"
  have "\<not> isl (load_and_run sample_cipher False sample_secret sample_put ?locked)" by code_simp
  then obtain d' where l: "load_and_run sample_cipher False sample_secret sample_put ?locked = Inr ((), d')"
    by (cases "load_and_run sample_cipher False sample_secret sample_put ?locked") auto
  let ?step = "storage_step sample_cipher sample_env"
  have "?step ?w (?at Holding ?locked)"
    using enter [of ?w i0 sample_instance sample_cipher sample_env] by (simp add: set_inst_def sample_instance_def blank_disk_def)
  moreover have "?step (?at Holding ?locked) (?at (Writing sample_secret d') ?locked)"
    using operation_runs [of "?at Holding ?locked" i0 "sample_instance\<lparr>vi_phase := Holding\<rparr>" sample_cipher False sample_env "DoPut sample_record" d' sample_secret]
      l [unfolded sample_put_def] by (simp add: set_inst_def sample_instance_def)
  moreover have "?step (?at (Writing sample_secret d') ?locked) (?at (Leaving sample_secret) (?locked\<lparr>vk_file := Some (sample_secret, [], d')\<rparr>))"
    using write_done [of "?at (Writing sample_secret d') ?locked" i0 "sample_instance\<lparr>vi_phase := Writing sample_secret d'\<rparr>" sample_secret d'
        sample_cipher "[]" Written "?locked\<lparr>vk_file := Some (sample_secret, [], d')\<rparr>" sample_env]
    by (simp add: set_inst_def sample_instance_def flush_def writeVaultEnvelope_def sample_cipher_def blank_disk_def)
  ultimately have run: "?step\<^sup>*\<^sup>* ?w (?at (Leaving sample_secret) (?locked\<lparr>vk_file := Some (sample_secret, [], d')\<rparr>))" by auto
  let ?v = "?at (Leaving sample_secret) (?locked\<lparr>vk_file := Some (sample_secret, [], d')\<rparr>)"
  have "storage_init sample_cipher ?w" using sample_cipher_ok by (simp add: storage_init_def blank_disk_def sample_instance_def)
  then have "reachable (storage_init sample_cipher) ?step ?w" by (rule reachable.reachable_init)
  from storage_refines_vault [OF this] run obtain d x where d: "contents sample_cipher blank_disk d"
    "contents sample_cipher (ww_disk ?v) x" "(vault_step sample_env)\<^sup>*\<^sup>* d x" by auto
  show ?thesis
  proof (intro exI conjI)
    show "load_and_run sample_cipher False sample_secret sample_put ?locked = Inr ((), d')" by (rule l)
    show "contents sample_cipher (ww_disk ?v) x" by (rule d(2))
    show "(vault_step sample_env)\<^sup>*\<^sup>* d x" by (rule d(3))
  qed (use d(1) in simp_all)
qed

definition sample_requirements :: restore_requirements where
  "sample_requirements = \<lparr>rq_expectedBackupId = replicate 32 CHR ''b'', rq_expectedStateCommitment = sample_hex64, rq_minimumRevision = 0,
     rq_commitments = [], rq_erasedRecordIds = [''gone'']\<rparr>"

abbreviation sample_backup :: "vault_data \<Rightarrow> int \<Rightarrow> (vault_error + backup_manifest) \<times> (string \<times> string \<times> vault_data) backup_file option \<times>
    (string \<times> string \<times> vault_data) vault_disk \<times> vault_instance" where
  "sample_backup d at \<equiv> createBackup sample_cipher quiet Written False (replicate 32 CHR ''b'') at (sample_disk d) sample_instance None"

lemma sample_backup_taken:
  assumes "\<not> isl (fst (sample_backup d at))" "fst (snd (sample_backup d at)) \<noteq> None"
  obtains m b k' p' where "sample_backup d at = (Inr m, Some b, k', p')"
proof (cases "sample_backup d at")
  case (fields r b k' p')
  with assms show thesis by (cases r; cases b) (auto intro: that)
qed

theorem backup_restores_witness:
  "\<exists>b n k3. fst (snd (sample_backup empty_vault 5)) = Some b
    \<and> restoreBackup sample_cipher quiet False sample_secret (Some b) sample_requirements 6 blank_disk = (Inr n, k3)
    \<and> contents sample_cipher k3 empty_vault"
proof -
  have "\<not> isl (fst (sample_backup empty_vault 5))" "fst (snd (sample_backup empty_vault 5)) \<noteq> None" by code_simp+
  then obtain m b k' p' where b: "sample_backup empty_vault 5 = (Inr m, Some b, k', p')" by (rule sample_backup_taken)
  have h: "hex_text 32 (replicate 32 CHR ''b'')" "deriveVaultKey sample_cipher sample_secret = Inr (vi_key sample_instance)"
    "list_all (\<lambda>i. i \<noteq> [] \<and> length i \<le> 256 \<and> vault_get i empty_vault = None) (rq_erasedRecordIds sample_requirements)"
    "list_all (\<lambda>t. safe_integer t \<and> 5 \<le> t \<and> 6 < t) (policy_deadlines empty_vault)" "integer0 (rq_minimumRevision sample_requirements)" by code_simp+
  have f: "no_faults quiet" by (simp add: no_faults_def quiet_def)
  have c: "rq_expectedStateCommitment sample_requirements = vc_commitment sample_cipher empty_vault"
    by (simp add: sample_requirements_def sample_cipher_def)
  have "\<exists>k3. restoreBackup sample_cipher quiet False sample_secret (Some b) sample_requirements 6 blank_disk
      = (Inr (m, length (rq_commitments sample_requirements)), k3) \<and> contents sample_cipher k3 empty_vault \<and> \<not> vk_lock k3"
    using h(5) c
    by (intro backup_restores [OF sample_cipher_ok sample_digests_ok sample_contents(1) b h(1) _ _ f h(2) _ _ _ _ h(3) _ _ h(4)])
      (simp_all add: sample_requirements_def blank_disk_def empty_vault_def)
  with b show ?thesis by auto
qed

theorem restore_respects_requirements_witness:
  "\<exists>b k' n. fst (snd (sample_backup empty_vault 5)) = Some b
    \<and> restoreBackup sample_cipher quiet False sample_secret (Some b) sample_requirements 6 blank_disk = (Inr n, k') \<and> \<not> vk_lock k'"
proof -
  let ?b = "fst (snd (sample_backup empty_vault 5))"
  let ?r = "restoreBackup sample_cipher quiet False sample_secret ?b sample_requirements 6 blank_disk"
  have "\<not> isl (fst ?r)" by code_simp
  then obtain m n k' where r: "?r = (Inr (m, n), k')" by (cases ?r; cases "fst ?r") auto
  from restore_respects_requirements [OF r] r show ?thesis by auto
qed

definition overdue_vault :: vault_data where
  "overdue_vault = put_record (sample_record\<lparr>vr_retentionPolicy := Some \<lparr>re_schema = [], re_policyId = [], re_customerId = [], re_jurisdiction = [],
     re_fingerprint = [], re_outcome = [], re_trigger = [], re_triggerAt = 0, re_vaultDeleteAt = 20, re_credentialDisposition = [],
     re_approvalRef = None, re_legalReviewRef = None, re_clockRef = [], re_holdAuthorityRef = []\<rparr>\<rparr>) empty_vault"

theorem overdue_record_spoils_backup_witness:
  "\<exists>b. fst (snd (sample_backup overdue_vault 25)) = Some b
    \<and> (\<forall>rq now. \<exists>e. restoreBackup sample_cipher quiet False sample_secret (Some b) rq now blank_disk = (Inl e, blank_disk))"
proof -
  have "\<not> isl (fst (sample_backup overdue_vault 25))" "fst (snd (sample_backup overdue_vault 25)) \<noteq> None" by code_simp+
  then obtain m b k' p' where b: "sample_backup overdue_vault 25 = (Inr m, Some b, k', p')" by (rule sample_backup_taken)
  have "20 \<in> set (policy_deadlines overdue_vault)" by code_simp
  from overdue_record_spoils_backup [OF sample_cipher_ok sample_contents(1) b this] b show ?thesis by auto
qed

end
