(* ===== verification/Issuance_Delivery.thy ===== *)
theory Issuance_Delivery
  imports Issuance_Journal Vault_Storage
begin

text \<open>
  One step of the delivery of an issuance, \<^verbatim>\<open>pipeline/issuance-delivery.ts\<close>, and the evidence sink it
  uses, \<^verbatim>\<open>pipeline/issuance-evidence.ts\<close>. The step is an asynchronous program over the journal: at
  every await the other clients of Redis may act, and the transport, the evidence store and the
  budget answer or throw as they like.
\<close>

section \<open>The program\<close>

datatype delivery_error = JournalFailure string | BudgetFailure string | OtherFailure

datatype issuance_receipt = ReceiptPending | ReceiptReverted source_confirmation | ReceiptSuccess source_confirmation

type_synonym journal_snapshot = "nat \<times> issuance_entry"

text \<open>
  What the step meets outside: \<open>n\<close> counts its awaits and clock readings. The answers of the
  transport, the evidence sink and the budget may depend on all that happened before.
\<close>

record 'p delivery_env =
  de_journal :: "'p journal_config"
  de_owner :: string
  de_retryFailed :: bool
  de_weather :: "nat \<Rightarrow> journal_weather"
  de_now :: "nat \<Rightarrow> int"
  de_other :: "nat \<Rightarrow> 'p redis \<Rightarrow> 'p redis"
  de_assertTarget :: "nat \<Rightarrow> issuance_entry \<Rightarrow> delivery_error + unit"
  de_processed :: "nat \<Rightarrow> issuance_entry \<Rightarrow> delivery_error + bool"
  de_prepare :: "nat \<Rightarrow> issuance_entry \<Rightarrow> delivery_error + signed_issuance"
  de_broadcast :: "nat \<Rightarrow> signed_issuance \<Rightarrow> delivery_error + unit"
  de_receipt :: "nat \<Rightarrow> issuance_entry \<Rightarrow> delivery_error + issuance_receipt"
  de_onHub :: "nat \<Rightarrow> issuance_entry \<Rightarrow> source_confirmation \<Rightarrow> delivery_error + bool"
  de_put :: "nat \<Rightarrow> issuance_entry \<Rightarrow> delivery_error + unit"
  de_assertMayBroadcast :: "nat \<Rightarrow> issuance_entry \<Rightarrow> delivery_error + unit"
  de_sourceConfirmed :: "nat \<Rightarrow> issuance_entry \<Rightarrow> source_confirmation \<Rightarrow> delivery_error + unit"
  de_materialized :: "nat \<Rightarrow> issuance_entry \<Rightarrow> delivery_error + unit"
  de_budget :: bool
  de_reserve :: "nat \<Rightarrow> string \<Rightarrow> string \<Rightarrow> nat \<Rightarrow> delivery_error + unit"
  de_reconcile :: "nat \<Rightarrow> string \<Rightarrow> string \<Rightarrow> nat \<Rightarrow> delivery_error + unit"
  de_rawGasLimit :: "string \<Rightarrow> nat option"

text \<open>
  The world of the step: Redis, the counter, the variable \<^verbatim>\<open>snapshot\<close>, and two records of what the
  step did that the code does not keep: every transaction handed to the transport with the await at
  which it was, and every call to the journal as Redis before and after it.
\<close>

record 'p delivery_world =
  dw_redis :: "'p redis"
  dw_tick :: nat
  dw_snapshot :: journal_snapshot
  dw_sent :: "(nat \<times> signed_issuance) list"
  dw_calls :: "('p redis \<times> 'p redis) list"

text \<open>The body of the \<^verbatim>\<open>try\<close> block ends early by an exception or by \<^verbatim>\<open>return snapshot\<close>.\<close>

datatype leaving = Thrown delivery_error | Returned journal_snapshot

type_synonym ('p, 'a) delivery_io = "('p delivery_world, leaving, 'a) io"

definition outside :: "'p delivery_env \<Rightarrow> (nat \<Rightarrow> delivery_error + 'a) \<Rightarrow> ('p, 'a) delivery_io" where
  "outside E f w = (map_sum Thrown (\<lambda>x. x) (f (dw_tick w)),
     w\<lparr>dw_redis := de_other E (dw_tick w) (dw_redis w), dw_tick := Suc (dw_tick w)\<rparr>)"

definition clock :: "'p delivery_env \<Rightarrow> ('p, int) delivery_io" where
  "clock E w = (Inr (de_now E (dw_tick w)), w\<lparr>dw_tick := Suc (dw_tick w)\<rparr>)"

definition journal_call :: "'p delivery_env \<Rightarrow> (journal_weather \<Rightarrow> 'p redis \<Rightarrow> (journal_error + 'a) \<times> 'p redis) \<Rightarrow> ('p, 'a) delivery_io" where
  "journal_call E f w = (case f (de_weather E (dw_tick w)) (de_other E (dw_tick w) (dw_redis w)) of
     (r, R) \<Rightarrow> (map_sum (\<lambda>c. Thrown (JournalFailure c)) (\<lambda>x. x) r, w\<lparr>dw_redis := R, dw_tick := Suc (dw_tick w),
       dw_calls := dw_calls w @ [(de_other E (dw_tick w) (dw_redis w), R)]\<rparr>))"

definition set_snapshot :: "journal_snapshot \<Rightarrow> ('p, unit) delivery_io" where
  "set_snapshot s w = (Inr (), w\<lparr>dw_snapshot := s\<rparr>)"

definition return_snapshot :: "('p, 'a) delivery_io" where
  "return_snapshot = seq (gets dw_snapshot) (\<lambda>s. throw (Returned s))"

definition save_entry :: "'p delivery_env \<Rightarrow> issuance_entry \<Rightarrow> ('p, issuance_entry) delivery_io" where
  "save_entry E e = seq (gets dw_snapshot) (\<lambda>s.
     seq (journal_call E (\<lambda>W. redis_save (de_journal E) W (fst s, e) (de_owner E))) (\<lambda>s'.
     seq (set_snapshot s') (\<lambda>_. ret (snd s'))))"

definition fail_entry :: "'p delivery_env \<Rightarrow> issuance_entry \<Rightarrow> string \<Rightarrow> ('p, 'a) delivery_io" where
  "fail_entry E e c = seq (save_entry E (e\<lparr>ie_phase := Failed, ie_lastError := Some c\<rparr>)) (\<lambda>_. return_snapshot)"

text \<open>\<^verbatim>\<open>/^\\d+$/\<close> and \<^verbatim>\<open>BigInt\<close>.\<close>

definition decimal :: "string \<Rightarrow> nat option" where
  "decimal s = (if s = [] \<or> \<not> list_all (\<lambda>c. 48 \<le> (of_char c :: nat) \<and> (of_char c :: nat) \<le> 57) s then None
     else Some (foldl (\<lambda>n c. 10 * n + (of_char c - 48)) 0 s))"

definition gasLimitOf :: "'p delivery_env \<Rightarrow> signed_issuance \<Rightarrow> delivery_error + nat" where
  "gasLimitOf E t = (case Option.bind (sg_gasLimit t) decimal of Some g \<Rightarrow> Inr g
     | None \<Rightarrow> (case de_rawGasLimit E (sg_raw t) of Some g \<Rightarrow> Inr g | None \<Rightarrow> Inl (JournalFailure ''GAS_LIMIT_MISSING'')))"

definition retryable :: "'p delivery_env \<Rightarrow> issuance_entry \<Rightarrow> bool" where
  "retryable E e \<longleftrightarrow> de_retryFailed E \<and> ie_lastError e = Some ''SOURCE_REVERTED''"

definition first_checks :: "'p delivery_env \<Rightarrow> issuance_entry \<Rightarrow> ('p, issuance_entry) delivery_io" where
  "first_checks E e =
     (if ie_phase e = Failed \<and> \<not> retryable E e then return_snapshot
      else seq (if ie_phase e = Prepared \<and> ie_transaction e = None \<and> is_issued e
                then seq (clock E) (\<lambda>t. ret (ie_prepareUntil e \<le> t)) else ret False) (\<lambda>expired.
        if expired then fail_entry E e ''PREPARATION_EXPIRED''
        else seq (if ie_evidenceStored e then ret e
                  else seq (outside E (\<lambda>n. de_put E n e)) (\<lambda>_. save_entry E (e\<lparr>ie_evidenceStored := True\<rparr>))) (\<lambda>e.
          if \<not> is_issued e then fail_entry E e ''NOT_APPROVED'' else ret e)))"

definition retried :: "issuance_entry \<Rightarrow> int \<Rightarrow> issuance_entry" where
  "retried e now = e\<lparr>ie_revertedTransactions := (case ie_transaction e of None \<Rightarrow> ie_revertedTransactions e
       | Some t \<Rightarrow> ie_revertedTransactions e @ [(sg_hash t, sg_nonce t, now)]),
     ie_transaction := None, ie_sourceConfirmation := None, ie_broadcastAcceptedAt := None, ie_phase := Prepared, ie_lastError := None\<rparr>"

definition retry_entry :: "'p delivery_env \<Rightarrow> issuance_entry \<Rightarrow> ('p, issuance_entry) delivery_io" where
  "retry_entry E e = seq (outside E (\<lambda>n. de_assertTarget E n e)) (\<lambda>_.
     if ie_phase e \<noteq> Failed then ret e
     else if \<not> retryable E e then return_snapshot
     else seq (if ie_transaction e = None then ret 0 else clock E) (\<lambda>t. save_entry E (retried e t)))"

definition same_target :: "signed_issuance \<Rightarrow> issuance_target \<Rightarrow> bool" where
  "same_target t g \<longleftrightarrow> sg_chainId t = tg_chainId g \<and> to_lower (sg_source t) = to_lower (tg_source g) \<and> to_lower (sg_issuer t) = to_lower (tg_issuer g)"

definition reserve_gas :: "'p delivery_env \<Rightarrow> issuance_entry \<Rightarrow> signed_issuance \<Rightarrow> ('p, unit) delivery_io" where
  "reserve_gas E e t = (case gasLimitOf E t of Inl x \<Rightarrow> throw (Thrown x)
     | Inr g \<Rightarrow> outside E (\<lambda>n. de_reserve E n (sg_hash t) (tg_issuer (ie_target e)) g))"

definition too_late :: "'p delivery_env \<Rightarrow> issuance_entry \<Rightarrow> ('p, bool) delivery_io" where
  "too_late E e = seq (clock E) (\<lambda>t. if ie_prepareUntil e \<le> t then ret True
     else seq (clock E) (\<lambda>t'. ret (case ie_outcome e of Issued c \<Rightarrow> ic_expiry c * 1000 \<le> t' | _ \<Rightarrow> False)))"

text \<open>The result says whether the gas was reserved in this pass.\<close>

definition sign_entry :: "'p delivery_env \<Rightarrow> issuance_entry \<Rightarrow> ('p, issuance_entry \<times> bool) delivery_io" where
  "sign_entry E e = (if ie_transaction e \<noteq> None then ret (e, False)
     else seq (too_late E e) (\<lambda>late. if late then fail_entry E e ''PREPARATION_EXPIRED''
     else seq (outside E (\<lambda>n. de_processed E n e)) (\<lambda>used. if used then fail_entry E e ''REQUEST_ALREADY_USED_UNRECONCILED''
     else seq (outside E (\<lambda>n. de_assertMayBroadcast E n e)) (\<lambda>_.
     seq (outside E (\<lambda>n. de_prepare E n e)) (\<lambda>t.
     seq (guard (same_target t (ie_target e)) (Thrown (JournalFailure ''TARGET_CONFLICT''))) (\<lambda>_.
     seq (if de_budget E then reserve_gas E e t else ret ()) (\<lambda>_.
     seq (save_entry E (e\<lparr>ie_transaction := Some t\<rparr>)) (\<lambda>e. ret (e, de_budget E)))))))))"

definition charge_entry :: "'p delivery_env \<Rightarrow> issuance_entry \<Rightarrow> bool \<Rightarrow> ('p, unit) delivery_io" where
  "charge_entry E e reserved = (case ie_transaction e of
     Some t \<Rightarrow> if de_budget E \<and> \<not> reserved then reserve_gas E e t else ret ()
   | None \<Rightarrow> ret ())"

definition broadcast_entry :: "'p delivery_env \<Rightarrow> issuance_entry \<Rightarrow> ('p, unit) delivery_io" where
  "broadcast_entry E e = (case ie_transaction e of None \<Rightarrow> throw (Thrown OtherFailure)
     | Some t \<Rightarrow> (\<lambda>w. outside E (\<lambda>n. de_broadcast E n t) (w\<lparr>dw_sent := dw_sent w @ [(dw_tick w, t)]\<rparr>)))"

definition accepted :: "'p delivery_env \<Rightarrow> issuance_entry \<Rightarrow> ('p, issuance_entry) delivery_io" where
  "accepted E e = seq (case ie_broadcastAcceptedAt e of Some t \<Rightarrow> ret t | None \<Rightarrow> clock E) (\<lambda>t.
     ret (e\<lparr>ie_broadcastAcceptedAt := Some t, ie_lastError := None\<rparr>))"

definition send_entry :: "'p delivery_env \<Rightarrow> issuance_entry \<Rightarrow> ('p, issuance_entry \<times> issuance_receipt) delivery_io" where
  "send_entry E e = seq (outside E (\<lambda>n. de_receipt E n e)) (\<lambda>rc. if rc \<noteq> ReceiptPending then ret (e, rc)
     else seq (outside E (\<lambda>n. de_assertMayBroadcast E n e)) (\<lambda>_.
     seq (save_entry E (e\<lparr>ie_phase := Submitted, ie_sourceConfirmation := None\<rparr>)) (\<lambda>e.
     seq (outside E (\<lambda>n. de_assertMayBroadcast E n e)) (\<lambda>_.
     seq (try_catch (seq (broadcast_entry E e) (\<lambda>_. accepted E e))
           (\<lambda>_. ret (e\<lparr>ie_lastError := Some ''BROADCAST_UNCONFIRMED''\<rparr>))) (\<lambda>e.
     seq (save_entry E e) (\<lambda>e.
     seq (outside E (\<lambda>n. de_receipt E n e)) (\<lambda>rc. ret (e, rc))))))))"

definition reconcile_gas :: "'p delivery_env \<Rightarrow> issuance_entry \<Rightarrow> source_confirmation \<Rightarrow> ('p, unit) delivery_io" where
  "reconcile_gas E e c = (if \<not> de_budget E then ret ()
     else case Option.bind (sc_gasUsed c) decimal of None \<Rightarrow> throw (Thrown (JournalFailure ''GAS_USED_MISSING''))
       | Some g \<Rightarrow> (case ie_transaction e of None \<Rightarrow> throw (Thrown OtherFailure)
         | Some t \<Rightarrow> outside E (\<lambda>n. de_reconcile E n (sg_hash t) (tg_issuer (ie_target e)) g)))"

definition confirm_entry :: "'p delivery_env \<Rightarrow> issuance_entry \<Rightarrow> source_confirmation \<Rightarrow> ('p, 'a) delivery_io" where
  "confirm_entry E e c = seq (outside E (\<lambda>n. de_sourceConfirmed E n e c)) (\<lambda>_.
     if ie_phase e = Materialized then seq (outside E (\<lambda>n. de_materialized E n e)) (\<lambda>_. return_snapshot)
     else seq (save_entry E (e\<lparr>ie_phase := SourceConfirmed, ie_sourceConfirmation := Some c, ie_lastError := None\<rparr>)) (\<lambda>e.
       seq (outside E (\<lambda>n. de_onHub E n e c)) (\<lambda>arrived. if \<not> arrived then return_snapshot
       else seq (outside E (\<lambda>n. de_materialized E n e)) (\<lambda>_.
         seq (case ie_materializedAt e of Some t \<Rightarrow> ret t | None \<Rightarrow> clock E) (\<lambda>t.
         seq (save_entry E (e\<lparr>ie_phase := Materialized, ie_materializedAt := Some t, ie_lastError := None\<rparr>)) (\<lambda>_. return_snapshot))))))"

definition settle_entry :: "'p delivery_env \<Rightarrow> issuance_entry \<Rightarrow> issuance_receipt \<Rightarrow> ('p, 'a) delivery_io" where
  "settle_entry E e rc = (case rc of
     ReceiptPending \<Rightarrow> return_snapshot
   | ReceiptReverted c \<Rightarrow> seq (reconcile_gas E e c) (\<lambda>_.
       seq (save_entry E (e\<lparr>ie_phase := Failed, ie_lastError := Some ''SOURCE_REVERTED'', ie_sourceConfirmation := Some c\<rparr>)) (\<lambda>_. return_snapshot))
   | ReceiptSuccess c \<Rightarrow> seq (reconcile_gas E e c) (\<lambda>_. confirm_entry E e c))"

definition delivery_body :: "'p delivery_env \<Rightarrow> issuance_entry \<Rightarrow> ('p, journal_snapshot) delivery_io" where
  "delivery_body E e = seq (first_checks E e) (\<lambda>e. seq (retry_entry E e) (\<lambda>e. seq (sign_entry E e) (\<lambda>(e, reserved).
     seq (charge_entry E e reserved) (\<lambda>_. seq (send_entry E e) (\<lambda>(e, rc). settle_entry E e rc)))))"

definition on_failure :: "'p delivery_env \<Rightarrow> string \<Rightarrow> leaving \<Rightarrow> ('p, journal_snapshot) delivery_io" where
  "on_failure E rid x = (case x of Thrown OtherFailure \<Rightarrow>
       seq (journal_call E (\<lambda>W. redis_get (de_journal E) W rid)) (\<lambda>current. case current of
         None \<Rightarrow> throw (Thrown (JournalFailure ''NOT_FOUND''))
       | Some s \<Rightarrow> seq (gets dw_snapshot) (\<lambda>mine.
           if fst s = fst mine \<and> ie_phase (snd s) \<noteq> Failed
           then journal_call E (\<lambda>W. redis_save (de_journal E) W (fst s, (snd s)\<lparr>ie_lastError := Some ''DEPENDENCY_UNAVAILABLE''\<rparr>) (de_owner E))
           else ret s))
     | _ \<Rightarrow> throw x)"

definition release_lease :: "'p delivery_env \<Rightarrow> string \<Rightarrow> 'p delivery_world \<Rightarrow> 'p delivery_world" where
  "release_lease E rid w = (let R = de_other E (dw_tick w) (dw_redis w);
       R' = redis_release (de_journal E) (de_weather E (dw_tick w)) rid (de_owner E) R in
     w\<lparr>dw_redis := R', dw_tick := Suc (dw_tick w), dw_calls := dw_calls w @ [(R, R')]\<rparr>)"

definition acquire_entry :: "'p delivery_env \<Rightarrow> string \<Rightarrow> ('p, issuance_entry) delivery_io" where
  "acquire_entry E rid = seq (journal_call E (\<lambda>W. redis_get (de_journal E) W rid)) (\<lambda>s. case s of
       None \<Rightarrow> throw (Thrown (JournalFailure ''NOT_FOUND''))
     | Some s \<Rightarrow> seq (journal_call E (\<lambda>W. redis_acquire_snapshot (de_journal E) W rid (de_owner E) s)) (\<lambda>s'.
         seq (set_snapshot s') (\<lambda>_. ret (snd s'))))"

definition advanceIssuance :: "'p delivery_env \<Rightarrow> string \<Rightarrow> 'p delivery_world \<Rightarrow> (delivery_error + journal_snapshot) \<times> 'p delivery_world" where
  "advanceIssuance E rid w =
     (case seq (acquire_entry E rid)
        (\<lambda>e. finally_do (try_catch (delivery_body E e) (on_failure E rid)) (release_lease E rid)) w of
        (Inr s, w') \<Rightarrow> (Inr s, w')
      | (Inl (Returned s), w') \<Rightarrow> (Inr s, w')
      | (Inl (Thrown x), w') \<Rightarrow> (Inl x, w'))"

section \<open>What stays on record\<close>

definition hashes_of :: "issuance_entry \<Rightarrow> string set" where
  "hashes_of e = set_option (map_option sg_hash (ie_transaction e)) \<union> fst ` set (ie_revertedTransactions e)"

text \<open>
  A request whose key does not expire up to the time \<open>T\<close> of Redis. The journal knows a transaction
  until then if it is the one of the entry stored for such a request or one of its reverted ones.
\<close>

definition lives :: "int \<Rightarrow> 'p redis_request \<Rightarrow> bool" where
  "lives T q \<longleftrightarrow> (\<forall>t \<in> set_option (rq_expiry q) \<union> set_option (rq_terminalExpiresAt q). T < t)"

definition on_record :: "'p journal_config \<Rightarrow> int \<Rightarrow> 'p redis \<Rightarrow> string \<Rightarrow> string \<Rightarrow> bool" where
  "on_record J T R i h \<longleftrightarrow> (\<exists>q e. obj_get (rd_requests R) i = Some q \<and> lives T q \<and> jc_open J i (rq_payload q) = Some e \<and> h \<in> hashes_of e)"

lemma lives_live: "obj_get (rd_requests R) i = Some q \<Longrightarrow> lives T q \<Longrightarrow> now \<le> T \<Longrightarrow> live_request now i R = Some q"
  by (auto simp: live_request_def lives_def split: option.splits)

lemma deadline_lives: "lives T q \<Longrightarrow> T < now + 86400000 \<Longrightarrow> T < terminalDeadline now q"
  by (auto simp: lives_def terminalDeadline_def split: option.splits)

text \<open>While the owner has the lease, the stored entry is \<open>e\<close>.\<close>

definition held :: "'p journal_config \<Rightarrow> 'p redis \<Rightarrow> string \<Rightarrow> string \<Rightarrow> issuance_entry \<Rightarrow> bool" where
  "held J R i me e \<longleftrightarrow> (\<forall>q. obj_get (rd_requests R) i = Some q \<and> rq_owner q = Some me \<longrightarrow> jc_open J i (rq_payload q) = Some e)"

text \<open>A later version of an entry: it names the same request and all its transactions.\<close>

definition extends :: "issuance_entry \<Rightarrow> issuance_entry \<Rightarrow> bool" where
  "extends e e' \<longleftrightarrow> ie_requestId e' = ie_requestId e \<and> hashes_of e \<subseteq> hashes_of e'"

text \<open>
  The calls that one client makes on the journal at times of Redis from \<open>S\<close> to \<open>T\<close>, under its own
  lease name, as the program makes them: it reads, creates, takes and gives back leases, and
  saves a later version of the entry that it holds.
\<close>

inductive client_call :: "'p journal_config \<Rightarrow> int \<Rightarrow> int \<Rightarrow> string \<Rightarrow> 'p redis \<Rightarrow> 'p redis \<Rightarrow> bool" for J S T owner where
  call_get: "S \<le> jw_now W \<Longrightarrow> jw_now W \<le> T \<Longrightarrow> client_call J S T owner R (snd (redis_get J W rid R))"
| call_pending: "S \<le> jw_now W \<Longrightarrow> jw_now W \<le> T \<Longrightarrow> client_call J S T owner R (snd (redis_pending J W R))"
| call_create: "S \<le> jw_now W \<Longrightarrow> jw_now W \<le> T \<Longrightarrow> client_call J S T owner R (snd (redis_create J W e R))"
| call_acquire: "S \<le> jw_now W \<Longrightarrow> jw_now W \<le> T \<Longrightarrow> client_call J S T owner R (snd (redis_acquire_snapshot J W rid owner s R))"
| call_release: "S \<le> jw_now W \<Longrightarrow> jw_now W \<le> T \<Longrightarrow> client_call J S T owner R (redis_release J W rid owner R)"
| call_save: "S \<le> jw_now W \<Longrightarrow> jw_now W \<le> T \<Longrightarrow> requestId (ie_requestId e) = Inr i \<Longrightarrow> held J R i owner e \<Longrightarrow> extends e e'
    \<Longrightarrow> client_call J S T owner R (snd (redis_save J W (n, e') owner R))"

text \<open>
  What such calls leave to the client \<open>me\<close>: no transaction on record is lost, and no lease is taken
  in the name of \<open>me\<close> and no payload written under one.
\<close>

definition client_keeps :: "'p journal_config \<Rightarrow> int \<Rightarrow> string \<Rightarrow> 'p redis \<Rightarrow> 'p redis \<Rightarrow> bool" where
  "client_keeps J T me R R' \<longleftrightarrow> (\<forall>k h. on_record J T R k h \<longrightarrow> on_record J T R' k h)
     \<and> (\<forall>k q'. obj_get (rd_requests R') k = Some q' \<and> rq_owner q' = Some me
          \<longrightarrow> (\<exists>q. obj_get (rd_requests R) k = Some q \<and> rq_owner q = Some me \<and> rq_payload q' = rq_payload q))"

lemma client_keeps_held: "client_keeps J T me R R' \<Longrightarrow> held J R i me e \<Longrightarrow> held J R' i me e"
  by (fastforce simp: client_keeps_def held_def)

lemma client_keeps_refl: "client_keeps J T me R R"
  by (simp add: client_keeps_def)

lemma client_keeps_trans: "client_keeps J T me R R1 \<Longrightarrow> client_keeps J T me R1 R2 \<Longrightarrow> client_keeps J T me R R2"
  unfolding client_keeps_def by metis

text \<open>The requests keep their payloads and deadlines; only the lease of \<open>i\<close> may change, to \<open>me\<close> or to nobody.\<close>

definition only_leases :: "string \<Rightarrow> string \<Rightarrow> 'p redis \<Rightarrow> 'p redis \<Rightarrow> bool" where
  "only_leases i me R R' \<longleftrightarrow> (\<forall>k. rel_option (\<lambda>q q'. rq_payload q' = rq_payload q
      \<and> rq_expiry q' = rq_expiry q \<and> rq_terminalExpiresAt q' = rq_terminalExpiresAt q
      \<and> (rq_owner q' = rq_owner q \<or> k = i \<and> (rq_owner q' = None \<or> rq_owner q' = Some me)))
    (obj_get (rd_requests R) k) (obj_get (rd_requests R') k))"

lemma only_leases_refl: "only_leases i me R R"
  unfolding only_leases_def by (auto intro!: option.rel_refl)

lemma only_leases_touch: "obj_get (rd_requests R) i = Some q \<Longrightarrow> rd_requests R1 = rd_requests R \<Longrightarrow> v = None \<or> v = Some me
    \<Longrightarrow> only_leases i me R (put_request i (q\<lparr>rq_owner := v, rq_leaseUntil := t\<rparr>) R1)"
  unfolding only_leases_def by (auto simp: obj_simps intro!: option.rel_refl)

lemma only_leases_records: "only_leases i me R R' \<Longrightarrow> on_record J T R k h \<Longrightarrow> on_record J T R' k h"
  by (auto simp: only_leases_def on_record_def option_rel_Some1 lives_def dest!: spec [of _ k])

lemma only_leases_client:
  assumes "only_leases i o' R R'" "o' \<noteq> me"
  shows "client_keeps J T me R R'"
proof -
  have "\<exists>q. obj_get (rd_requests R) k = Some q \<and> rq_owner q = Some me \<and> rq_payload q' = rq_payload q"
    if "obj_get (rd_requests R') k = Some q'" "rq_owner q' = Some me" for k q'
    using that assms by (auto simp: only_leases_def option_rel_Some2 dest!: spec [of _ k])
  then show ?thesis using only_leases_records [OF assms(1)] by (auto simp: client_keeps_def)
qed

text \<open>A save that took effect: the request now has the payload of \<open>e\<close>, and a deadline exactly if \<open>e\<close> is terminal.\<close>

definition saves :: "'p journal_config \<Rightarrow> int \<Rightarrow> string \<Rightarrow> string \<Rightarrow> issuance_entry \<Rightarrow> 'p redis \<Rightarrow> 'p redis \<Rightarrow> bool" where
  "saves J now i me e R R' \<longleftrightarrow> (\<exists>q q'. obj_get (rd_requests R) i = Some q \<and> rq_owner q = Some me
     \<and> rd_requests R' = obj_put i q' (rd_requests R) \<and> rq_payload q' = jc_seal J e \<and> rq_owner q' = Some me
     \<and> rq_expiry q' = (if terminal e then Some (terminalDeadline now q) else None) \<and> rq_terminalExpiresAt q' = rq_expiry q')"

lemma journal_save_effect:
  assumes "obj_get (rd_requests R) i = Some q" "journal_save now (journal_args_of J op i me (Some (n, e))) q R = (r, R')"
  shows "if \<exists>m p. r = RSnapshot m p then saves J now i me e R R' else only_leases i me R R'"
  using assms by (auto simp: journal_save_def journal_args_of_def Let_def saves_def snapshot_reply_def terminalDeadline_def
      intro: only_leases_refl split: if_splits)

lemma journal_eval_save_effect:
  assumes "journal_eval now acl (journal_args_of J ''save'' i me (Some (n, e))) R = (r, R')"
  shows "if \<exists>m p. r = RSnapshot m p then saves J now i me e R R' else only_leases i me R R'"
proof (cases "live_request now i R")
  case None
  with assms show ?thesis by (auto simp: journal_eval_def journal_args_of_def Let_def intro: only_leases_refl split: if_splits)
next
  case (Some q)
  let ?a = "journal_args_of J ''save'' i me (Some (n, e))"
  have a: "ja_id ?a = i" "ja_op ?a = ''save''" by (simp_all add: journal_args_of_def)
  from assms Some a have "R' = R \<and> (\<exists>c. r = RCode c) \<or> journal_save now ?a q R = (r, R')"
    by (auto simp: journal_eval_def Let_def split: if_splits)
  with journal_save_effect [OF live_request_stored [OF Some], of now J "''save''" me n e r R'] show ?thesis
    by (auto intro: only_leases_refl)
qed

lemma journal_eval_lease_effect:
  assumes "op \<noteq> ''create''" "op \<noteq> ''save''"
  shows "only_leases i me R (snd (journal_eval now acl (journal_args_of J op i me s) R))"
proof (cases "live_request now i R")
  case None
  with assms show ?thesis by (auto simp: journal_eval_def journal_args_of_def Let_def intro: only_leases_refl)
next
  case (Some q)
  note st = live_request_stored [OF Some]
  have a: "ja_id (journal_args_of J p i me s) = i" "ja_op (journal_args_of J p i me s) = p" "ja_owner (journal_args_of J p i me s) = me" for p
    by (simp_all add: journal_args_of_def)
  have release: "only_leases i me R (snd (journal_release (journal_args_of J p i me s) q R))" for p
    using st by (auto simp: a journal_release_def intro: only_leases_refl only_leases_touch)
  have acquire: "only_leases i me R (snd (journal_acquire now (journal_args_of J p i me s) q R))" for p
    using st by (auto simp: a journal_acquire_def Let_def intro!: only_leases_refl only_leases_touch)
  show ?thesis using assms by (simp add: journal_eval_def Let_def Some a only_leases_refl release acquire)
qed

lemma journal_eval_reply:
  assumes "journal_eval now acl (journal_args_of J op i me s) R = (RSnapshot n p, R')"
  shows "\<exists>q. obj_get (rd_requests R') i = Some q \<and> rq_payload q = p"
proof (cases "live_request now i R")
  case None
  with assms show ?thesis
    by (auto simp: journal_eval_def journal_create_def journal_args_of_def Let_def snapshot_reply_def retain_def put_request_def obj_simps split: if_splits)
next
  case (Some q)
  note st = live_request_stored [OF Some]
  let ?a = "journal_args_of J op i me s"
  have a: "ja_id ?a = i" "ja_op ?a = op" by (simp_all add: journal_args_of_def)
  have acquire: ?thesis if "journal_acquire now ?a q R = (RSnapshot n p, R')"
    using that st a by (auto simp: journal_acquire_def Let_def snapshot_reply_def put_request_def obj_simps split: if_splits)
  have save: ?thesis if "journal_save now ?a q R = (RSnapshot n p, R')"
    using that a by (auto simp: journal_save_def Let_def snapshot_reply_def retain_def put_request_def obj_simps split: if_splits)
  from assms Some st acquire save a show ?thesis
    by (auto simp: journal_eval_def Let_def journal_create_def journal_release_def snapshot_reply_def split: if_splits)
qed

text \<open>The same for a round trip of the client.\<close>

lemma run_lease_effect:
  assumes "op \<noteq> ''create''" "op \<noteq> ''save''" "requestId rid = Inr i"
  shows "only_leases i me R (snd (journal_run J W op rid me s R))"
  using journal_eval_lease_effect [OF assms(1,2), of i me R "jw_now W" "jw_acl W" J s] assms(3)
  by (auto simp: journal_run_def Let_def intro: only_leases_refl split: delivery.splits prod.splits)

lemma run_snapshot_stored:
  assumes "run_snapshot J W op rid me s R = (Inr (n, e), R')" "requestId rid = Inr i"
  shows "\<exists>q. obj_get (rd_requests R') i = Some q \<and> jc_open J i (rq_payload q) = Some e \<and> requestId (ie_requestId e) = Inr i"
proof -
  from assms obtain m p where r: "journal_run J W op rid me s R = (Inr (RSnapshot m p), R')" and o: "open_entry J rid p = Inr e"
    by (auto simp: run_snapshot_def read_snapshot_def split: prod.splits sum.splits journal_reply.splits if_splits list.splits)
  from r assms(2) have "journal_eval (jw_now W) (jw_acl W) (journal_args_of J op i me s) R = (RSnapshot m p, R')"
    by (auto simp: journal_run_def Let_def split: if_splits delivery.splits prod.splits)
  from journal_eval_reply [OF this] o assms(2) show ?thesis
    by (auto simp: open_entry_def split: option.splits if_splits)
qed

lemma save_effect:
  assumes "journal_ok J" "requestId (ie_requestId e) = Inr i" "redis_save J W (n, e) me R = (r, R')"
  shows "(saves J (jw_now W) i me e R R' \<and> (\<forall>m x. r = Inr (m, x) \<longrightarrow> x = e)) \<or> only_leases i me R R' \<and> isl r"
proof -
  let ?ev = "journal_eval (jw_now W) (jw_acl W) (journal_args_of J ''save'' i me (Some (n, e))) R"
  obtain y R1 where ev: "?ev = (y, R1)" by (cases ?ev)
  note eff = journal_eval_save_effect [OF ev]
  from assms(3) obtain t where run: "journal_run J W ''save'' (ie_requestId e) me (Some (n, e)) R = (t, R')"
    and r: "r = (case t of Inl c \<Rightarrow> Inl c | Inr y \<Rightarrow> read_snapshot J (ie_requestId e) y)"
    by (auto simp: redis_save_def run_snapshot_def split: prod.splits sum.splits)
  from run assms(2) ev have c: "isl t \<and> (R' = R \<or> R' = R1) \<or> t = Inr y \<and> R' = R1"
    by (auto simp: journal_run_def Let_def split: if_splits delivery.splits)
  show ?thesis
  proof (cases "\<exists>m p. y = RSnapshot m p")
    case True
    then obtain m p where y: "y = RSnapshot m p" by blast
    with eff have sv: "saves J (jw_now W) i me e R R1" by auto
    then obtain q' where q': "obj_get (rd_requests R1) i = Some q'" "rq_payload q' = jc_seal J e" by (auto simp: saves_def obj_simps)
    from journal_eval_reply [of _ _ J _ i me _ R m p R1] ev y q' have "p = jc_seal J e" by fastforce
    then have "x = e" if "read_snapshot J (ie_requestId e) y = Inr (k, x)" for k x
      using that y assms(1,2) by (auto simp: read_snapshot_def open_entry_def journal_ok_def split: if_splits option.splits)
    with c sv r show ?thesis by (cases t) (auto intro: only_leases_refl)
  next
    case False
    with eff have "only_leases i me R R1" by (simp split: if_splits)
    moreover have "isl (read_snapshot J (ie_requestId e) y)" using False
      by (auto simp: read_snapshot_def split: journal_reply.splits)
    ultimately show ?thesis using c r by (cases t) (auto intro: only_leases_refl)
  qed
qed

text \<open>The effect of a call on the records and on the lease.\<close>

lemma saves_records:
  assumes sv: "saves J now i me e' R R'" and h: "held J R i me e" "hashes_of e \<subseteq> hashes_of e'" "jc_open J i (jc_seal J e') = Some e'"
    and t: "T < now + 86400000" and rc: "on_record J T R k h"
  shows "on_record J T R' k h"
proof (cases "k = i")
  case True
  from sv obtain q q' where q: "obj_get (rd_requests R) i = Some q" "rq_owner q = Some me" "obj_get (rd_requests R') i = Some q'"
    "rq_payload q' = jc_seal J e'" "rq_expiry q' = (if terminal e' then Some (terminalDeadline now q) else None)"
    "rq_terminalExpiresAt q' = rq_expiry q'" by (auto simp: saves_def obj_simps)
  with h(1) have "jc_open J i (rq_payload q) = Some e" by (simp add: held_def)
  with rc True q(1) have "h \<in> hashes_of e" "lives T q" by (simp_all add: on_record_def)
  with h(2) deadline_lives [OF _ t] q(5,6) have "h \<in> hashes_of e'" "lives T q'" by (auto simp: lives_def)
  with True q(3,4) h(3) show ?thesis by (simp add: on_record_def)
next
  case False
  with sv rc show ?thesis by (auto simp: saves_def on_record_def obj_simps)
qed

lemma saves_held:
  assumes "saves J now i me e R R'" "jc_open J i (jc_seal J e) = Some e"
  shows "held J R' i me e" "\<not> terminal e \<Longrightarrow> h \<in> hashes_of e \<Longrightarrow> on_record J T R' i h"
  using assms by (auto simp: saves_def on_record_def held_def obj_simps lives_def)

lemma saves_client:
  assumes "saves J now i o' e' R R'" "held J R i o' e" "extends e e'" "jc_open J i (jc_seal J e') = Some e'"
    "T < now + 86400000" "o' \<noteq> me"
  shows "client_keeps J T me R R'"
  using saves_records [OF assms(1,2) _ assms(4,5)] assms(1,3,6)
  by (auto simp: client_keeps_def extends_def saves_def obj_simps split: if_splits)

lemma stored_held:
  assumes "obj_get (rd_requests R) i = Some q" "jc_open J i (rq_payload q) = Some e"
  shows "held J R i me e"
  using assms by (auto simp: held_def)

text \<open>A request is created only where no live one is, and without a lease.\<close>

lemma create_effect:
  "journal_eval now acl (journal_args_of J ''create'' i [] s) R = (r, R') \<Longrightarrow> rd_requests R' = rd_requests R
    \<or> live_request now i R = None \<and> (\<exists>q'. rd_requests R' = obj_put i q' (rd_requests R) \<and> rq_owner q' = None)"
  by (auto simp: journal_eval_def journal_create_def journal_args_of_def Let_def split: if_splits option.splits)

lemma create_client:
  assumes "jw_now W \<le> T"
  shows "client_keeps J T me R (snd (redis_create J W e R))"
proof -
  have same: "client_keeps J T me R R'" if "rd_requests R' = rd_requests R" for R'
    using that by (simp add: client_keeps_def on_record_def)
  have new: "client_keeps J T me R R'"
    if n: "live_request (jw_now W) i R = None" "rd_requests R' = obj_put i q' (rd_requests R)" "rq_owner q' = None" for R' i q'
  proof -
    have "on_record J T R' k h" if rec: "on_record J T R k h" for k h
    proof -
      obtain q where "obj_get (rd_requests R) k = Some q" "lives T q" using rec by (auto simp: on_record_def)
      from lives_live [OF this assms] n(1) have "k \<noteq> i" by auto
      with rec n(2) show ?thesis by (simp add: on_record_def obj_simps)
    qed
    with n show ?thesis by (auto simp: client_keeps_def obj_simps split: if_splits)
  qed
  have "client_keeps J T me R (snd (journal_eval (jw_now W) (jw_acl W) (journal_args_of J ''create'' i [] s) R))" for i s
    using create_effect [of "jw_now W" "jw_acl W" J i s R] same new by (cases "journal_eval (jw_now W) (jw_acl W) (journal_args_of J ''create'' i [] s) R") auto
  then show ?thesis
    by (auto simp: redis_create_def run_snapshot_def journal_run_def Let_def client_keeps_refl split: sum.splits delivery.splits prod.splits)
      (metis snd_conv)
qed

lemma lease_call_client:
  assumes "op \<noteq> ''create''" "op \<noteq> ''save''" "o' \<noteq> me \<or> op \<in> {''get'', ''pending''}"
  shows "client_keeps J T me R (snd (journal_run J W op rid o' s R))"
proof (cases "requestId rid")
  case (Inl x)
  then show ?thesis by (simp add: journal_run_def client_keeps_refl)
next
  case (Inr i)
  show ?thesis
  proof (cases "o' = me")
    case True
    with assms(3) have "snd (journal_run J W op rid o' s R) = R"
      by (auto simp: journal_run_def journal_eval_def journal_args_of_def Let_def split: sum.splits delivery.splits prod.splits option.splits if_splits)
    then show ?thesis by (simp add: client_keeps_refl)
  next
    case False
    show ?thesis by (rule only_leases_client [OF run_lease_effect [OF assms(1,2) Inr] False])
  qed
qed

lemma call_results:
  "snd (redis_get J W rid R) = snd (journal_run J W ''get'' rid [] None R)"
  "snd (redis_pending J W R) = snd (journal_run J W ''pending'' (''0x'' @ replicate 64 CHR ''0'') [] None R)"
  "snd (redis_acquire_snapshot J W rid o' s R) = snd (journal_run J W ''acquire'' rid o' (Some s) R)"
  by (auto simp: redis_get_def redis_pending_def redis_acquire_snapshot_def run_snapshot_def split: prod.splits sum.splits journal_reply.splits)

text \<open>Within a day a client that makes only these calls keeps what another one relies on.\<close>

lemma client_call_keeps:
  assumes "client_call J S T o' R R'" "o' \<noteq> me" "journal_ok J" "T < S + 86400000"
  shows "client_keeps J T me R R'"
  using assms(1)
proof cases
  case (call_save W e i e' n)
  obtain r where r: "redis_save J W (n, e') o' R = (r, R')" using call_save(1) by (cases "redis_save J W (n, e') o' R") auto
  have id: "requestId (ie_requestId e') = Inr i" using call_save by (simp add: extends_def)
  have opens: "jc_open J i (jc_seal J e') = Some e'" using id assms(3) by (simp add: journal_ok_def)
  from save_effect [OF assms(3) id r] show ?thesis
    using saves_client [OF _ call_save(5,6) opens _ assms(2)] only_leases_client [OF _ assms(2)] call_save(2) assms(4) by fastforce
next
  case call_create
  then show ?thesis using create_client by blast
qed (use assms(2) in \<open>simp_all add: call_results redis_release_def lease_call_client\<close>)

lemma client_calls_keep:
  assumes "(\<lambda>R R'. \<exists>o'. o' \<noteq> me \<and> client_call J S T o' R R')\<^sup>*\<^sup>* R R'" "journal_ok J" "T < S + 86400000"
  shows "client_keeps J T me R R'"
  using assms(1)
  by (induction rule: rtranclp_induct) (auto intro: client_keeps_refl client_keeps_trans client_call_keeps assms(2,3))

section \<open>Every transaction sent is on record\<close>

text \<open>
  The other clients make the same calls, under other lease names; the step and they run between
  the times \<open>S\<close> and \<open>T\<close> of Redis, less than the day that a terminal entry is kept.
\<close>

definition delivery_rely :: "'p delivery_env \<Rightarrow> int \<Rightarrow> int \<Rightarrow> bool" where
  "delivery_rely E S T \<longleftrightarrow> journal_ok (de_journal E) \<and> T < S + 86400000
     \<and> (\<forall>n. S \<le> jw_now (de_weather E n) \<and> jw_now (de_weather E n) \<le> T)
     \<and> (\<forall>n R. (\<lambda>R R'. \<exists>o'. o' \<noteq> de_owner E \<and> client_call (de_journal E) S T o' R R')\<^sup>*\<^sup>* R (de_other E n R))"

lemma rely_keeps: "delivery_rely E S T \<Longrightarrow> client_keeps (de_journal E) T (de_owner E) R (de_other E n R)"
  unfolding delivery_rely_def using client_calls_keep by blast

text \<open>A transaction may leave when the evidence allowed it at the await just before, for an entry of the request.\<close>

definition cleared :: "'p delivery_env \<Rightarrow> string \<Rightarrow> nat \<Rightarrow> signed_issuance \<Rightarrow> bool" where
  "cleared E i n t \<longleftrightarrow> (\<exists>m e. n = Suc m \<and> requestId (ie_requestId e) = Inr i \<and> ie_transaction e = Some t
     \<and> de_assertMayBroadcast E m e = Inr ())"

text \<open>
  The transactions of \<open>X\<close> stay on record, each one sent was cleared and is on record, and the step
  itself made only calls of the kind that it relies on.
\<close>

definition delivery_safe :: "'p delivery_env \<Rightarrow> int \<Rightarrow> int \<Rightarrow> string \<Rightarrow> (string \<times> string) set \<Rightarrow> 'p delivery_world \<Rightarrow> bool" where
  "delivery_safe E S T i X w \<longleftrightarrow> (\<forall>(k, h) \<in> X. on_record (de_journal E) T (dw_redis w) k h)
     \<and> (\<forall>(n, t) \<in> set (dw_sent w). cleared E i n t \<and> on_record (de_journal E) T (dw_redis w) i (sg_hash t))
     \<and> (\<forall>(R, R') \<in> set (dw_calls w). client_call (de_journal E) S T (de_owner E) R R')"

definition delivery_at :: "'p delivery_env \<Rightarrow> int \<Rightarrow> int \<Rightarrow> string \<Rightarrow> (string \<times> string) set \<Rightarrow> issuance_entry \<Rightarrow> 'p delivery_world \<Rightarrow> bool" where
  "delivery_at E S T i X e w \<longleftrightarrow> delivery_safe E S T i X w \<and> requestId (ie_requestId e) = Inr i \<and> held (de_journal E) (dw_redis w) i (de_owner E) e"

text \<open>The entry was saved for sending: its transactions are on record.\<close>

definition delivery_ready :: "'p delivery_env \<Rightarrow> int \<Rightarrow> int \<Rightarrow> string \<Rightarrow> (string \<times> string) set \<Rightarrow> issuance_entry \<Rightarrow> 'p delivery_world \<Rightarrow> bool" where
  "delivery_ready E S T i X e w \<longleftrightarrow> delivery_at E S T i X e w \<and> (\<forall>h \<in> hashes_of e. on_record (de_journal E) T (dw_redis w) i h)"

lemma at_safe: "delivery_at E S T i X e w \<Longrightarrow> delivery_safe E S T i X w"
  by (simp add: delivery_at_def)

lemma ready_at: "delivery_ready E S T i X e w \<Longrightarrow> delivery_at E S T i X e w"
  by (simp add: delivery_ready_def)

lemma safe_mono: "delivery_safe E S T i X w \<Longrightarrow> (\<And>k h. on_record (de_journal E) T (dw_redis w) k h \<Longrightarrow> on_record (de_journal E) T (dw_redis w') k h)
    \<Longrightarrow> dw_sent w' = dw_sent w
    \<Longrightarrow> \<forall>c \<in> set (dw_calls w') - set (dw_calls w). client_call (de_journal E) S T (de_owner E) (fst c) (snd c)
    \<Longrightarrow> delivery_safe E S T i X w'"
  unfolding delivery_safe_def by (simp add: split_beta) blast

lemma other_steps:
  assumes "delivery_rely E S T" "dw_redis w' = de_other E n (dw_redis w)" "dw_sent w' = dw_sent w" "dw_calls w' = dw_calls w"
  shows "delivery_safe E S T i X w \<Longrightarrow> delivery_safe E S T i X w'" "delivery_at E S T i X e w \<Longrightarrow> delivery_at E S T i X e w'"
    "delivery_ready E S T i X e w \<Longrightarrow> delivery_ready E S T i X e w'"
proof -
  have k: "client_keeps (de_journal E) T (de_owner E) (dw_redis w) (dw_redis w')" unfolding assms(2) by (rule rely_keeps [OF assms(1)])
  then have r: "on_record (de_journal E) T (dw_redis w) k h \<Longrightarrow> on_record (de_journal E) T (dw_redis w') k h" for k h by (simp add: client_keeps_def)
  show s: "delivery_safe E S T i X w \<Longrightarrow> delivery_safe E S T i X w'" by (rule safe_mono) (use r assms(3,4) in auto)
  show a: "delivery_at E S T i X e w \<Longrightarrow> delivery_at E S T i X e w'"
    unfolding delivery_at_def using s client_keeps_held [OF k] by blast
  show "delivery_ready E S T i X e w \<Longrightarrow> delivery_ready E S T i X e w'"
    using a r by (simp add: delivery_ready_def)
qed

text \<open>Triples of the building blocks, with the safety of the world on every way out.\<close>

named_theorems delivery_triples

lemma outside_triple:
  assumes "delivery_rely E S T"
  shows "triple (delivery_at E S T i X e) (outside E f) (\<lambda>_. delivery_at E S T i X e) (\<lambda>_. delivery_at E S T i X e)"
  by (rule tripleI) (auto simp: outside_def intro: other_steps(2) [OF assms])

lemma outside_at [delivery_triples]:
  "delivery_rely E S T \<Longrightarrow> triple (delivery_at E S T i X e) (outside E f) (\<lambda>_. delivery_at E S T i X e) (\<lambda>_. delivery_safe E S T i X)"
  by (rule triple_weaken [OF outside_triple]) (auto dest: at_safe)

lemma clock_at [delivery_triples]:
  "triple (delivery_at E S T i X e) (clock E) (\<lambda>_. delivery_at E S T i X e) (\<lambda>_. delivery_safe E S T i X)"
  by (auto simp: triple_def clock_def delivery_at_def delivery_safe_def)

lemma return_at [delivery_triples]:
  "triple (delivery_at E S T i X e) return_snapshot Q (\<lambda>_. delivery_safe E S T i X)"
  by (auto simp: triple_def return_snapshot_def io_defs dest: at_safe)

text \<open>A save of an entry that keeps the hashes of the one that is held.\<close>

lemma save_call:
  assumes rely: "delivery_rely E S T" and e': "extends e e'"
  shows "triple (delivery_at E S T i X e) (journal_call E (\<lambda>W. redis_save (de_journal E) W (n, e') (de_owner E)))
    (\<lambda>s w. snd s = e' \<and> delivery_at E S T i X e' w \<and> (\<not> terminal e' \<longrightarrow> delivery_ready E S T i X e' w)) (\<lambda>_. delivery_safe E S T i X)"
proof -
  let ?J = "de_journal E" and ?me = "de_owner E"
  have *: "case r of Inr s \<Rightarrow> snd s = e' \<and> delivery_at E S T i X e' w' \<and> (\<not> terminal e' \<longrightarrow> delivery_ready E S T i X e' w')
      | Inl x \<Rightarrow> delivery_safe E S T i X w'"
    if at: "delivery_at E S T i X e w" and res: "redis_save ?J (de_weather E m) (n, e') ?me (de_other E m (dw_redis w)) = (r, R)"
      and w': "w' = w\<lparr>dw_redis := R, dw_tick := t, dw_calls := dw_calls w @ [(de_other E m (dw_redis w), R)]\<rparr>" for w m r R w' t
  proof -
    define v where "v = w\<lparr>dw_redis := de_other E m (dw_redis w)\<rparr>"
    have v: "delivery_at E S T i X e v" using other_steps(2) [OF rely, of v m w i X e] at by (simp add: v_def)
    have id: "requestId (ie_requestId e') = Inr i" using v e' by (simp add: delivery_at_def extends_def)
    have ok: "journal_ok ?J" and time: "S \<le> jw_now (de_weather E m)" "jw_now (de_weather E m) \<le> T" "T < S + 86400000"
      using rely by (simp_all add: delivery_rely_def)
    then have opens: "jc_open ?J i (jc_seal ?J e') = Some e'" using id by (simp add: journal_ok_def)
    have "client_call ?J S T ?me (dw_redis v) (snd (redis_save ?J (de_weather E m) (n, e') ?me (dw_redis v)))"
      using v by (intro call_save [OF time(1,2) _ _ e', where i = i]) (simp_all add: delivery_at_def)
    then have call: "client_call ?J S T ?me (dw_redis v) R" using res by (simp add: v_def)
    from save_effect [OF ok id res] consider
      (saved) "saves ?J (jw_now (de_weather E m)) i ?me e' (dw_redis v) R" "\<forall>k x. r = Inr (k, x) \<longrightarrow> x = e'"
      | (not) "only_leases i ?me (dw_redis v) R" "isl r"
      by (auto simp: v_def)
    then show ?thesis
    proof cases
      case saved
      have "on_record ?J T R k h" if "on_record ?J T (dw_redis v) k h" for k h
        using saves_records [OF saved(1) _ _ opens _ that, of e] v e' time by (simp add: delivery_at_def extends_def)
      then have safe: "delivery_safe E S T i X w'"
        using call by (intro safe_mono [OF at_safe [OF v]]) (auto simp: w' v_def)
      then have "delivery_at E S T i X e' w'"
        unfolding delivery_at_def using saves_held(1) [OF saved(1) opens] id by (simp add: w')
      moreover have "\<forall>h \<in> hashes_of e'. on_record ?J T (dw_redis w') i h" if "\<not> terminal e'"
        using saves_held(2) [OF saved(1) opens that] by (simp add: w')
      ultimately show ?thesis using safe saved(2) by (cases r) (auto simp: delivery_ready_def)
    next
      case not
      have "delivery_safe E S T i X w'"
        using call only_leases_records [OF not(1)] by (intro safe_mono [OF at_safe [OF v]]) (auto simp: w' v_def)
      with not(2) show ?thesis by (cases r) auto
    qed
  qed
  show ?thesis
  proof (rule tripleI)
    fix w x w' assume a: "delivery_at E S T i X e w" "journal_call E (\<lambda>W. redis_save ?J W (n, e') ?me) w = (Inl x, w')"
    obtain r R where r: "redis_save ?J (de_weather E (dw_tick w)) (n, e') ?me (de_other E (dw_tick w) (dw_redis w)) = (r, R)" by fastforce
    from * [OF a(1) r refl] a(2) r show "delivery_safe E S T i X w'" by (cases r) (auto simp: journal_call_def)
  next
    fix w s w' assume a: "delivery_at E S T i X e w" "journal_call E (\<lambda>W. redis_save ?J W (n, e') ?me) w = (Inr s, w')"
    obtain r R where r: "redis_save ?J (de_weather E (dw_tick w)) (n, e') ?me (de_other E (dw_tick w) (dw_redis w)) = (r, R)" by fastforce
    from * [OF a(1) r refl] a(2) r
    show "snd s = e' \<and> delivery_at E S T i X e' w' \<and> (\<not> terminal e' \<longrightarrow> delivery_ready E S T i X e' w')"
      by (cases r) (auto simp: journal_call_def)
  qed
qed

lemma save_entry_at:
  assumes "delivery_rely E S T" "extends e e'"
  shows "triple (delivery_at E S T i X e) (save_entry E e')
    (\<lambda>x w. x = e' \<and> delivery_at E S T i X e' w \<and> (\<not> terminal e' \<longrightarrow> delivery_ready E S T i X e' w)) (\<lambda>_. delivery_safe E S T i X)"
proof -
  let ?Q = "\<lambda>x w. x = e' \<and> delivery_at E S T i X e' w \<and> (\<not> terminal e' \<longrightarrow> delivery_ready E S T i X e' w)"
  have keep: "triple (\<lambda>w. ?Q (snd s) w) (seq (set_snapshot s) (\<lambda>_. ret (snd s))) ?Q (\<lambda>_. delivery_safe E S T i X)" for s
    by (auto simp: triple_def io_defs set_snapshot_def delivery_at_def delivery_safe_def delivery_ready_def)
  have saved: "triple (\<lambda>w. delivery_at E S T i X e w \<and> dw_snapshot w = s) (journal_call E (\<lambda>W. redis_save (de_journal E) W (n, e') (de_owner E)))
      (\<lambda>s. ?Q (snd s)) (\<lambda>_. delivery_safe E S T i X)" for s n
    by (rule triple_weaken [OF save_call [OF assms]]) simp_all
  show ?thesis unfolding save_entry_def by (intro triple_gets_seq triple_seq [OF saved] keep)
qed

lemma save_at [delivery_triples]:
  assumes "delivery_rely E S T" "extends e e'"
  shows "triple (delivery_at E S T i X e) (save_entry E e') (delivery_at E S T i X) (\<lambda>_. delivery_safe E S T i X)"
  by (rule triple_weaken [OF save_entry_at [OF assms]]) simp_all

lemma save_ready:
  assumes "delivery_rely E S T" "extends e e'" "\<not> terminal e'"
  shows "triple (delivery_at E S T i X e) (save_entry E e') (\<lambda>x w. x = e' \<and> delivery_ready E S T i X e' w) (\<lambda>_. delivery_safe E S T i X)"
  by (rule triple_weaken [OF save_entry_at [OF assms(1,2)]]) (simp_all add: assms(3))

lemma triple_known: "triple (P y) (m y) Q E \<Longrightarrow> triple (\<lambda>w. x = y \<and> P y w) (m x) Q E"
  by (auto simp: triple_def)

lemma extends_simps [simp]:
  "extends e e" "extends e (e\<lparr>ie_evidenceStored := b\<rparr>)" "extends e (e\<lparr>ie_lastError := c\<rparr>)" "extends e (e\<lparr>ie_phase := ph, ie_lastError := c\<rparr>)"
  "extends e (e\<lparr>ie_phase := ph, ie_sourceConfirmation := sc\<rparr>)" "extends e (e\<lparr>ie_phase := ph, ie_lastError := c, ie_sourceConfirmation := sc\<rparr>)"
  "extends e (e\<lparr>ie_phase := ph, ie_sourceConfirmation := sc, ie_lastError := c\<rparr>)" "extends e (e\<lparr>ie_broadcastAcceptedAt := t, ie_lastError := c\<rparr>)"
  "extends e (e\<lparr>ie_phase := ph, ie_materializedAt := t, ie_lastError := c\<rparr>)" "extends e (retried e now)"
  by (auto simp: extends_def hashes_of_def retried_def split: option.splits)

lemma extends_signed: "ie_transaction e = None \<Longrightarrow> extends e (e\<lparr>ie_transaction := Some t\<rparr>)"
  by (auto simp: extends_def hashes_of_def)

lemma fail_at [delivery_triples]:
  "delivery_rely E S T \<Longrightarrow> triple (delivery_at E S T i X e) (fail_entry E e c) Q (\<lambda>_. delivery_safe E S T i X)"
  unfolding fail_entry_def by (rule triple_seq [OF save_at return_at]) simp_all

lemma first_checks_at:
  assumes rely: "delivery_rely E S T"
  shows "triple (delivery_at E S T i X e) (first_checks E e) (delivery_at E S T i X) (\<lambda>_. delivery_safe E S T i X)"
proof -
  have fin: "triple (delivery_at E S T i X e) (if \<not> is_issued e then fail_entry E e c else ret e) (delivery_at E S T i X) (\<lambda>_. delivery_safe E S T i X)" for e c
    by (intro triple_if fail_at [OF rely] triple_ret)
  have put: "triple (delivery_at E S T i X e) (if ie_evidenceStored e then ret e
      else seq (outside E (\<lambda>n. de_put E n e)) (\<lambda>_. save_entry E (e\<lparr>ie_evidenceStored := True\<rparr>))) (delivery_at E S T i X) (\<lambda>_. delivery_safe E S T i X)"
    by (intro triple_if triple_ret triple_seq [OF outside_at [OF rely]] save_at [OF rely]) simp_all
  have time: "triple (delivery_at E S T i X e) (if b then seq (clock E) (\<lambda>t. ret (ie_prepareUntil e \<le> t)) else ret False)
      (\<lambda>_. delivery_at E S T i X e) (\<lambda>_. delivery_safe E S T i X)" for b
    by (intro triple_if triple_seq [OF clock_at] triple_ret)
  show ?thesis unfolding first_checks_def
    by (intro triple_if return_at triple_seq [OF time] fail_at [OF rely] triple_seq [OF put] fin)
qed

lemma retry_at:
  assumes rely: "delivery_rely E S T"
  shows "triple (delivery_at E S T i X e) (retry_entry E e) (delivery_at E S T i X) (\<lambda>_. delivery_safe E S T i X)"
proof -
  have time: "triple (delivery_at E S T i X e) (if b then ret 0 else clock E) (\<lambda>_. delivery_at E S T i X e) (\<lambda>_. delivery_safe E S T i X)" for b
    by (intro triple_if triple_ret clock_at)
  show ?thesis unfolding retry_entry_def
    by (intro triple_seq [OF outside_at [OF rely]] triple_if triple_ret return_at triple_seq [OF time] save_at [OF rely]) simp_all
qed

lemma reserve_at:
  "delivery_rely E S T \<Longrightarrow> triple (delivery_at E S T i X e) (reserve_gas E e' t) (\<lambda>_. delivery_at E S T i X e) (\<lambda>_. delivery_safe E S T i X)"
  unfolding reserve_gas_def by (auto split: sum.split intro: outside_at triple_throw at_safe)

lemma sign_at:
  assumes rely: "delivery_rely E S T"
  shows "triple (delivery_at E S T i X e) (sign_entry E e) (\<lambda>(e, b). delivery_at E S T i X e) (\<lambda>_. delivery_safe E S T i X)"
proof -
  have late: "triple (delivery_at E S T i X e) (too_late E e) (\<lambda>_. delivery_at E S T i X e) (\<lambda>_. delivery_safe E S T i X)"
    unfolding too_late_def by (intro triple_seq [OF clock_at] triple_if triple_ret)
  have gas: "triple (delivery_at E S T i X e) (if de_budget E then reserve_gas E e t else ret ()) (\<lambda>_. delivery_at E S T i X e) (\<lambda>_. delivery_safe E S T i X)" for t
    by (intro triple_if reserve_at [OF rely] triple_ret)
  show ?thesis
  proof (cases "ie_transaction e")
    case None
    then show ?thesis unfolding sign_entry_def
      by (simp, intro triple_seq [OF late] triple_if fail_at [OF rely] triple_seq [OF outside_at [OF rely]] triple_guard_seq
          triple_seq [OF gas] triple_seq [OF save_at [OF rely extends_signed]] triple_ret) (auto dest: at_safe)
  next
    case (Some t)
    then show ?thesis unfolding sign_entry_def by (auto intro: triple_ret)
  qed
qed

lemma charge_at:
  "delivery_rely E S T \<Longrightarrow> triple (delivery_at E S T i X e) (charge_entry E e b) (\<lambda>_. delivery_at E S T i X e) (\<lambda>_. delivery_safe E S T i X)"
  unfolding charge_entry_def by (auto split: option.split intro!: reserve_at triple_ret)

text \<open>The broadcast: the evidence answered at the await before, and the entry is stored.\<close>

lemma cleared_at:
  assumes "delivery_rely E S T"
  shows "triple (delivery_ready E S T i X e) (outside E (\<lambda>n. de_assertMayBroadcast E n e))
    (\<lambda>_ w. delivery_ready E S T i X e w \<and> (\<forall>t. ie_transaction e = Some t \<longrightarrow> cleared E i (dw_tick w) t)) (\<lambda>_. delivery_safe E S T i X)"
proof (rule tripleI)
  fix w x w' assume a: "delivery_ready E S T i X e w" "outside E (\<lambda>n. de_assertMayBroadcast E n e) w = (Inl x, w')"
  from tripleD_Inl [OF outside_at [OF assms] ready_at [OF a(1)] a(2)] show "delivery_safe E S T i X w'" .
next
  fix w x w' assume a: "delivery_ready E S T i X e w" "outside E (\<lambda>n. de_assertMayBroadcast E n e) w = (Inr x, w')"
  from a(2) have w': "dw_tick w' = Suc (dw_tick w)" "de_assertMayBroadcast E (dw_tick w) e = Inr ()"
    "dw_redis w' = de_other E (dw_tick w) (dw_redis w)" "dw_sent w' = dw_sent w" "dw_calls w' = dw_calls w"
    by (auto simp: outside_def map_sum_def split: sum.splits)
  have "requestId (ie_requestId e) = Inr i" using a(1) by (simp add: delivery_ready_def delivery_at_def)
  with w' other_steps(3) [OF assms w'(3-5) a(1)]
  show "delivery_ready E S T i X e w' \<and> (\<forall>t. ie_transaction e = Some t \<longrightarrow> cleared E i (dw_tick w') t)" by (auto simp: cleared_def)
qed

lemma broadcast_at:
  assumes rely: "delivery_rely E S T"
  shows "triple (\<lambda>w. delivery_ready E S T i X e w \<and> (\<forall>t. ie_transaction e = Some t \<longrightarrow> cleared E i (dw_tick w) t)) (broadcast_entry E e)
    (\<lambda>_. delivery_at E S T i X e) (\<lambda>_. delivery_at E S T i X e)"
proof (cases "ie_transaction e")
  case None
  then show ?thesis unfolding broadcast_entry_def by (auto intro: triple_throw dest: ready_at)
next
  case (Some t)
  have sent: "delivery_at E S T i X e (w\<lparr>dw_sent := dw_sent w @ [(dw_tick w, t)]\<rparr>)"
    if "delivery_ready E S T i X e w" "cleared E i (dw_tick w) t" for w
    using that Some by (auto simp: delivery_ready_def delivery_at_def delivery_safe_def hashes_of_def)
  show ?thesis unfolding broadcast_entry_def Some option.case
  proof (rule tripleI)
    fix w x w' assume a: "delivery_ready E S T i X e w \<and> (\<forall>ta. Some t = Some ta \<longrightarrow> cleared E i (dw_tick w) ta)"
      and r: "outside E (\<lambda>n. de_broadcast E n t) (w\<lparr>dw_sent := dw_sent w @ [(dw_tick w, t)]\<rparr>) = (Inl x, w')"
    from a have "delivery_at E S T i X e (w\<lparr>dw_sent := dw_sent w @ [(dw_tick w, t)]\<rparr>)" by (intro sent) simp_all
    from tripleD_Inl [OF outside_triple [OF rely] this r] show "delivery_at E S T i X e w'" .
  next
    fix w x w' assume a: "delivery_ready E S T i X e w \<and> (\<forall>ta. Some t = Some ta \<longrightarrow> cleared E i (dw_tick w) ta)"
      and r: "outside E (\<lambda>n. de_broadcast E n t) (w\<lparr>dw_sent := dw_sent w @ [(dw_tick w, t)]\<rparr>) = (Inr x, w')"
    from a have "delivery_at E S T i X e (w\<lparr>dw_sent := dw_sent w @ [(dw_tick w, t)]\<rparr>)" by (intro sent) simp_all
    from tripleD_Inr [OF outside_triple [OF rely] this r] show "delivery_at E S T i X e w'" .
  qed
qed

lemma clock_any: "triple (delivery_at E S T i X e) (clock E) (\<lambda>_. delivery_at E S T i X e) (\<lambda>_. delivery_at E S T i X e)"
  by (auto simp: triple_def clock_def delivery_at_def delivery_safe_def)

lemma sending_at:
  assumes rely: "delivery_rely E S T"
  shows "triple (\<lambda>w. delivery_ready E S T i X e w \<and> (\<forall>t. ie_transaction e = Some t \<longrightarrow> cleared E i (dw_tick w) t))
    (try_catch (seq (broadcast_entry E e) (\<lambda>_. accepted E e)) (\<lambda>_. ret (e\<lparr>ie_lastError := Some c\<rparr>)))
    (\<lambda>x w. delivery_at E S T i X e w \<and> extends e x) (\<lambda>_. delivery_safe E S T i X)"
proof (rule triple_try)
  have "triple (delivery_at E S T i X e) (case ie_broadcastAcceptedAt e of Some t \<Rightarrow> ret t | None \<Rightarrow> clock E) (\<lambda>_. delivery_at E S T i X e) (\<lambda>_. delivery_at E S T i X e)"
    by (auto split: option.split intro: clock_any triple_ret)
  then have acc: "triple (delivery_at E S T i X e) (accepted E e) (\<lambda>x w. delivery_at E S T i X e w \<and> extends e x) (\<lambda>_. delivery_at E S T i X e)"
    unfolding accepted_def by (rule triple_seq) (auto intro: triple_ret)
  show "triple (\<lambda>w. delivery_ready E S T i X e w \<and> (\<forall>t. ie_transaction e = Some t \<longrightarrow> cleared E i (dw_tick w) t)) (seq (broadcast_entry E e) (\<lambda>_. accepted E e))
      (\<lambda>x w. delivery_at E S T i X e w \<and> extends e x) (\<lambda>_. delivery_at E S T i X e)"
    by (rule triple_seq [OF broadcast_at [OF rely] acc])
qed (simp add: triple_ret)

lemma save_extended:
  assumes rely: "delivery_rely E S T"
  shows "triple (\<lambda>w. delivery_at E S T i X e w \<and> extends e x) (save_entry E x) (delivery_at E S T i X) (\<lambda>_. delivery_safe E S T i X)"
proof (cases "extends e x")
  case True
  show ?thesis by (rule triple_weaken [OF save_at [OF rely True]]) simp_all
qed (simp add: triple_def)

lemma send_at:
  assumes rely: "delivery_rely E S T"
  shows "triple (delivery_at E S T i X e) (send_entry E e) (\<lambda>(e, rc). delivery_at E S T i X e) (\<lambda>_. delivery_safe E S T i X)"
proof -
  let ?safe = "\<lambda>_. delivery_safe E S T i X" and ?Q = "\<lambda>(e, rc). delivery_at E S T i X e"
  have again: "triple (\<lambda>w. delivery_at E S T i X e w \<and> extends e x) (seq (save_entry E x) (\<lambda>e. seq (outside E (\<lambda>n. de_receipt E n e)) (\<lambda>rc. ret (e, rc)))) ?Q ?safe"
    for e x
    by (rule triple_seq [OF save_extended [OF rely]], rule triple_seq [OF outside_at [OF rely]], rule triple_ret) simp
  show ?thesis unfolding send_entry_def
    apply (rule triple_seq [OF outside_at [OF rely]], rule triple_if, rule triple_ret, simp)
    apply (rule triple_seq [OF outside_at [OF rely]], rule triple_seq [OF save_ready [OF rely]], simp, simp add: terminal_def)
    apply (rule triple_known, rule triple_seq [OF cleared_at [OF rely]], rule triple_seq [OF sending_at [OF rely]], rule again)
    done
qed

lemma reconcile_at:
  "delivery_rely E S T \<Longrightarrow> triple (delivery_at E S T i X e) (reconcile_gas E e c) (\<lambda>_. delivery_at E S T i X e) (\<lambda>_. delivery_safe E S T i X)"
  unfolding reconcile_gas_def by (auto split: option.split intro!: outside_at triple_throw triple_ret triple_if at_safe)

lemma settle_at:
  assumes rely: "delivery_rely E S T"
  shows "triple (delivery_at E S T i X e) (settle_entry E e rc) Q (\<lambda>_. delivery_safe E S T i X)"
proof -
  have time: "triple (delivery_at E S T i X e) (case ie_materializedAt e of Some t \<Rightarrow> ret t | None \<Rightarrow> clock E) (\<lambda>_. delivery_at E S T i X e) (\<lambda>_. delivery_safe E S T i X)" for e
    by (auto split: option.split intro: clock_at triple_ret)
  have conf: "triple (delivery_at E S T i X e) (confirm_entry E e c) Q (\<lambda>_. delivery_safe E S T i X)" for c
    unfolding confirm_entry_def
    by (intro triple_seq [OF outside_at [OF rely]] triple_if return_at triple_seq [OF save_at [OF rely]] triple_seq [OF time]) simp_all
  show ?thesis unfolding settle_entry_def
    by (cases rc; simp; intro return_at triple_seq [OF reconcile_at [OF rely]] conf triple_seq [OF save_at [OF rely]]) simp_all
qed

lemma body_at:
  assumes rely: "delivery_rely E S T"
  shows "triple (delivery_at E S T i X e) (delivery_body E e) (\<lambda>_. delivery_safe E S T i X) (\<lambda>_. delivery_safe E S T i X)"
  unfolding delivery_body_def
  by (intro triple_seq [OF first_checks_at [OF rely]] triple_seq [OF retry_at [OF rely]] triple_seq [OF sign_at [OF rely]])
    (clarsimp, intro triple_seq [OF charge_at [OF rely]] triple_seq [OF send_at [OF rely]], clarsimp intro!: settle_at [OF rely])

text \<open>The calls that only read or lease, from a world that is safe.\<close>

lemma read_call:
  assumes rely: "delivery_rely E S T" and f: "\<And>W R. only_leases i me R (snd (f W R))"
    and call: "\<And>W R. S \<le> jw_now W \<Longrightarrow> jw_now W \<le> T \<Longrightarrow> client_call (de_journal E) S T (de_owner E) R (snd (f W R))"
    and pick: "\<And>W R x R' s. f W R = (Inr x, R') \<Longrightarrow> pick x = Some s
      \<Longrightarrow> \<exists>q. obj_get (rd_requests R') i = Some q \<and> jc_open (de_journal E) i (rq_payload q) = Some s \<and> requestId (ie_requestId s) = Inr i"
  shows "triple (delivery_safe E S T i X) (journal_call E f)
    (\<lambda>x w. delivery_safe E S T i X w \<and> (\<forall>s. pick x = Some s \<longrightarrow> delivery_at E S T i X s w)) (\<lambda>_. delivery_safe E S T i X)"
proof -
  have step: "delivery_safe E S T i X w'" if "delivery_safe E S T i X w" "journal_call E f w = (r, w')" for w r w'
  proof -
    let ?v = "w\<lparr>dw_redis := de_other E (dw_tick w) (dw_redis w)\<rparr>"
    have v: "delivery_safe E S T i X ?v" using other_steps(1) [OF rely, of ?v "dw_tick w" w] that(1) by simp
    let ?R = "snd (f (de_weather E (dw_tick w)) (dw_redis ?v))"
    have "dw_redis w' = ?R" "dw_sent w' = dw_sent ?v" "dw_calls w' = dw_calls ?v @ [(dw_redis ?v, ?R)]"
      using that(2) by (auto simp: journal_call_def split: prod.splits)
    moreover have "client_call (de_journal E) S T (de_owner E) (dw_redis ?v) ?R"
      by (rule call) (use rely in \<open>simp_all add: delivery_rely_def\<close>)
    ultimately show ?thesis using only_leases_records [OF f] by (intro safe_mono [OF v]) auto
  qed
  have "delivery_at E S T i X s w'" if "delivery_safe E S T i X w" "journal_call E f w = (Inr x, w')" "pick x = Some s" for w x w' s
  proof -
    from that(2) have "f (de_weather E (dw_tick w)) (de_other E (dw_tick w) (dw_redis w)) = (Inr x, dw_redis w')"
      by (auto simp: journal_call_def map_sum_def split: prod.splits sum.splits)
    from pick [OF this that(3)] obtain q where "obj_get (rd_requests (dw_redis w')) i = Some q"
      "jc_open (de_journal E) i (rq_payload q) = Some s" "requestId (ie_requestId s) = Inr i" by blast
    with step [OF that(1,2)] stored_held show ?thesis unfolding delivery_at_def by blast
  qed
  with step show ?thesis by (intro tripleI) blast+
qed

lemma get_call:
  assumes "delivery_rely E S T" "requestId rid = Inr i"
  shows "triple (delivery_safe E S T i X) (journal_call E (\<lambda>W. redis_get (de_journal E) W rid))
    (\<lambda>x w. delivery_safe E S T i X w \<and> (\<forall>s. map_option snd x = Some s \<longrightarrow> delivery_at E S T i X s w)) (\<lambda>_. delivery_safe E S T i X)"
proof (rule read_call [OF assms(1), where me = "[]"])
  show "only_leases i [] R (snd (redis_get (de_journal E) W rid R))" for W R
    using run_lease_effect [OF _ _ assms(2), of "''get''" "[]" R "de_journal E" W None]
    by (auto simp: redis_get_def split: prod.splits sum.splits if_splits)
  show "client_call (de_journal E) S T (de_owner E) R (snd (redis_get (de_journal E) W rid R))" if "S \<le> jw_now W" "jw_now W \<le> T" for W R
    by (rule call_get [OF that])
  fix W R x R' s assume "redis_get (de_journal E) W rid R = (Inr x, R')" "map_option snd x = Some s"
  then obtain n where "run_snapshot (de_journal E) W ''get'' rid [] None R = (Inr (n, s), R')"
    by (auto simp: redis_get_def run_snapshot_def split: prod.splits sum.splits if_splits)
  from run_snapshot_stored [OF this assms(2)]
  show "\<exists>q. obj_get (rd_requests R') i = Some q \<and> jc_open (de_journal E) i (rq_payload q) = Some s \<and> requestId (ie_requestId s) = Inr i" .
qed

lemma acquire_call:
  assumes "delivery_rely E S T" "requestId rid = Inr i"
  shows "triple (delivery_safe E S T i X) (journal_call E (\<lambda>W. redis_acquire_snapshot (de_journal E) W rid (de_owner E) s0))
    (\<lambda>x w. delivery_safe E S T i X w \<and> (\<forall>s. Some (snd x) = Some s \<longrightarrow> delivery_at E S T i X s w)) (\<lambda>_. delivery_safe E S T i X)"
proof (rule read_call [OF assms(1)])
  show "only_leases i (de_owner E) R (snd (redis_acquire_snapshot (de_journal E) W rid (de_owner E) s0 R))" for W R
    using run_lease_effect [OF _ _ assms(2), of "''acquire''" "de_owner E" R "de_journal E" W "Some s0"]
    by (auto simp: redis_acquire_snapshot_def run_snapshot_def split: prod.splits sum.splits)
  show "client_call (de_journal E) S T (de_owner E) R (snd (redis_acquire_snapshot (de_journal E) W rid (de_owner E) s0 R))"
    if "S \<le> jw_now W" "jw_now W \<le> T" for W R by (rule call_acquire [OF that])
  fix W R x R' s assume "redis_acquire_snapshot (de_journal E) W rid (de_owner E) s0 R = (Inr x, R')" "Some (snd x) = Some s"
  then have "run_snapshot (de_journal E) W ''acquire'' rid (de_owner E) (Some s0) R = (Inr (fst x, s), R')"
    by (auto simp: redis_acquire_snapshot_def)
  from run_snapshot_stored [OF this assms(2)]
  show "\<exists>q. obj_get (rd_requests R') i = Some q \<and> jc_open (de_journal E) i (rq_payload q) = Some s \<and> requestId (ie_requestId s) = Inr i" .
qed

lemma acquire_at:
  assumes "delivery_rely E S T" "requestId rid = Inr i"
  shows "triple (delivery_safe E S T i X) (acquire_entry E rid) (delivery_at E S T i X) (\<lambda>_. delivery_safe E S T i X)"
proof -
  have keep: "triple (\<lambda>w. delivery_safe E S T i X w \<and> (\<forall>e. Some (snd s) = Some e \<longrightarrow> delivery_at E S T i X e w))
      (seq (set_snapshot s) (\<lambda>_. ret (snd s))) (delivery_at E S T i X) (\<lambda>_. delivery_safe E S T i X)" for s
    by (auto simp: triple_def io_defs set_snapshot_def delivery_at_def delivery_safe_def)
  have acq: "triple (\<lambda>w. delivery_safe E S T i X w \<and> (\<forall>e. map_option snd (Some s) = Some e \<longrightarrow> delivery_at E S T i X e w))
      (journal_call E (\<lambda>W. redis_acquire_snapshot (de_journal E) W rid (de_owner E) s))
      (\<lambda>x w. delivery_safe E S T i X w \<and> (\<forall>e. Some (snd x) = Some e \<longrightarrow> delivery_at E S T i X e w)) (\<lambda>_. delivery_safe E S T i X)" for s
    by (rule triple_weaken [OF acquire_call [OF assms]]) simp_all
  show ?thesis unfolding acquire_entry_def
    by (rule triple_seq [OF get_call [OF assms]], rule triple_option, rule triple_throw, simp) (hypsubst, rule triple_seq [OF acq keep])
qed

lemma failure_at:
  assumes rely: "delivery_rely E S T" and rid: "requestId rid = Inr i"
  shows "triple (delivery_safe E S T i X) (on_failure E rid x) (\<lambda>_. delivery_safe E S T i X) (\<lambda>_. delivery_safe E S T i X)"
proof -
  have save: "triple (\<lambda>w. delivery_safe E S T i X w \<and> (\<forall>e. map_option snd (Some s) = Some e \<longrightarrow> delivery_at E S T i X e w))
      (journal_call E (\<lambda>W. redis_save (de_journal E) W (fst s, (snd s)\<lparr>ie_lastError := Some c\<rparr>) (de_owner E)))
      (\<lambda>_. delivery_safe E S T i X) (\<lambda>_. delivery_safe E S T i X)" for s c
    by (rule triple_weaken [OF save_call [OF rely, of "snd s"]]) (auto dest: at_safe)
  have after: "triple (\<lambda>w. (delivery_safe E S T i X w \<and> (\<forall>e. map_option snd (Some s) = Some e \<longrightarrow> delivery_at E S T i X e w)) \<and> dw_snapshot w = y)
      (if b then journal_call E (\<lambda>W. redis_save (de_journal E) W (fst s, (snd s)\<lparr>ie_lastError := Some c\<rparr>) (de_owner E)) else ret s)
      (\<lambda>_. delivery_safe E S T i X) (\<lambda>_. delivery_safe E S T i X)" for s c y b
    by (rule triple_if, rule triple_weaken [OF save]) (auto intro: triple_ret)
  have "triple (delivery_safe E S T i X) (on_failure E rid (Thrown OtherFailure)) (\<lambda>_. delivery_safe E S T i X) (\<lambda>_. delivery_safe E S T i X)"
    unfolding on_failure_def
    by (simp only: leaving.case delivery_error.case, rule triple_seq [OF get_call [OF rely rid]], rule triple_option, rule triple_throw, simp)
      (hypsubst, rule triple_gets_seq, rule after)
  then show ?thesis
    by (cases x rule: leaving.exhaust; cases "x = Thrown OtherFailure")
      (auto simp: on_failure_def intro!: triple_throw split: delivery_error.split)
qed

lemma release_safe:
  assumes rely: "delivery_rely E S T" and rid: "requestId rid = Inr i" and w: "delivery_safe E S T i X w"
  shows "delivery_safe E S T i X (release_lease E rid w)"
proof -
  let ?v = "w\<lparr>dw_redis := de_other E (dw_tick w) (dw_redis w)\<rparr>"
  have v: "delivery_safe E S T i X ?v" using other_steps(1) [OF rely, of ?v "dw_tick w" w] w by simp
  have "only_leases i (de_owner E) (dw_redis ?v) (dw_redis (release_lease E rid w))"
    using run_lease_effect [OF _ _ rid, of "''release''"] by (simp add: release_lease_def redis_release_def Let_def)
  moreover have "client_call (de_journal E) S T (de_owner E) R (redis_release (de_journal E) (de_weather E n) rid (de_owner E) R)" for n R
    by (rule call_release) (use rely in \<open>simp_all add: delivery_rely_def\<close>)
  ultimately show ?thesis
    using only_leases_records by (intro safe_mono [OF v]) (auto simp: release_lease_def Let_def)
qed

lemma advance_safe:
  assumes rely: "delivery_rely E S T" and rid: "requestId rid = Inr i" and w: "delivery_safe E S T i X w"
  shows "delivery_safe E S T i X (snd (advanceIssuance E rid w))"
proof -
  have m: "triple (delivery_safe E S T i X) (seq (acquire_entry E rid)
        (\<lambda>e. finally_do (try_catch (delivery_body E e) (on_failure E rid)) (release_lease E rid))) (\<lambda>_. delivery_safe E S T i X) (\<lambda>_. delivery_safe E S T i X)"
    using release_safe [OF rely rid]
    by (intro triple_seq [OF acquire_at [OF rely rid]] triple_finally triple_weaken [OF triple_try [OF body_at [OF rely] failure_at [OF rely rid]]])
  from keepsD [OF m w] show ?thesis
    by (auto simp: advanceIssuance_def split: prod.splits sum.splits leaving.splits)
qed

text \<open>C6. 
  No signed transaction leaves before it is durable, and none is forgotten. The other clients may
  make any journal calls of the program between two awaits, under other lease names, and the
  transport, the evidence store, the budget and Redis may answer as they like, within less than the
  day for which a terminal entry is kept. Then each transaction handed to the transport was cleared by the
  evidence sink at the await just before, for an entry of this request, and is on record in the
  journal at the end; every transaction that was on record before, of this or another request
  whose key does not expire meanwhile, still is; and every call the step made is one of those that
  it allows the other clients, so runs of it may work side by side.
\<close>
theorem sent_transactions_are_on_record:
  assumes "delivery_rely E S T" "requestId rid = Inr i" "dw_sent w = []" "dw_calls w = []" "advanceIssuance E rid w = (r, w')"
  shows "(\<forall>(n, t) \<in> set (dw_sent w'). cleared E i n t \<and> on_record (de_journal E) T (dw_redis w') i (sg_hash t))
    \<and> (\<forall>k h. on_record (de_journal E) T (dw_redis w) k h \<longrightarrow> on_record (de_journal E) T (dw_redis w') k h)
    \<and> (\<forall>(R, R') \<in> set (dw_calls w'). client_call (de_journal E) S T (de_owner E) R R')"
proof -
  let ?X = "{(k, h). on_record (de_journal E) T (dw_redis w) k h}"
  have "delivery_safe E S T i ?X w" using assms(3,4) by (simp add: delivery_safe_def)
  from advance_safe [OF assms(1,2) this] assms(5) show ?thesis by (auto simp: delivery_safe_def)
qed

section \<open>The evidence sink\<close>

text \<open>
  The vault that \<^verbatim>\<open>resolve\<close> gives for an entry, if any, as its data. A vault call goes through
  \<open>mutate\<close> of the storage; an error of it is none of the journal's or the budget's. The \<^verbatim>\<open>!\<close> in
  \<^verbatim>\<open>put(entry.evidenceRecord!)\<close> is not checked: without a record the vault throws.
\<close>

definition evidence_hash_of :: "issuance_entry \<Rightarrow> string" where
  "evidence_hash_of e = (case ie_outcome e of Issued c \<Rightarrow> ic_evidenceHash c | NotIssued s r h x \<Rightarrow> h)"

definition unavailable :: "issuance_entry \<Rightarrow> vault_data option \<Rightarrow> delivery_error + 'a \<Rightarrow> delivery_error + 'a" where
  "unavailable e v m = (if ie_evidenceRecord e \<noteq> None \<and> v = None then Inl (JournalFailure ''EVIDENCE_VAULT_UNAVAILABLE'') else m)"

definition vault_write :: "vault_error + 'a \<times> vault_data \<Rightarrow> delivery_error + vault_data option" where
  "vault_write x = (case x of Inl err \<Rightarrow> Inl OtherFailure | Inr (y, d) \<Rightarrow> Inr (Some d))"

definition sink_put :: "vault_data option \<Rightarrow> issuance_entry \<Rightarrow> delivery_error + vault_data option" where
  "sink_put v e = unavailable e v (case v of None \<Rightarrow> Inr None
     | Some d \<Rightarrow> (case ie_evidenceRecord e of None \<Rightarrow> Inl OtherFailure | Some r \<Rightarrow> vault_write (vault_put r d)))"

definition sink_assertMayBroadcast :: "delivery_error + unit \<Rightarrow> vault_data option \<Rightarrow> bool \<Rightarrow> int \<Rightarrow> issuance_entry \<Rightarrow> delivery_error + unit" where
  "sink_assertMayBroadcast screening v writable now e = (case screening of Inl x \<Rightarrow> Inl x | Inr _ \<Rightarrow>
     (case v of None \<Rightarrow> unavailable e v (Inr ())
      | Some d \<Rightarrow>
        if \<not> writable then Inl OtherFailure
        else (case vault_get (ie_requestId e) d of None \<Rightarrow> Inl (JournalFailure ''EVIDENCE_NOT_AUTHORIZED'')
          | Some r \<Rightarrow> if vr_evidenceHash r \<noteq> evidence_hash_of e \<or> vr_retentionUntil r \<le> now \<or> (vr_state r \<noteq> VPending \<and> vr_state r \<noteq> VActive)
              then Inl (JournalFailure ''EVIDENCE_NOT_AUTHORIZED'') else Inr ())))"

definition sink_sourceConfirmed :: "vault_data option \<Rightarrow> issuance_entry \<Rightarrow> source_confirmation \<Rightarrow> delivery_error + vault_data option" where
  "sink_sourceConfirmed v e c = (case v of None \<Rightarrow> unavailable e v (Inr None)
     | Some d \<Rightarrow> (case ie_transaction e of
         None \<Rightarrow> Inl (JournalFailure ''SOURCE_CONFIRMATION_UNAVAILABLE'')
       | Some t \<Rightarrow> if \<not> is_issued e then Inl (JournalFailure ''SOURCE_CONFIRMATION_UNAVAILABLE'')
           else vault_write (recordSourceConfirmation (ie_requestId e) (evidence_hash_of e)
             \<lparr>si_transactionHash = sg_hash t, si_chainId = tg_chainId (ie_target e), si_source = tg_source (ie_target e),
              si_observedAt = sc_confirmedAt c, si_hubMaterialized = False\<rparr> d)))"

definition sink_materialized :: "vault_data option \<Rightarrow> issuance_entry \<Rightarrow> delivery_error + vault_data option" where
  "sink_materialized v e = unavailable e v (case v of None \<Rightarrow> Inr None
     | Some d \<Rightarrow> vault_write (recordMaterialization (ie_requestId e) (evidence_hash_of e) d))"

text \<open>What the vault shows when a broadcast is allowed.\<close>

definition authorised :: "vault_data option \<Rightarrow> bool \<Rightarrow> int \<Rightarrow> issuance_entry \<Rightarrow> bool" where
  "authorised v writable now e \<longleftrightarrow> (case v of None \<Rightarrow> ie_evidenceRecord e = None
     | Some d \<Rightarrow> writable \<and> (\<exists>r. vault_get (ie_requestId e) d = Some r \<and> vr_evidenceHash r = evidence_hash_of e \<and> now < vr_retentionUntil r
         \<and> (vr_state r = VPending \<or> vr_state r = VActive)))"

lemma sink_authorised: "sink_assertMayBroadcast scr v writable now e = Inr () \<longleftrightarrow> scr = Inr () \<and> authorised v writable now e"
  by (auto simp: sink_assertMayBroadcast_def unavailable_def authorised_def split: sum.splits option.splits if_splits)

text \<open>C29. 
  With this sink, a transaction is handed to the transport only at an await right after the
  screening was current for an entry of the request with this transaction, and: if a vault is
  configured for the entry, the vault was writable and held the evidence of exactly this outcome,
  pending or active and within its retention; if none is (the sandbox, where the encrypted journal
  itself holds the evidence), the entry has no evidence record.
\<close>
theorem broadcast_needs_live_evidence:
  assumes "delivery_rely E S T" "requestId rid = Inr i" "dw_sent w = []" "dw_calls w = []" "advanceIssuance E rid w = (r, w')"
    and "\<And>n e. de_assertMayBroadcast E n e = sink_assertMayBroadcast (screening n e) (vaults n e) (writable n e) (now n e) e"
    and "(n, t) \<in> set (dw_sent w')"
  shows "\<exists>m e. n = Suc m \<and> requestId (ie_requestId e) = Inr i \<and> ie_transaction e = Some t \<and> screening m e = Inr ()
    \<and> (case vaults m e of
        Some d \<Rightarrow> writable m e \<and> (\<exists>r. vault_get (ie_requestId e) d = Some r \<and> vr_evidenceHash r = evidence_hash_of e
          \<and> now m e < vr_retentionUntil r \<and> vr_state r \<in> {VPending, VActive})
      | None \<Rightarrow> ie_evidenceRecord e = None)"
proof -
  have "delivery_safe E S T i {} w" using assms(3,4) by (simp add: delivery_safe_def)
  from advance_safe [OF assms(1,2) this] assms(5,7) have "cleared E i n t" by (auto simp: delivery_safe_def)
  then obtain m e where m: "n = Suc m" "requestId (ie_requestId e) = Inr i" "ie_transaction e = Some t"
    "screening m e = Inr ()" "authorised (vaults m e) (writable m e) (now m e) e"
    unfolding cleared_def assms(6) sink_authorised by blast
  then show ?thesis
    by (intro exI [of _ m] exI [of _ e]) (auto simp: authorised_def split: option.splits)
qed

section \<open>An example\<close>

text \<open>The vault of the example holds the active evidence of the request.\<close>

definition sample_evidence :: vault_data where
  "sample_evidence = empty_vault\<lparr>vd_records := [(sample_rid, sample_record\<lparr>vr_id := sample_rid, vr_state := VActive\<rparr>)]\<rparr>"

definition sample_weather :: journal_weather where
  "sample_weather = \<lparr>jw_now = 5, jw_acl = True, jw_delivery = Answered\<rparr>"

text \<open>Another client asks for the lease of the same request at every await after the step took it.\<close>

definition sample_delivery :: "issuance_entry delivery_env" where
  "sample_delivery = \<lparr>de_journal = sample_journal, de_owner = ''me'', de_retryFailed = False,
     de_weather = (\<lambda>n. sample_weather), de_now = (\<lambda>n. 5),
     de_other = (\<lambda>n R. if n < 2 then R
       else snd (redis_acquire_snapshot sample_journal sample_weather sample_rid ''you'' (1, sample_entry Prepared None) R)),
     de_assertTarget = (\<lambda>n e. Inr ()), de_processed = (\<lambda>n e. Inr False), de_prepare = (\<lambda>n e. Inr sample_signed),
     de_broadcast = (\<lambda>n t. Inr ()), de_receipt = (\<lambda>n e. Inr ReceiptPending), de_onHub = (\<lambda>n e c. Inr False),
     de_put = (\<lambda>n e. Inr ()), de_assertMayBroadcast = (\<lambda>n e. sink_assertMayBroadcast (Inr ()) (Some sample_evidence) True 5 e),
     de_sourceConfirmed = (\<lambda>n e c. Inr ()), de_materialized = (\<lambda>n e. Inr ()), de_budget = False,
     de_reserve = (\<lambda>n h s g. Inr ()), de_reconcile = (\<lambda>n h s g. Inr ()), de_rawGasLimit = (\<lambda>s. None)\<rparr>"

definition sample_start :: "issuance_entry delivery_world" where
  "sample_start = \<lparr>dw_redis = journal_calls [(''create'', [], 1, Some (0, sample_entry Prepared None))] empty_redis, dw_tick = 0,
     dw_snapshot = (0, sample_entry Prepared None), dw_sent = [], dw_calls = []\<rparr>"

lemma sample_rely: "delivery_rely sample_delivery 0 10"
proof -
  let ?step = "\<lambda>R R'. \<exists>o'. o' \<noteq> ''me'' \<and> client_call sample_journal 0 10 o' R R'"
  let ?ask = "\<lambda>R. snd (redis_acquire_snapshot sample_journal sample_weather sample_rid ''you'' (1, sample_entry Prepared None) R)"
  have w: "0 \<le> jw_now sample_weather" "jw_now sample_weather \<le> 10" by (simp_all add: sample_weather_def)
  have step: "?step R (?ask R)" for R
    by (rule exI [of _ "''you''"], rule conjI, simp, rule call_acquire [OF w])
  have other: "de_other sample_delivery n = (if n < 2 then (\<lambda>R. R) else ?ask)" for n
    by (rule ext) (simp add: sample_delivery_def)
  have "?step\<^sup>*\<^sup>* R (de_other sample_delivery n R)" for n R
    unfolding other using r_into_rtranclp [of ?step, OF step] by (cases "n < 2") simp_all
  moreover have "de_journal sample_delivery = sample_journal" "de_owner sample_delivery = ''me''" "de_weather sample_delivery n = sample_weather" for n
    by (simp_all add: sample_delivery_def)
  ultimately show ?thesis
    unfolding delivery_rely_def using w by (simp add: journal_ok_def sample_config)
qed

lemma sample_start_is: "sample_start = \<lparr>dw_redis = \<lparr>rd_requests = [(sample_rid, \<lparr>rq_revision = 1, rq_payload = sample_entry Prepared None,
     rq_signer = ''0xab'', rq_needsSigner = True, rq_owner = None, rq_leaseUntil = 0, rq_terminalExpiresAt = None, rq_expiry = None\<rparr>)],
     rd_signers = [], rd_pending = [(sample_rid, 1)], rd_active = []\<rparr>, dw_tick = 0, dw_snapshot = (0, sample_entry Prepared None), dw_sent = [], dw_calls = []\<rparr>"
  by (simp add: sample_start_def empty_redis_def journal_run_def sample_rid_ok sample_ids sample_open journal_args_of_def journal_eval_def Let_def
      live_request_def journal_create_def retain_def put_request_def sample_config)

lemma sample_get: "ie_version (sample_entry p t) = 1" "ie_phase (sample_entry p t) = p" "ie_evidenceStored (sample_entry p t) = False"
  "ie_prepareUntil (sample_entry p t) = 9" "is_issued (sample_entry p t)" "ie_lastError (sample_entry p t) = None" "ie_evidenceRecord (sample_entry p t) = None"
  "ie_broadcastAcceptedAt (sample_entry p t) = None" "same_target sample_signed (ie_target (sample_entry p t))"
  "ie_outcome (sample_entry p t) = Issued \<lparr>ic_attrs = ''t'', ic_claimsRoot = ''c'', ic_evidenceHash = ''e'', ic_methods = 0, ic_methodNames = [], ic_expiry = 9,
     ic_regime = 1, ic_claims = [], ic_evidence = JNull, ic_screeningSnapshotId = None\<rparr>"
  by (simp_all add: sample_entry_def is_issued_def same_target_def sample_signed_def)

text \<open>The world of the example once the step has the lease: the stored entry is the one of the variable.\<close>

definition sample_held :: "nat \<Rightarrow> issuance_entry \<Rightarrow> issuance_entry redis" where
  "sample_held n e = \<lparr>rd_requests = [(sample_rid, \<lparr>rq_revision = n, rq_payload = e, rq_signer = ''0xab'', rq_needsSigner = True,
       rq_owner = Some ''me'', rq_leaseUntil = 30005, rq_terminalExpiresAt = None, rq_expiry = None\<rparr>)], rd_signers = [(''0xab'', sample_rid)],
       rd_pending = [(sample_rid, 1)], rd_active = [sample_rid]\<rparr>"

type_synonym sample_log = "(issuance_entry redis \<times> issuance_entry redis) list"

definition sample_world :: "nat \<Rightarrow> issuance_entry \<Rightarrow> nat \<Rightarrow> (nat \<times> signed_issuance) list \<Rightarrow> sample_log \<Rightarrow> issuance_entry delivery_world" where
  "sample_world n e k ts cs = \<lparr>dw_redis = sample_held n e, dw_tick = k, dw_snapshot = (n, e), dw_sent = ts, dw_calls = cs\<rparr>"

definition sample_log0 :: sample_log where
  "sample_log0 = [(dw_redis sample_start, dw_redis sample_start), (dw_redis sample_start, sample_held 1 (sample_entry Prepared None))]"

lemma sample_acquire: "acquire_entry sample_delivery sample_rid sample_start = (Inr (sample_entry Prepared None), sample_world 1 (sample_entry Prepared None) 2 [] sample_log0)"
  unfolding sample_start_is sample_log0_def
  by (simp add: acquire_entry_def io_defs journal_call_def sample_delivery_def sample_weather_def redis_get_def redis_acquire_snapshot_def
      run_snapshot_def read_snapshot_def open_entry_def set_snapshot_def snapshot_reply_def sample_world_def sample_held_def
      journal_run_def sample_rid_ok sample_ids sample_open journal_args_of_def journal_eval_def Let_def take_signer_def signer_busy_def
      live_request_def journal_acquire_def put_request_def sample_config sample_get)

lemma sample_refused: "k \<ge> 2 \<Longrightarrow> de_other sample_delivery k (sample_held n e) = sample_held n e"
  by (simp add: sample_delivery_def sample_weather_def redis_acquire_snapshot_def run_snapshot_def sample_held_def journal_run_def sample_rid_ok
      sample_ids sample_open journal_args_of_def journal_eval_def Let_def live_request_def journal_acquire_def sample_config)

lemma sample_parts: "de_journal sample_delivery = sample_journal" "de_owner sample_delivery = ''me''" "de_weather sample_delivery n = sample_weather"
  "de_now sample_delivery n = 5"
  by (simp_all add: sample_delivery_def)

definition sample_like :: "issuance_entry \<Rightarrow> bool" where
  "sample_like e \<longleftrightarrow> ie_requestId e = sample_rid \<and> ie_version e = 1 \<and> needsSigner e \<and> signerKey sample_journal e = ''0xab'' \<and> evidence_hash_of e = ''e''"

lemma sample_save: "sample_like e' \<Longrightarrow> n < 9 \<Longrightarrow> k \<ge> 2 \<Longrightarrow> save_entry sample_delivery e' (sample_world n e k ts cs)
    = (Inr e', sample_world (Suc n) e' (Suc k) ts (cs @ [(sample_held n e, sample_held (Suc n) e')]))"
  by (auto simp: sample_like_def save_entry_def io_defs journal_call_def sample_parts sample_world_def sample_refused redis_save_def)
    (auto simp: sample_held_def sample_weather_def
      run_snapshot_def read_snapshot_def open_entry_def set_snapshot_def snapshot_reply_def terminal_def needsSigner_def
      journal_run_def sample_rid_ok journal_args_of_def journal_eval_def Let_def take_signer_def signer_busy_def retain_def terminalDeadline_def
      live_request_def journal_save_def put_request_def sample_config split: if_splits)

lemma sample_outside: "k \<ge> 2 \<Longrightarrow> outside sample_delivery f (sample_world n e k ts cs) = (map_sum Thrown (\<lambda>x. x) (f k), sample_world n e (Suc k) ts cs)"
  "clock sample_delivery (sample_world n e k ts cs) = (Inr 5, sample_world n e (Suc k) ts cs)"
  by (simp_all add: outside_def clock_def sample_parts sample_world_def sample_refused)

lemma sample_world_parts: "(sample_world n e k ts cs)\<lparr>dw_sent := us\<rparr> = sample_world n e k us cs" "dw_sent (sample_world n e k ts cs) = ts"
  "dw_tick (sample_world n e k ts cs) = k" "dw_snapshot (sample_world n e k ts cs) = (n, e)"
  by (simp_all add: sample_world_def)

lemma sample_updates: "sample_like (e\<lparr>ie_evidenceStored := b\<rparr>) = sample_like e" "sample_like (e\<lparr>ie_transaction := t\<rparr>) = sample_like e"
  "sample_like (e\<lparr>ie_lastError := c\<rparr>) = sample_like e" "sample_like (e\<lparr>ie_broadcastAcceptedAt := x\<rparr>) = sample_like e"
  "sample_like e \<Longrightarrow> sample_like (e\<lparr>ie_phase := Submitted, ie_sourceConfirmation := y\<rparr>)"
  by (auto simp: sample_like_def needsSigner_def is_issued_def signerKey_def evidence_hash_of_def)

lemma sample_like_entry: "sample_like (sample_entry Prepared t)"
  by (simp add: sample_like_def sample_ids sample_open sample_get evidence_hash_of_def)

lemma sample_answers: "de_put sample_delivery n e = Inr ()" "de_assertTarget sample_delivery n e = Inr ()" "de_processed sample_delivery n e = Inr False"
  "de_prepare sample_delivery n e = Inr sample_signed" "de_broadcast sample_delivery n t = Inr ()" "de_receipt sample_delivery n e = Inr ReceiptPending"
  "de_assertMayBroadcast sample_delivery n e = sink_assertMayBroadcast (Inr ()) (Some sample_evidence) True 5 e" "de_budget sample_delivery = False"
  by (simp_all add: sample_delivery_def)

lemma sample_allowed: "sample_like e \<Longrightarrow> sink_assertMayBroadcast (Inr ()) (Some sample_evidence) True 5 e = Inr ()"
  by (simp add: sink_authorised authorised_def sample_like_def sample_evidence_def vault_get_def obj_simps sample_record_def)

definition sample_signed_entry :: issuance_entry where
  "sample_signed_entry = sample_entry Prepared None\<lparr>ie_evidenceStored := True, ie_transaction := Some sample_signed\<rparr>"

lemma sample_signed_entry: "sample_like sample_signed_entry" "ie_transaction sample_signed_entry = Some sample_signed"
  "ie_broadcastAcceptedAt sample_signed_entry = None"
  by (simp_all add: sample_signed_entry_def sample_updates sample_like_entry sample_get)

definition sample_log1 :: sample_log where
  "sample_log1 = (sample_log0 @ [(sample_held 1 (sample_entry Prepared None), sample_held (Suc 1) (sample_entry Prepared None\<lparr>ie_evidenceStored := True\<rparr>))])
     @ [(sample_held (Suc 1) (sample_entry Prepared None\<lparr>ie_evidenceStored := True\<rparr>), sample_held (Suc (Suc 1)) sample_signed_entry)]"

lemma sample_sign: "seq (first_checks sample_delivery (sample_entry Prepared None)) (\<lambda>e. seq (retry_entry sample_delivery e) (\<lambda>e. seq (sign_entry sample_delivery e) f))
    (sample_world 1 (sample_entry Prepared None) 2 [] sample_log0) = f (sample_signed_entry, False) (sample_world 3 sample_signed_entry 12 [] sample_log1)"
  unfolding sample_log1_def
  by (simp add: first_checks_def retry_entry_def sign_entry_def too_late_def seq_def sample_outside sample_save sample_updates sample_like_entry sample_answers
      sample_allowed sample_get sample_ids is_issued_def sample_signed_entry_def eval_nat_numeral)

lemma sample_send: "sample_like e \<Longrightarrow> ie_transaction e = Some sample_signed \<Longrightarrow> ie_broadcastAcceptedAt e = None
    \<Longrightarrow> \<exists>e' cs'. send_entry sample_delivery e (sample_world 3 e 12 [] cs) = (Inr (e', ReceiptPending), sample_world 5 e' 20 [(16, sample_signed)] cs')"
  by (auto simp: send_entry_def seq_def sample_outside sample_save sample_updates sample_answers sample_allowed try_catch_def broadcast_entry_def accepted_def sample_world_parts)

lemma sample_run: "\<exists>x. advanceIssuance sample_delivery sample_rid sample_start = x \<and> dw_sent (snd x) = [(16, sample_signed)]"
proof -
  let ?e = sample_signed_entry
  from sample_send [OF sample_signed_entry] obtain e' cs' where e': "send_entry sample_delivery ?e (sample_world 3 ?e 12 [] sample_log1)
      = (Inr (e', ReceiptPending), sample_world 5 e' 20 [(16, sample_signed)] cs')" by blast
  have body: "delivery_body sample_delivery (sample_entry Prepared None) (sample_world 1 (sample_entry Prepared None) 2 [] sample_log0)
      = (Inl (Returned (5, e')), sample_world 5 e' 20 [(16, sample_signed)] cs')"
    unfolding delivery_body_def sample_sign
    by (simp add: charge_entry_def sample_answers sample_signed_entry seq_def e' settle_entry_def return_snapshot_def sample_world_parts)
  have "on_failure sample_delivery sample_rid (Returned s) = throw (Returned s)" for s by (simp add: on_failure_def)
  then show ?thesis
    by (simp del: One_nat_def add: advanceIssuance_def seq_def sample_acquire finally_do_def try_catch_def body release_lease_def Let_def sample_world_parts)
qed

theorem sent_transactions_are_on_record_witness:
  "delivery_rely sample_delivery 0 10
    \<and> on_record (de_journal sample_delivery) 10 (dw_redis (snd (advanceIssuance sample_delivery sample_rid sample_start))) sample_rid (sg_hash sample_signed)"
proof -
  obtain r w' where r: "advanceIssuance sample_delivery sample_rid sample_start = (r, w')" by fastforce
  have "dw_sent sample_start = []" "dw_calls sample_start = []" by (simp_all add: sample_start_def)
  from sent_transactions_are_on_record [OF sample_rely sample_rid_ok this r] sample_run r sample_rely show ?thesis by simp
qed

theorem broadcast_needs_live_evidence_witness:
  "(16, sample_signed) \<in> set (dw_sent (snd (advanceIssuance sample_delivery sample_rid sample_start)))
    \<and> (\<exists>e q. ie_transaction e = Some sample_signed \<and> vault_get (ie_requestId e) sample_evidence = Some q
      \<and> vr_evidenceHash q = evidence_hash_of e \<and> 5 < vr_retentionUntil q)"
proof -
  obtain r w' where r: "advanceIssuance sample_delivery sample_rid sample_start = (r, w')" by fastforce
  have s: "dw_sent sample_start = []" "dw_calls sample_start = []" by (simp_all add: sample_start_def)
  have m: "(16, sample_signed) \<in> set (dw_sent w')" using sample_run r by simp
  from broadcast_needs_live_evidence [OF sample_rely sample_rid_ok s r sample_answers(7) m] m r show ?thesis by auto
qed

end
