(* ===== verification/Issuance_Budget.thy ===== *)
theory Issuance_Budget
  imports Issuance_Journal
begin

text \<open>
  The gas budget of an issuer, \<^verbatim>\<open>pipeline/issuance-budget.ts\<close>: the Redis script with one ledger per
  issuer and UTC day and one reservation per transaction, and the client. Lua keeps the amounts as
  doubles; the client only sends safe integers, for which the script's arithmetic is exact. \<^verbatim>\<open>tostring\<close>
  prints a number in decimal digits below \<open>10\<^sup>1\<^sup>4\<close> and in scientific notation from there on.
\<close>

section \<open>The script\<close>

record budget_ledger =
  bl_day :: int
  bl_gas :: int
  bl_tx :: int
  bl_expiry :: int

record reservation =
  br_issuer :: string
  br_day :: int
  br_reserved :: int
  br_used :: "int option"  \<comment> \<open>\<^verbatim>\<open>reconciled\<close> is 1 exactly when \<^verbatim>\<open>used\<close> is set\<close>
  br_ledgerGas :: int
  br_ledgerTx :: int
  br_expiry :: "int option"

record budget_redis =
  bd_ledgers :: "(string \<times> budget_ledger) list"
  bd_requests :: "(string \<times> reservation) list"

datatype lua_text = Digits int | Scientific int

datatype budget_reply = BudgetStatus lua_text lua_text | BudgetDone | BudgetCode string

definition lua_tostring :: "int \<Rightarrow> lua_text" where
  "lua_tostring n = (if n < 100000000000000 then Digits n else Scientific n)"

definition day_length :: int where
  "day_length = 86400000"

text \<open>Keys past their expiry do not exist.\<close>

definition live_ledger :: "int \<Rightarrow> string \<Rightarrow> budget_redis \<Rightarrow> budget_ledger option" where
  "live_ledger now issuer R = (case obj_get (bd_ledgers R) issuer of None \<Rightarrow> None | Some l \<Rightarrow> if bl_expiry l \<le> now then None else Some l)"

definition live_reservation :: "int \<Rightarrow> string \<Rightarrow> budget_redis \<Rightarrow> reservation option" where
  "live_reservation now req R = (case obj_get (bd_requests R) req of None \<Rightarrow> None
     | Some q \<Rightarrow> (case br_expiry q of Some t \<Rightarrow> if t \<le> now then None else Some q | None \<Rightarrow> Some q))"

text \<open>The totals of the day: a ledger of another day counts as empty.\<close>

definition day_totals :: "int \<Rightarrow> string \<Rightarrow> budget_redis \<Rightarrow> int \<times> int" where
  "day_totals now issuer R = (case live_ledger now issuer R of None \<Rightarrow> (0, 0)
     | Some l \<Rightarrow> if bl_day l = now div day_length then (bl_gas l, bl_tx l) else (0, 0))"

definition budget_reserve :: "int \<Rightarrow> int \<Rightarrow> int \<Rightarrow> string \<Rightarrow> string \<Rightarrow> int \<Rightarrow> budget_redis \<Rightarrow> budget_reply \<times> budget_redis" where
  "budget_reserve maxGas maxTx now issuer req amount R = (case live_reservation now req R of
     Some q \<Rightarrow> (if br_issuer q \<noteq> issuer \<or> br_reserved q \<noteq> amount then BudgetCode ''BUDGET_REQUEST_CONFLICT''
        else BudgetStatus (Digits (br_ledgerGas q)) (Digits (br_ledgerTx q)), R)
   | None \<Rightarrow>
     (case day_totals now issuer R of (gas, tx) \<Rightarrow>
      if amount \<le> 0 \<or> maxGas < amount then (BudgetCode ''DAILY_GAS_BUDGET_EXCEEDED'', R)
      else if maxGas < gas + amount then (BudgetCode ''DAILY_GAS_BUDGET_EXCEEDED'', R)
      else if maxTx < tx + 1 then (BudgetCode ''DAILY_TRANSACTION_BUDGET_EXCEEDED'', R)
      else let day = now div day_length in
        (BudgetStatus (lua_tostring (gas + amount)) (lua_tostring (tx + 1)),
         R\<lparr>bd_ledgers := obj_put issuer \<lparr>bl_day = day, bl_gas = gas + amount, bl_tx = tx + 1, bl_expiry = (day + 3) * day_length\<rparr> (bd_ledgers R),
           bd_requests := obj_put req \<lparr>br_issuer = issuer, br_day = day, br_reserved = amount, br_used = None,
             br_ledgerGas = gas + amount, br_ledgerTx = tx + 1, br_expiry = None\<rparr> (bd_requests R)\<rparr>)))"

definition budget_reconcile :: "int \<Rightarrow> string \<Rightarrow> string \<Rightarrow> int \<Rightarrow> budget_redis \<Rightarrow> budget_reply \<times> budget_redis" where
  "budget_reconcile now issuer req amount R = (case live_reservation now req R of
     None \<Rightarrow> (BudgetCode ''BUDGET_RESERVATION_MISSING'', R)
   | Some q \<Rightarrow>
     if br_issuer q \<noteq> issuer then (BudgetCode ''BUDGET_REQUEST_CONFLICT'', R)
     else if br_reserved q < amount then (BudgetCode ''BUDGET_ACTUAL_EXCEEDS_RESERVATION'', R)
     else (case br_used q of Some u \<Rightarrow> (if u \<noteq> amount then BudgetCode ''BUDGET_REQUEST_CONFLICT'' else BudgetDone, R)
     | None \<Rightarrow>
       let day = now div day_length; spent = q\<lparr>br_used := Some amount, br_expiry := Some (now + 172800000)\<rparr>;
           R' = R\<lparr>bd_requests := obj_put req spent (bd_requests R)\<rparr> in
       (case live_ledger now issuer R of
          Some l \<Rightarrow> if bl_day l = day \<and> br_day q = day
            then (if bl_gas l - br_reserved q + amount < 0 then (BudgetCode ''BUDGET_STATE_INVALID'', R)
              else (BudgetDone, R'\<lparr>bd_ledgers := obj_put issuer (l\<lparr>bl_gas := bl_gas l - br_reserved q + amount\<rparr>) (bd_ledgers R)\<rparr>))
            else (BudgetDone, R')
        | None \<Rightarrow> (BudgetDone, R'))))"

datatype budget_op = BudgetReserve | BudgetReconcile | BudgetStatusOp

definition budget_eval :: "int \<Rightarrow> int \<Rightarrow> int \<Rightarrow> budget_op \<Rightarrow> string \<Rightarrow> string \<Rightarrow> int \<Rightarrow> budget_redis \<Rightarrow> budget_reply \<times> budget_redis" where
  "budget_eval maxGas maxTx now op issuer req amount R =
     (if op = BudgetStatusOp then (case day_totals now issuer R of (gas, tx) \<Rightarrow> (BudgetStatus (lua_tostring gas) (lua_tostring tx), R))
      else if amount < 0 then (BudgetCode ''INVALID_BUDGET_INPUT'', R)
      else if op = BudgetReserve then budget_reserve maxGas maxTx now issuer req amount R
      else budget_reconcile now issuer req amount R)"

section \<open>The client\<close>

record budget_config =
  bc_isAddress :: "string \<Rightarrow> bool"
  bc_getAddress :: "string \<Rightarrow> string"
  bc_digest :: "string \<Rightarrow> string \<Rightarrow> string"
  bc_gasLimit :: int
  bc_txLimit :: int

type_synonym budget_error = string

definition safe_amount :: "int \<Rightarrow> string \<Rightarrow> budget_error + int" where
  "safe_amount v name = (if v < 0 \<or> 9007199254740991 < v then Inl (''INVALID_'' @ name) else Inr v)"

text \<open>The limits as the constructor accepts them; a \<^verbatim>\<open>number\<close> that is no safe integer is \<open>None\<close>.\<close>

definition budget_limits :: "int \<Rightarrow> int option \<Rightarrow> budget_error + int \<times> int" where
  "budget_limits gas tx = (case tx of None \<Rightarrow> Inl ''INVALID_BUDGET_CONFIG''
     | Some t \<Rightarrow> if t < 1 then Inl ''INVALID_BUDGET_CONFIG''
       else (case safe_amount gas ''BUDGET_CONFIG'' of Inl e \<Rightarrow> Inl e
         | Inr g \<Rightarrow> if g < 1 then Inl ''INVALID_BUDGET_CONFIG'' else Inr (g, t)))"

definition budget_run :: "budget_config \<Rightarrow> int \<Rightarrow> delivery \<Rightarrow> budget_op \<Rightarrow> string \<Rightarrow> string \<Rightarrow> int \<Rightarrow> budget_redis
    \<Rightarrow> (budget_error + budget_reply) \<times> budget_redis" where
  "budget_run B now D op issuerInput rid amount R =
     (if \<not> bc_isAddress B issuerInput \<or> issuerInput = ''0x'' @ replicate 40 CHR ''0'' \<or> \<not> is_hash rid then (Inl ''INVALID_BUDGET_INPUT'', R)
      else let issuer = bc_digest B ''issuer'' (to_lower (bc_getAddress B issuerInput)); req = bc_digest B ''request'' (to_lower rid) in
        (case safe_amount amount ''BUDGET_INPUT'' of Inl e \<Rightarrow> (Inl e, R)
         | Inr a \<Rightarrow> (case D of
             RequestLost \<Rightarrow> (Inl ''BUDGET_UNAVAILABLE'', R)
           | ReplyLost \<Rightarrow> (Inl ''BUDGET_UNAVAILABLE'', snd (budget_eval (bc_gasLimit B) (bc_txLimit B) now op issuer req a R))
           | Answered \<Rightarrow> (case budget_eval (bc_gasLimit B) (bc_txLimit B) now op issuer req a R of (r, R') \<Rightarrow> (Inr r, R')))))"

text \<open>
  \<^verbatim>\<open>BigInt\<close> refuses scientific notation; \<^verbatim>\<open>Number\<close> reads it. The rounding of a count of \<open>10\<^sup>1\<^sup>4\<close> transactions in
  one day is not modelled.
\<close>

definition statusResult :: "budget_reply \<Rightarrow> budget_error + int \<times> int" where
  "statusResult r = (case r of BudgetCode c \<Rightarrow> Inl c | BudgetDone \<Rightarrow> Inl ''BUDGET_STATE_INVALID''
     | BudgetStatus g t \<Rightarrow> (case g of Scientific n \<Rightarrow> Inl ''BUDGET_STATE_INVALID''
       | Digits gas \<Rightarrow> let tx = (case t of Digits n \<Rightarrow> n | Scientific n \<Rightarrow> n) in
           if gas < 0 \<or> \<not> safe_integer tx \<or> tx < 0 then Inl ''BUDGET_STATE_INVALID'' else Inr (gas, tx)))"

definition reserve_budget :: "budget_config \<Rightarrow> int \<Rightarrow> delivery \<Rightarrow> string \<Rightarrow> string \<Rightarrow> int \<Rightarrow> budget_redis \<Rightarrow> (budget_error + int \<times> int) \<times> budget_redis" where
  "reserve_budget B now D issuer rid gasLimit R = (case budget_run B now D BudgetReserve issuer rid gasLimit R of
     (Inl e, R') \<Rightarrow> (Inl e, R') | (Inr r, R') \<Rightarrow> (statusResult r, R'))"

definition reconcile_budget :: "budget_config \<Rightarrow> int \<Rightarrow> delivery \<Rightarrow> string \<Rightarrow> string \<Rightarrow> int \<Rightarrow> budget_redis \<Rightarrow> (budget_error + unit) \<times> budget_redis" where
  "reconcile_budget B now D issuer rid gasUsed R = (case budget_run B now D BudgetReconcile issuer rid gasUsed R of
     (Inl e, R') \<Rightarrow> (Inl e, R') | (Inr r, R') \<Rightarrow> (case r of BudgetCode c \<Rightarrow> Inl c | _ \<Rightarrow> Inr (), R'))"

definition budget_status :: "budget_config \<Rightarrow> int \<Rightarrow> delivery \<Rightarrow> string \<Rightarrow> budget_redis \<Rightarrow> (budget_error + int \<times> int) \<times> budget_redis" where
  "budget_status B now D issuer R = (case budget_run B now D BudgetStatusOp issuer (''0x'' @ replicate 64 CHR ''0'') 0 R of
     (Inl e, R') \<Rightarrow> (Inl e, R') | (Inr r, R') \<Rightarrow> (statusResult r, R'))"

section \<open>The budget of a day\<close>

text \<open>What a reservation stands for on a day: the gas it used once that is known, its limit before.\<close>

definition charge :: "string \<Rightarrow> int \<Rightarrow> reservation \<Rightarrow> int" where
  "charge issuer day q = (if br_issuer q = issuer \<and> br_day q = day then (case br_used q of Some u \<Rightarrow> u | None \<Rightarrow> br_reserved q) else 0)"

definition counted :: "string \<Rightarrow> int \<Rightarrow> reservation \<Rightarrow> int" where
  "counted issuer day q = (if br_issuer q = issuer \<and> br_day q = day then 1 else 0)"

definition day_sum :: "(reservation \<Rightarrow> int) \<Rightarrow> budget_redis \<Rightarrow> int" where
  "day_sum f R = sum_list (map (\<lambda>(k, q). f q) (bd_requests R))"

text \<open>Any number of clients call, on the clock of Redis, which does not run backwards.\<close>

inductive budget_step :: "budget_config \<Rightarrow> int \<times> budget_redis \<Rightarrow> int \<times> budget_redis \<Rightarrow> bool" for B where
  budget_stepI: "t \<le> now \<Longrightarrow> budget_run B now D op issuer rid amount R = (r, R') \<Longrightarrow> budget_step B (t, R) (now, R')"

definition budget_init :: "budget_config \<Rightarrow> int \<times> budget_redis \<Rightarrow> bool" where
  "budget_init B s \<longleftrightarrow> snd s = \<lparr>bd_ledgers = [], bd_requests = []\<rparr> \<and> 0 \<le> bc_gasLimit B \<and> 0 \<le> bc_txLimit B"

definition ledger_ok :: "budget_config \<Rightarrow> int \<Rightarrow> budget_redis \<Rightarrow> string \<Rightarrow> budget_ledger \<Rightarrow> bool" where
  "ledger_ok B t R s l \<longleftrightarrow> bl_day l \<le> t div day_length \<and> bl_expiry l = (bl_day l + 3) * day_length
     \<and> day_sum (charge s (bl_day l)) R \<le> bl_gas l \<and> bl_gas l \<le> bc_gasLimit B
     \<and> day_sum (counted s (bl_day l)) R \<le> bl_tx l \<and> bl_tx l \<le> bc_txLimit B"

definition reservation_ok :: "budget_redis \<Rightarrow> reservation \<Rightarrow> bool" where
  "reservation_ok R q \<longleftrightarrow> 0 \<le> br_reserved q \<and> (case br_used q of Some u \<Rightarrow> 0 \<le> u \<and> u \<le> br_reserved q | None \<Rightarrow> True)
     \<and> (\<exists>l. obj_get (bd_ledgers R) (br_issuer q) = Some l \<and> br_day q \<le> bl_day l)"

definition budget_inv :: "budget_config \<Rightarrow> int \<times> budget_redis \<Rightarrow> bool" where
  "budget_inv B s \<longleftrightarrow> (case s of (t, R) \<Rightarrow> obj_wf (bd_requests R) \<and> 0 \<le> bc_gasLimit B \<and> 0 \<le> bc_txLimit B
     \<and> (\<forall>i l. obj_get (bd_ledgers R) i = Some l \<longrightarrow> ledger_ok B t R i l)
     \<and> (\<forall>k q. obj_get (bd_requests R) k = Some q \<longrightarrow> reservation_ok R q)
     \<and> (\<forall>i d. day_sum (charge i d) R \<le> bc_gasLimit B \<and> day_sum (counted i d) R \<le> bc_txLimit B))"

lemma budget_invI:
  assumes "obj_wf (bd_requests R)" "0 \<le> bc_gasLimit B" "0 \<le> bc_txLimit B"
    "\<And>i l. obj_get (bd_ledgers R) i = Some l \<Longrightarrow> ledger_ok B t R i l"
    "\<And>k q. obj_get (bd_requests R) k = Some q \<Longrightarrow> reservation_ok R q"
    "\<And>i d. day_sum (charge i d) R \<le> bc_gasLimit B" "\<And>i d. day_sum (counted i d) R \<le> bc_txLimit B"
  shows "budget_inv B (t, R)"
  using assms by (simp add: budget_inv_def)

lemma budget_invD:
  assumes "budget_inv B (t, R)"
  shows "obj_wf (bd_requests R)" "0 \<le> bc_gasLimit B" "0 \<le> bc_txLimit B"
    "obj_get (bd_ledgers R) i = Some l \<Longrightarrow> ledger_ok B t R i l"
    "obj_get (bd_requests R) k = Some q \<Longrightarrow> reservation_ok R q"
    "day_sum (charge i d) R \<le> bc_gasLimit B" "day_sum (counted i d) R \<le> bc_txLimit B"
  using assms by (simp_all add: budget_inv_def)

lemma ledger_ok_later: "ledger_ok B t R i l \<Longrightarrow> t \<le> now \<Longrightarrow> ledger_ok B now R i l"
  unfolding ledger_ok_def day_length_def by (meson order.trans zdiv_mono1 zero_less_numeral)

lemma budget_inv_later: "budget_inv B (t, R) \<Longrightarrow> t \<le> now \<Longrightarrow> budget_inv B (now, R)"
  by (rule budget_invI) (auto dest: budget_invD intro: ledger_ok_later)

text \<open>Sums over the reservations when one of them is replaced.\<close>

lemma sum_list_put:
  fixes f :: "'v \<Rightarrow> int"
  assumes "obj_wf m"
  shows "sum_list (map (\<lambda>(k, q). f q) (obj_put k q m)) = sum_list (map (\<lambda>(k, q). f q) m) - (case obj_get m k of None \<Rightarrow> 0 | Some p \<Rightarrow> f p) + f q"
  using assms by (induction m) (auto simp: obj_wf_def split: option.splits dest: map_of_SomeD)

lemma day_sum_put:
  "obj_wf (bd_requests R) \<Longrightarrow> bd_requests R' = obj_put k q (bd_requests R)
     \<Longrightarrow> day_sum f R' = day_sum f R - (case obj_get (bd_requests R) k of None \<Rightarrow> 0 | Some p \<Rightarrow> f p) + f q"
  by (simp add: day_sum_def sum_list_put)

lemma day_sum_zero: "(\<And>k q. (k, q) \<in> set (bd_requests R) \<Longrightarrow> f q = 0) \<Longrightarrow> day_sum f R = 0"
  unfolding day_sum_def by (subst map_cong [OF refl, of _ _ "\<lambda>x. 0"]) auto

lemma charge_nonneg: "reservation_ok R q \<Longrightarrow> 0 \<le> charge i d q"
  by (auto simp: reservation_ok_def charge_def split: option.splits)

lemma counted_nonneg: "0 \<le> counted i d q"
  by (simp add: counted_def)

lemma live_reservation_stored: "live_reservation now k R = Some q \<Longrightarrow> obj_get (bd_requests R) k = Some q"
  by (auto simp: live_reservation_def split: option.splits if_splits)

lemma live_ledger_stored: "live_ledger now i R = Some l \<Longrightarrow> obj_get (bd_ledgers R) i = Some l"
  by (auto simp: live_ledger_def split: option.splits if_splits)

text \<open>The totals the script computes cover the reservations of the day.\<close>

lemma totals_cover:
  assumes inv: "budget_inv B (now, R)" and tot: "day_totals now i R = (gas, tx)"
  shows "day_sum (charge i (now div day_length)) R \<le> gas" "day_sum (counted i (now div day_length)) R \<le> tx"
proof -
  let ?D = "now div day_length"
  have "day_sum (charge i ?D) R \<le> gas \<and> day_sum (counted i ?D) R \<le> tx"
  proof (cases "\<exists>l. live_ledger now i R = Some l \<and> bl_day l = ?D")
    case True
    then obtain l where l: "live_ledger now i R = Some l" "bl_day l = ?D" by blast
    with tot have "gas = bl_gas l" "tx = bl_tx l" by (auto simp: day_totals_def)
    with budget_invD(4) [OF inv live_ledger_stored [OF l(1)]] l(2) show ?thesis by (auto simp: ledger_ok_def)
  next
    case False
    with tot have z: "gas = 0" "tx = 0" by (auto simp: day_totals_def split: option.splits if_splits)
    have "\<not> (br_issuer q = i \<and> br_day q = ?D)" if q: "(k, q) \<in> set (bd_requests R)" for k q
    proof
      assume qi: "br_issuer q = i \<and> br_day q = ?D"
      have "obj_get (bd_requests R) k = Some q" using budget_invD(1) [OF inv] q by (simp add: obj_wf_def map_of_eq_Some_iff)
      from budget_invD(5) [OF inv this] qi obtain l where l: "obj_get (bd_ledgers R) i = Some l" "?D \<le> bl_day l" by (auto simp: reservation_ok_def)
      from budget_invD(4) [OF inv l(1)] l(2) have "bl_day l = ?D" "bl_expiry l = (?D + 3) * day_length" by (auto simp: ledger_ok_def)
      moreover have "now < (?D + 3) * day_length" unfolding day_length_def by presburger
      ultimately show False using False l(1) by (auto simp: live_ledger_def)
    qed
    then have "day_sum (charge i ?D) R = 0" "day_sum (counted i ?D) R = 0"
      by (auto intro!: day_sum_zero simp: charge_def counted_def)
    with z show ?thesis by simp
  qed
  then show "day_sum (charge i ?D) R \<le> gas" "day_sum (counted i ?D) R \<le> tx" by simp_all
qed

lemma day_totals_bounds:
  assumes "budget_inv B (now, R)" "day_totals now i R = (gas, tx)"
  shows "gas \<le> bc_gasLimit B" "tx \<le> bc_txLimit B"
  using assms budget_invD(2,3) [OF assms(1)] budget_invD(4) [OF assms(1) live_ledger_stored]
  by (auto simp: day_totals_def ledger_ok_def split: option.splits if_splits)

text \<open>Replacing a reservation and a ledger, when the charge of the day grows by no more than the ledger.\<close>

lemma budget_inv_replace:
  assumes inv: "budget_inv B (now, R)" and R': "bd_requests R' = obj_put k q (bd_requests R)"
    and new: "reservation_ok R' q" "br_issuer q = i"
    and days: "\<And>l. obj_get (bd_ledgers R) i = Some l \<Longrightarrow> \<exists>l'. obj_get (bd_ledgers R') i = Some l' \<and> bl_day l \<le> bl_day l'"
    and others: "\<And>j. j \<noteq> i \<Longrightarrow> obj_get (bd_ledgers R') j = obj_get (bd_ledgers R) j"
    and mine: "\<And>l. obj_get (bd_ledgers R') i = Some l \<Longrightarrow> ledger_ok B now R' i l"
    and sums: "\<And>d. day_sum (charge i d) R' \<le> bc_gasLimit B" "\<And>d. day_sum (counted i d) R' \<le> bc_txLimit B"
  shows "budget_inv B (now, R')"
proof -
  note wf = budget_invD(1) [OF inv]
  have less: "day_sum (charge j d) R' \<le> day_sum (charge j d) R" "day_sum (counted j d) R' \<le> day_sum (counted j d) R" if "j \<noteq> i" for j d
    using day_sum_put [OF wf R'] that new(2) charge_nonneg [OF budget_invD(5) [OF inv]] counted_nonneg
    by (auto simp: charge_def counted_def split: option.splits)
  show ?thesis
  proof (rule budget_invI)
    show "obj_wf (bd_requests R')" using wf R' by simp
    show "0 \<le> bc_gasLimit B" "0 \<le> bc_txLimit B" using budget_invD(2,3) [OF inv] .
  next
    fix j l assume l: "obj_get (bd_ledgers R') j = Some l"
    show "ledger_ok B now R' j l"
    proof (cases "j = i")
      case False
      with l others have "obj_get (bd_ledgers R) j = Some l" by simp
      from budget_invD(4) [OF inv this] less [OF False, of "bl_day l"] show ?thesis by (auto simp: ledger_ok_def)
    qed (use l mine in simp)
  next
    fix h p assume p: "obj_get (bd_requests R') h = Some p"
    show "reservation_ok R' p"
    proof (cases "h = k")
      case False
      with p R' have "obj_get (bd_requests R) h = Some p" by (simp add: obj_simps)
      from budget_invD(5) [OF inv this] show ?thesis using days others
        by (cases "br_issuer p = i") (fastforce simp: reservation_ok_def)+
    qed (use p R' new in \<open>simp add: obj_simps\<close>)
  next
    fix j d
    show "day_sum (charge j d) R' \<le> bc_gasLimit B" "day_sum (counted j d) R' \<le> bc_txLimit B"
      using sums less [of j d] budget_invD(6,7) [OF inv, of j d] by (cases "j = i"; fastforce)+
  qed
qed

lemma budget_reserve_inv:
  assumes inv: "budget_inv B (now, R)"
  shows "budget_inv B (now, snd (budget_reserve (bc_gasLimit B) (bc_txLimit B) now i k a R))"
proof (cases "live_reservation now k R")
  case (Some q)
  with inv show ?thesis by (simp add: budget_reserve_def)
next
  case None
  obtain gas tx where tot: "day_totals now i R = (gas, tx)" by fastforce
  let ?D = "now div day_length"
  let ?q = "\<lparr>br_issuer = i, br_day = ?D, br_reserved = a, br_used = None, br_ledgerGas = gas + a, br_ledgerTx = tx + 1, br_expiry = None\<rparr>"
  let ?l = "\<lparr>bl_day = ?D, bl_gas = gas + a, bl_tx = tx + 1, bl_expiry = (?D + 3) * day_length\<rparr>"
  let ?R = "R\<lparr>bd_ledgers := obj_put i ?l (bd_ledgers R), bd_requests := obj_put k ?q (bd_requests R)\<rparr>"
  show ?thesis
  proof (cases "0 < a \<and> gas + a \<le> bc_gasLimit B \<and> tx + 1 \<le> bc_txLimit B \<and> a \<le> bc_gasLimit B")
    case False
    with None tot inv show ?thesis by (auto simp: budget_reserve_def)
  next
    case True
    note wf = budget_invD(1) [OF inv]
    have old: "0 \<le> (case obj_get (bd_requests R) k of None \<Rightarrow> 0 | Some p \<Rightarrow> charge i d p)"
      "0 \<le> (case obj_get (bd_requests R) k of None \<Rightarrow> 0 | Some p \<Rightarrow> counted i d p)" for d
      using charge_nonneg [OF budget_invD(5) [OF inv]] counted_nonneg by (auto split: option.splits)
    have sums: "day_sum (charge i d) ?R \<le> day_sum (charge i d) R + (if d = ?D then a else 0)"
      "day_sum (counted i d) ?R \<le> day_sum (counted i d) R + (if d = ?D then 1 else 0)" for d
      using day_sum_put [OF wf, of ?R k ?q "charge i d"] day_sum_put [OF wf, of ?R k ?q "counted i d"] old [of d]
      by (auto simp: charge_def counted_def)
    have cover: "day_sum (charge i ?D) ?R \<le> gas + a" "day_sum (counted i ?D) ?R \<le> tx + 1"
      using sums [of ?D] totals_cover [OF inv tot] by auto
    have "budget_inv B (now, ?R)"
    proof (rule budget_inv_replace [OF inv])
      show "reservation_ok ?R ?q" using True by (simp add: reservation_ok_def obj_simps)
      show "\<exists>l'. obj_get (bd_ledgers ?R) i = Some l' \<and> bl_day l \<le> bl_day l'" if "obj_get (bd_ledgers R) i = Some l" for l
        using budget_invD(4) [OF inv that] by (simp add: ledger_ok_def obj_simps)
      show "ledger_ok B now ?R i l" if "obj_get (bd_ledgers ?R) i = Some l" for l
        using that cover True by (auto simp: ledger_ok_def obj_simps)
      show "day_sum (charge i d) ?R \<le> bc_gasLimit B" for d
        using sums(1) [of d] cover(1) True budget_invD(6) [OF inv, of i d] by (cases "d = ?D") auto
      show "day_sum (counted i d) ?R \<le> bc_txLimit B" for d
        using sums(2) [of d] cover(2) True budget_invD(7) [OF inv, of i d] by (cases "d = ?D") auto
    qed (simp_all add: obj_simps)
    with None tot True show ?thesis by (simp add: budget_reserve_def Let_def)
  qed
qed

lemma budget_reconcile_inv:
  assumes inv: "budget_inv B (now, R)" and a: "0 \<le> a"
  shows "budget_inv B (now, snd (budget_reconcile now i k a R))"
proof -
  have *: "budget_inv B (now, R')" if q: "live_reservation now k R = Some q" "br_issuer q = i" "a \<le> br_reserved q" "br_used q = None"
    and R': "bd_requests R' = obj_put k (q\<lparr>br_used := Some a, br_expiry := Some t\<rparr>) (bd_requests R)"
    and led: "bd_ledgers R' = bd_ledgers R \<or> (\<exists>l. obj_get (bd_ledgers R) i = Some l \<and> bl_day l = br_day q
      \<and> bd_ledgers R' = obj_put i (l\<lparr>bl_gas := bl_gas l - br_reserved q + a\<rparr>) (bd_ledgers R))" for q R' t
  proof -
    note wf = budget_invD(1) [OF inv] and st = live_reservation_stored [OF q(1)]
    let ?q = "q\<lparr>br_used := Some a, br_expiry := Some t\<rparr>"
    have sums: "day_sum (charge i d) R' = day_sum (charge i d) R - (if d = br_day q then br_reserved q - a else 0)"
      "day_sum (counted i d) R' = day_sum (counted i d) R" for d
      using day_sum_put [OF wf R', of "charge i d"] day_sum_put [OF wf R', of "counted i d"] st q by (auto simp: charge_def counted_def)
    have led': "\<exists>l'. obj_get (bd_ledgers R') i = Some l' \<and> bl_day l' = bl_day l" if "obj_get (bd_ledgers R) i = Some l" for l
      using led that by (auto simp: obj_simps)
    show ?thesis
    proof (rule budget_inv_replace [OF inv R'])
      show "br_issuer ?q = i" using q(2) by simp
      from budget_invD(5) [OF inv st] q a led' show "reservation_ok R' ?q" by (fastforce simp: reservation_ok_def)
      show "\<exists>l'. obj_get (bd_ledgers R') i = Some l' \<and> bl_day l \<le> bl_day l'" if "obj_get (bd_ledgers R) i = Some l" for l
        using led' [OF that] by auto
      show "obj_get (bd_ledgers R') j = obj_get (bd_ledgers R) j" if "j \<noteq> i" for j
        using led that by (auto simp: obj_simps)
      show "ledger_ok B now R' i l" if l: "obj_get (bd_ledgers R') i = Some l" for l
      proof -
        from led l consider "obj_get (bd_ledgers R) i = Some l"
          | l0 where "obj_get (bd_ledgers R) i = Some l0" "bl_day l0 = br_day q" "l = l0\<lparr>bl_gas := bl_gas l0 - br_reserved q + a\<rparr>"
          by (auto simp: obj_simps)
        then show ?thesis
          by cases (use budget_invD(4) [OF inv] q(3) in \<open>fastforce simp: ledger_ok_def sums\<close>)+
      qed
      show "day_sum (charge i d) R' \<le> bc_gasLimit B" "day_sum (counted i d) R' \<le> bc_txLimit B" for d
        using sums [of d] q(3) budget_invD(6,7) [OF inv, of i d] by auto
    qed
  qed
  show ?thesis
  proof (cases "\<exists>q. live_reservation now k R = Some q \<and> br_issuer q = i \<and> a \<le> br_reserved q \<and> br_used q = None")
    case False
    with inv show ?thesis by (auto simp: budget_reconcile_def split: option.splits)
  next
    case True
    then obtain q where q: "live_reservation now k R = Some q" "br_issuer q = i" "a \<le> br_reserved q" "br_used q = None" by blast
    show ?thesis
      using q inv live_ledger_stored by (auto simp: budget_reconcile_def Let_def split: option.split intro!: * [OF q])
  qed
qed

lemma budget_step_inv: "budget_step B s s' \<Longrightarrow> budget_inv B s \<Longrightarrow> budget_inv B s'"
proof (induction rule: budget_step.induct)
  case (budget_stepI t now D op issuer rid amount R r R')
  note inv = budget_inv_later [OF budget_stepI.prems budget_stepI.hyps(1)]
  have ev: "budget_inv B (now, snd (budget_eval (bc_gasLimit B) (bc_txLimit B) now op i k a R))" for i k a
    using budget_reserve_inv [OF inv] budget_reconcile_inv [OF inv] inv by (auto simp: budget_eval_def split: prod.splits)
  from budget_stepI.hyps(2) have "R' = R \<or> (\<exists>i k a. R' = snd (budget_eval (bc_gasLimit B) (bc_txLimit B) now op i k a R))"
    by (auto simp: budget_run_def Let_def split: if_splits sum.splits delivery.splits prod.splits) (metis snd_conv)+
  with ev inv show ?case by auto
qed

interpretation budget: inductive_invariant "budget_init B" "budget_step B" "budget_inv B" for B
proof unfold_locales
  show "budget_inv B s" if "budget_init B s" for s
    using that by (cases s) (auto simp: budget_init_def budget_inv_def obj_wf_def day_sum_def)
qed (rule budget_step_inv)

text \<open>C15. 
  The budget of a UTC day holds. Whatever calls were made, by any number of clients, with replies
  lost after the script ran: for every issuer and day, the gas of the transactions reserved on
  that day, at the gas used where that was reported and at the gas limit otherwise, is at most the
  configured daily gas, and their number at most the configured number.
\<close>
theorem daily_budget_holds:
  assumes "reachable (budget_init B) (budget_step B) (t, R)"
  shows "day_sum (charge issuer day) R \<le> bc_gasLimit B \<and> day_sum (counted issuer day) R \<le> bc_txLimit B"
  using budget_invD(6,7) [OF budget.reachable_inv [OF assms]] by blast

lemma fresh_reserve:
  assumes "live_reservation now req R = None" "day_totals now issuer R = (gas, tx)"
  shows "if 0 < a \<and> a \<le> maxGas \<and> gas + a \<le> maxGas \<and> tx + 1 \<le> maxTx
      then day_totals now issuer (snd (budget_reserve maxGas maxTx now issuer req a R)) = (gas + a, tx + 1)
      else \<exists>c. budget_reserve maxGas maxTx now issuer req a R = (BudgetCode c, R)"
proof -
  have "now < (now div day_length + 3) * day_length" unfolding day_length_def by presburger
  with assms show ?thesis by (auto simp: budget_reserve_def Let_def day_totals_def [of _ _ "R\<lparr>bd_ledgers := x, bd_requests := y\<rparr>" for x y] live_ledger_def obj_simps)
qed

text \<open>C36. 
  A transaction that was charged and reconciled is charged again when its step runs two days
  later. Its reservation expires 48 hours after it was reconciled; the next step of the same entry
  reserves the gas limit again, on the budget of that day, although the transaction is mined, or
  is refused for the budget and does not go on.
\<close>
theorem reconciled_transaction_is_charged_again:
  assumes "live_reservation now0 req R = Some q" "br_used q = None" "budget_reconcile now0 issuer req used R = (BudgetDone, R')"
    "now0 + 172800000 \<le> now" "day_totals now issuer R' = (gas, tx)"
  shows "if 0 < br_reserved q \<and> br_reserved q \<le> maxGas \<and> gas + br_reserved q \<le> maxGas \<and> tx + 1 \<le> maxTx
      then day_totals now issuer (snd (budget_reserve maxGas maxTx now issuer req (br_reserved q) R')) = (gas + br_reserved q, tx + 1)
      else \<exists>c. budget_reserve maxGas maxTx now issuer req (br_reserved q) R' = (BudgetCode c, R')"
proof -
  from assms(1-3) have "obj_get (bd_requests R') req = Some (q\<lparr>br_used := Some used, br_expiry := Some (now0 + 172800000)\<rparr>)"
    by (auto simp: budget_reconcile_def Let_def obj_simps split: if_splits option.splits)
  with assms(4) have "live_reservation now req R' = None" by (simp add: live_reservation_def)
  from fresh_reserve [OF this assms(5)] show ?thesis .
qed

section \<open>An example\<close>

definition sample_budget :: budget_config where
  "sample_budget = \<lparr>bc_isAddress = (\<lambda>s. True), bc_getAddress = (\<lambda>s. s), bc_digest = (\<lambda>k v. v), bc_gasLimit = 10, bc_txLimit = 3\<rparr>"

definition blank_budget :: budget_redis where
  "blank_budget = \<lparr>bd_ledgers = [], bd_requests = []\<rparr>"

definition sample_reserved :: budget_redis where
  "sample_reserved = snd (budget_run sample_budget 5 ReplyLost BudgetReserve ''a'' sample_rid 7 blank_budget)"

lemma sample_rid_hash: "is_hash sample_rid" "to_lower sample_rid = sample_rid" "to_lower ''a'' = ''a''"
  by code_simp+

lemma sample_reserved_is: "sample_reserved = \<lparr>bd_ledgers = [(''a'', \<lparr>bl_day = 0, bl_gas = 7, bl_tx = 1, bl_expiry = 259200000\<rparr>)],
   bd_requests = [(sample_rid, \<lparr>br_issuer = ''a'', br_day = 0, br_reserved = 7, br_used = None, br_ledgerGas = 7, br_ledgerTx = 1, br_expiry = None\<rparr>)]\<rparr>"
  by (simp add: sample_reserved_def budget_run_def sample_budget_def blank_budget_def sample_rid_hash safe_amount_def budget_eval_def budget_reserve_def
      live_reservation_def day_totals_def live_ledger_def day_length_def Let_def)

theorem daily_budget_holds_witness:
  "day_sum (charge ''a'' 0) sample_reserved \<le> 10 \<and> day_sum (counted ''a'' 0) sample_reserved \<le> 3 \<and> day_sum (charge ''a'' 0) sample_reserved = 7"
proof -
  have "reachable (budget_init sample_budget) (budget_step sample_budget) (0, blank_budget)"
    by (rule reachable_init) (simp add: budget_init_def blank_budget_def sample_budget_def)
  moreover have "budget_step sample_budget (0, blank_budget) (5, sample_reserved)"
    unfolding sample_reserved_def by (rule budget_stepI [OF _ prod.collapse [symmetric]]) simp
  ultimately have "reachable (budget_init sample_budget) (budget_step sample_budget) (5, sample_reserved)" by (rule reachable_step)
  from daily_budget_holds [OF this, of "''a''" 0] show ?thesis by (simp add: sample_budget_def sample_reserved_is day_sum_def charge_def)
qed

theorem reconciled_transaction_is_charged_again_witness:
  "day_totals 172800006 ''a'' (snd (budget_reserve 10 3 172800006 ''a'' sample_rid 7 (snd (budget_reconcile 6 ''a'' sample_rid 4 sample_reserved)))) = (7, 1)
    \<and> day_totals 172800006 ''a'' (snd (budget_reconcile 6 ''a'' sample_rid 4 sample_reserved)) = (0, 0)"
proof -
  let ?q = "\<lparr>br_issuer = ''a'', br_day = 0, br_reserved = 7, br_used = None, br_ledgerGas = 7, br_ledgerTx = 1, br_expiry = None\<rparr>"
  obtain R' where r: "budget_reconcile 6 ''a'' sample_rid 4 sample_reserved = (BudgetDone, R')" and t: "day_totals 172800006 ''a'' R' = (0, 0)"
    by (simp add: budget_reconcile_def sample_reserved_is live_reservation_def live_ledger_def day_length_def Let_def day_totals_def)
  have q: "live_reservation 6 sample_rid sample_reserved = Some ?q" by (simp add: live_reservation_def sample_reserved_is)
  from reconciled_transaction_is_charged_again [OF q _ r _ t, of 10 3] r t show ?thesis by simp
qed

end
