(* ===== verification/Edit_Distance.thy ===== *)
theory Edit_Distance
  imports Prelude "HOL-Library.Multiset"
begin

text \<open>
  Bounded edits of name tokens, \<^verbatim>\<open>aml/edit-distance.ts\<close>, and the two indexes of \<^verbatim>\<open>aml/match.ts\<close> that
  retrieve the tokens near a query token. A token is known by its code points after composition
  (\<^verbatim>\<open>Array.from(token.normalize('NFC'))\<close>), which the parameter \<open>cps\<close> gives.
\<close>

section \<open>The distance\<close>

datatype edit_error = InvalidBound

definition MIN_EDIT_TOKEN :: nat where "MIN_EDIT_TOKEN = 4"
definition MIN_TWO_EDIT_TOKEN :: nat where "MIN_TWO_EDIT_TOKEN = 6"
definition MAX_EDIT_TOKEN :: nat where "MAX_EDIT_TOKEN = 64"

text \<open>The table \<^verbatim>\<open>rows\<close>, one cell of it, one row, and all rows with the early return.\<close>

definition edit_cell :: "nat list \<Rightarrow> nat list \<Rightarrow> nat list list \<Rightarrow> nat \<Rightarrow> nat \<Rightarrow> nat" where
  "edit_cell a b rows i j =
     (let substitution = rows ! (i - 1) ! (j - 1) + (if a ! (i - 1) = b ! (j - 1) then 0 else 1);
          v = min (min (rows ! (i - 1) ! j + 1) (rows ! i ! (j - 1) + 1)) substitution in
      if i > 1 \<and> j > 1 \<and> a ! (i - 1) = b ! (j - 2) \<and> a ! (i - 2) = b ! (j - 1)
      then min v (rows ! (i - 2) ! (j - 2) + 1) else v)"

fun fill_row :: "nat list \<Rightarrow> nat list \<Rightarrow> nat \<Rightarrow> nat \<Rightarrow> nat list \<Rightarrow> nat list list \<Rightarrow> nat \<Rightarrow> nat list list \<times> nat" where
  "fill_row a b maxDistance i [] rows rowMin = (rows, rowMin)"
| "fill_row a b maxDistance i (j # js) rows rowMin =
     (let v = edit_cell a b rows i j in
      fill_row a b maxDistance i js (rows[i := (rows ! i)[j := v]])
        (if \<bar>int i - int j\<bar> \<le> int maxDistance then min rowMin v else rowMin))"

fun fill_rows :: "nat list \<Rightarrow> nat list \<Rightarrow> nat \<Rightarrow> nat list \<Rightarrow> nat list list \<Rightarrow> nat list list option" where
  "fill_rows a b maxDistance [] rows = Some rows"
| "fill_rows a b maxDistance (i # is) rows =
     (case fill_row a b maxDistance i [1..<Suc (length b)] rows (maxDistance + 1) of (rows', rowMin) \<Rightarrow>
      if rowMin > maxDistance \<and> i > length b + maxDistance then None else fill_rows a b maxDistance is rows')"

definition first_rows :: "nat \<Rightarrow> nat \<Rightarrow> nat list list" where
  "first_rows m n = map (\<lambda>i. if i = 0 then [0..<Suc n] else i # replicate n 0) [0..<Suc m]"

definition boundedEditDistance :: "nat list \<Rightarrow> nat list \<Rightarrow> int \<Rightarrow> edit_error + nat" where
  "boundedEditDistance a b maxDistance =
     (if \<not> safe_integer maxDistance \<or> maxDistance < 0 then Inl InvalidBound
      else let k = nat maxDistance in
        if \<bar>int (length a) - int (length b)\<bar> > maxDistance then Inr (k + 1)
        else (case fill_rows a b k [1..<Suc (length a)] (first_rows (length a) (length b)) of
            None \<Rightarrow> Inr (k + 1) | Some rows \<Rightarrow> Inr (min (rows ! length a ! length b) (k + 1))))"

section \<open>Keys and tests\<close>

definition deletionKeys :: "('t \<Rightarrow> nat list) \<Rightarrow> 't \<Rightarrow> nat list list" where
  "deletionKeys cps token = (let chars = cps token in
     if length chars < MIN_EDIT_TOKEN \<or> length chars > MAX_EDIT_TOKEN then []
     else uniq (chars # map (\<lambda>i. take i chars @ drop (Suc i) chars) [0..<length chars]))"

definition supportedEditLimit :: "('t \<Rightarrow> nat list) \<Rightarrow> 't \<Rightarrow> nat" where
  "supportedEditLimit cps token = (let n = length (cps token) in
     if n < MIN_EDIT_TOKEN \<or> n > MAX_EDIT_TOKEN then 0 else if n < MIN_TWO_EDIT_TOKEN then 1 else 2)"

text \<open>The characters \<^verbatim>\<open>^\<close> and \<^verbatim>\<open>$\<close> mark the ends of a token.\<close>

definition bounded_chars :: "nat list \<Rightarrow> nat list" where
  "bounded_chars cs = 94 # cs @ [36]"

definition editGrams :: "('t \<Rightarrow> nat list) \<Rightarrow> 't \<Rightarrow> nat list list" where
  "editGrams cps token = (if supportedEditLimit cps token < 2 then []
     else let chars = bounded_chars (cps token) in uniq (map (\<lambda>i. [chars ! i, chars ! Suc i]) [0..<length chars - 1]))"

definition withinOneEdit :: "('t \<Rightarrow> nat list) \<Rightarrow> 't \<Rightarrow> 't \<Rightarrow> bool" where
  "withinOneEdit cps l r \<longleftrightarrow> (if cps l = cps r then True
     else supportedEditLimit cps l \<ge> 1 \<and> supportedEditLimit cps r \<ge> 1
       \<and> (case boundedEditDistance (cps l) (cps r) 1 of Inr d \<Rightarrow> d \<le> 1 | Inl _ \<Rightarrow> False))"

definition withinSupportedEdits :: "('t \<Rightarrow> nat list) \<Rightarrow> 't \<Rightarrow> 't \<Rightarrow> bool" where
  "withinSupportedEdits cps l r \<longleftrightarrow> (if cps l = cps r then True
     else let limit = min (supportedEditLimit cps l) (supportedEditLimit cps r) in
       limit > 0 \<and> (case boundedEditDistance (cps l) (cps r) (int limit) of Inr d \<Rightarrow> d \<le> limit | Inl _ \<Rightarrow> False))"

section \<open>Retrieval\<close>

text \<open>
  The indexes are maps from a key to the tokens with that key, in the order the vocabulary was
  visited. A query visits the postings of its keys; each visit is counted against a limit.
\<close>

datatype capacity_error = QueryTokenPostings | QueryVocabulary | IndexGrams

definition add_posting :: "'k \<Rightarrow> 't \<Rightarrow> ('k \<times> 't list) list \<Rightarrow> ('k \<times> 't list) list" where
  "add_posting k t m = obj_put k ((case obj_get m k of None \<Rightarrow> [] | Some l \<Rightarrow> l) @ [t]) m"

definition postings :: "('k \<times> 't list) list \<Rightarrow> 'k \<Rightarrow> 't list" where
  "postings m k = (case obj_get m k of None \<Rightarrow> [] | Some l \<Rightarrow> l)"

definition index_deletions :: "('t \<Rightarrow> nat list) \<Rightarrow> 't list \<Rightarrow> (nat list \<times> 't list) list" where
  "index_deletions cps vocabulary = fold (\<lambda>(k, t). add_posting k t) [(k, t). t \<leftarrow> vocabulary, k \<leftarrow> deletionKeys cps t] []"

fun add_grams :: "nat \<Rightarrow> (nat list \<times> 't) list \<Rightarrow> nat \<times> (nat list \<times> 't list) list \<Rightarrow> capacity_error + (nat list \<times> 't list) list" where
  "add_grams limit [] (n, m) = Inr m"
| "add_grams limit ((k, t) # r) (n, m) = (if Suc n > limit then Inl IndexGrams else add_grams limit r (Suc n, add_posting k t m))"

definition index_grams :: "('t \<Rightarrow> nat list) \<Rightarrow> nat \<Rightarrow> 't list \<Rightarrow> capacity_error + (nat list \<times> 't list) list" where
  "index_grams cps limit vocabulary = add_grams limit [(k, t). t \<leftarrow> vocabulary, k \<leftarrow> editGrams cps t] (0, [])"

text \<open>\<^verbatim>\<open>Set.add\<close>, in insertion order.\<close>

definition set_add :: "'t \<Rightarrow> 't list \<Rightarrow> 't list" where
  "set_add t ts = (if t \<in> set ts then ts else ts @ [t])"

text \<open>The visits of one query token: first the deletion keys, then the bigrams; \<open>n\<close> counts over all tokens.\<close>

fun visit_near :: "('t \<Rightarrow> bool) \<Rightarrow> nat \<Rightarrow> 't list \<Rightarrow> nat \<times> 't list \<Rightarrow> capacity_error + nat \<times> 't list" where
  "visit_near ok limit [] (n, acc) = Inr (n, acc)"
| "visit_near ok limit (t # r) (n, acc) = (if Suc n > limit then Inl QueryTokenPostings
     else visit_near ok limit r (Suc n, if ok t then set_add t acc else acc))"

fun visit_vocabulary :: "nat \<Rightarrow> nat \<Rightarrow> 't list \<Rightarrow> nat \<times> 't list \<Rightarrow> capacity_error + nat \<times> 't list" where
  "visit_vocabulary limit maxVocabulary [] (n, acc) = Inr (n, acc)"
| "visit_vocabulary limit maxVocabulary (t # r) (n, acc) = (if Suc n > limit then Inl QueryTokenPostings
     else let acc' = set_add t acc in
       if length acc' > maxVocabulary then Inl QueryVocabulary else visit_vocabulary limit maxVocabulary r (Suc n, acc'))"

definition near_token :: "('t \<Rightarrow> nat list) \<Rightarrow> (nat list \<times> 't list) list \<Rightarrow> (nat list \<times> 't list) list \<Rightarrow> nat \<Rightarrow> nat \<Rightarrow> 't
    \<Rightarrow> nat \<times> 't list \<Rightarrow> capacity_error + nat \<times> 't list" where
  "near_token cps byDeletion byGram limit maxVocabulary t s =
     (case visit_near (withinOneEdit cps t) limit (concat (map (postings byDeletion) (deletionKeys cps t))) s of
        Inl e \<Rightarrow> Inl e
      | Inr (n, matching) \<Rightarrow>
        (case visit_vocabulary limit maxVocabulary (concat (map (postings byGram) (editGrams cps t))) (n, []) of
           Inl e \<Rightarrow> Inl e
         | Inr (n', vocabulary) \<Rightarrow> Inr (n', fold set_add (filter (withinSupportedEdits cps t) vocabulary) matching)))"

fun near_tokens :: "('t \<Rightarrow> nat list) \<Rightarrow> (nat list \<times> 't list) list \<Rightarrow> (nat list \<times> 't list) list \<Rightarrow> nat \<Rightarrow> nat \<Rightarrow> 't list
    \<Rightarrow> nat \<times> 't list \<Rightarrow> capacity_error + nat \<times> 't list" where
  "near_tokens cps byDeletion byGram limit maxVocabulary [] s = Inr s"
| "near_tokens cps byDeletion byGram limit maxVocabulary (t # r) s =
     (case near_token cps byDeletion byGram limit maxVocabulary t s of Inl e \<Rightarrow> Inl e
      | Inr s' \<Rightarrow> near_tokens cps byDeletion byGram limit maxVocabulary r s')"

text \<open>\<^verbatim>\<open>matchingTokens\<close> of a query: its own tokens and all tokens near one of them.\<close>

definition matching_tokens :: "('t \<Rightarrow> nat list) \<Rightarrow> (nat list \<times> 't list) list \<Rightarrow> (nat list \<times> 't list) list \<Rightarrow> nat \<Rightarrow> nat \<Rightarrow> 't list
    \<Rightarrow> capacity_error + nat \<times> 't list" where
  "matching_tokens cps byDeletion byGram limit maxVocabulary tokens =
     near_tokens cps byDeletion byGram limit maxVocabulary (uniq tokens) (0, uniq tokens)"

section \<open>The reference\<close>

text \<open>
  An alignment of two words at a cost: the letters agree, or one is replaced, dropped or inserted,
  or two neighbours are exchanged and not touched again.
\<close>

inductive aligned :: "nat list \<Rightarrow> nat list \<Rightarrow> nat \<Rightarrow> bool" where
  aligned_nil: "aligned [] [] 0"
| aligned_both: "aligned xs ys k \<Longrightarrow> aligned (xs @ [x]) (ys @ [y]) (k + (if x = y then 0 else 1))"
| aligned_drop: "aligned xs ys k \<Longrightarrow> aligned (xs @ [x]) ys (Suc k)"
| aligned_insert: "aligned xs ys k \<Longrightarrow> aligned xs (ys @ [y]) (Suc k)"
| aligned_swap: "aligned xs ys k \<Longrightarrow> aligned (xs @ [x, y]) (ys @ [y, x]) (Suc k)"

text \<open>The recurrence the table computes.\<close>

function osa :: "nat list \<Rightarrow> nat list \<Rightarrow> nat \<Rightarrow> nat \<Rightarrow> nat" where
  "osa a b i 0 = i"
| "osa a b 0 (Suc j) = Suc j"
| "osa a b (Suc i) (Suc j) =
     (let v = min (min (osa a b i (Suc j) + 1) (osa a b (Suc i) j + 1)) (osa a b i j + (if a ! i = b ! j then 0 else 1)) in
      if i > 0 \<and> j > 0 \<and> a ! i = b ! (j - 1) \<and> a ! (i - 1) = b ! j then min v (osa a b (i - 1) (j - 1) + 1) else v)"
  by pat_completeness auto
termination by (relation "measure (\<lambda>(a, b, i, j). i + j)") auto

declare osa.simps [simp del]

lemma osa_edge [simp]: "osa a b i 0 = i" "osa a b 0 j = j"
  by (simp_all add: osa.simps(1)) (cases j; simp add: osa.simps)

text \<open>One step of the recurrence, on the values it looks at.\<close>

definition osa_cell :: "nat \<Rightarrow> nat \<Rightarrow> nat \<Rightarrow> bool \<Rightarrow> nat \<Rightarrow> nat" where
  "osa_cell up left diagonal swapped far = (let v = min (min (up + 1) (left + 1)) diagonal in if swapped then min v (far + 1) else v)"

lemma osa_cell_le: "osa_cell u l d s f \<le> u + 1" "osa_cell u l d s f \<le> l + 1" "osa_cell u l d s f \<le> d" "s \<Longrightarrow> osa_cell u l d s f \<le> f + 1"
  by (auto simp: osa_cell_def Let_def)

lemma osa_cell_one: "osa_cell u l d s f = u + 1 \<or> osa_cell u l d s f = l + 1 \<or> osa_cell u l d s f = d \<or> s \<and> osa_cell u l d s f = f + 1"
  by (auto simp: osa_cell_def Let_def min_def)

lemma osa_is_cell: "osa a b (Suc i) (Suc j) = osa_cell (osa a b i (Suc j)) (osa a b (Suc i) j) (osa a b i j + (if a ! i = b ! j then 0 else 1))
    (i > 0 \<and> j > 0 \<and> a ! i = b ! (j - 1) \<and> a ! (i - 1) = b ! j) (osa a b (i - 1) (j - 1))"
  by (simp only: osa.simps(3) [of a b i j] osa_cell_def Let_def)

lemma osa_step:
  "osa a b (Suc i) (Suc j) \<le> osa a b i (Suc j) + 1" "osa a b (Suc i) (Suc j) \<le> osa a b (Suc i) j + 1"
  "osa a b (Suc i) (Suc j) \<le> osa a b i j + (if a ! i = b ! j then 0 else 1)"
  unfolding osa_is_cell by (rule osa_cell_le)+

lemma osa_swap: "a ! Suc i = b ! j \<Longrightarrow> a ! i = b ! Suc j \<Longrightarrow> osa a b (Suc (Suc i)) (Suc (Suc j)) \<le> osa a b i j + 1"
  using osa_cell_le(4) [of True _ _ _ "osa a b i j"] by (simp add: osa_is_cell [of a b "Suc i" "Suc j"])

lemma osa_cases:
  obtains "osa a b (Suc i) (Suc j) = osa a b i (Suc j) + 1" | "osa a b (Suc i) (Suc j) = osa a b (Suc i) j + 1"
    | "osa a b (Suc i) (Suc j) = osa a b i j + (if a ! i = b ! j then 0 else 1)"
    | p q where "i = Suc p" "j = Suc q" "a ! i = b ! q" "a ! p = b ! j" "osa a b (Suc i) (Suc j) = osa a b p q + 1"
proof -
  from osa_cell_one [of "osa a b i (Suc j)" "osa a b (Suc i) j" "osa a b i j + (if a ! i = b ! j then 0 else 1)"
      "i > 0 \<and> j > 0 \<and> a ! i = b ! (j - 1) \<and> a ! (i - 1) = b ! j" "osa a b (i - 1) (j - 1)"]
  consider "osa a b (Suc i) (Suc j) = osa a b i (Suc j) + 1" | "osa a b (Suc i) (Suc j) = osa a b (Suc i) j + 1"
    | "osa a b (Suc i) (Suc j) = osa a b i j + (if a ! i = b ! j then 0 else 1)"
    | "i > 0" "j > 0" "a ! i = b ! (j - 1)" "a ! (i - 1) = b ! j" "osa a b (Suc i) (Suc j) = osa a b (i - 1) (j - 1) + 1"
    unfolding osa_is_cell by blast
  then show thesis using that(1-3) that(4) [of "i - 1" "j - 1"] by cases simp_all
qed

lemma osa_prefix: "i \<le> length xs \<Longrightarrow> j \<le> length ys \<Longrightarrow> osa (xs @ us) (ys @ vs) i j = osa xs ys i j"
proof (induction "i + j" arbitrary: i j rule: less_induct)
  case less
  show ?case
  proof (cases "i = 0 \<or> j = 0")
    case False
    then obtain p q where ij: "i = Suc p" "j = Suc q" by (metis not0_implies_Suc)
    have "osa (xs @ us) (ys @ vs) p (Suc q) = osa xs ys p (Suc q)" "osa (xs @ us) (ys @ vs) (Suc p) q = osa xs ys (Suc p) q"
      "osa (xs @ us) (ys @ vs) p q = osa xs ys p q" "osa (xs @ us) (ys @ vs) (p - 1) (q - 1) = osa xs ys (p - 1) (q - 1)"
      using less ij by simp_all
    moreover have "(xs @ us) ! p = xs ! p" "(xs @ us) ! (p - 1) = xs ! (p - 1)" "(ys @ vs) ! q = ys ! q" "(ys @ vs) ! (q - 1) = ys ! (q - 1)"
      using less.prems ij by (simp_all add: nth_append less_imp_diff_less)
    ultimately show ?thesis unfolding ij by (simp add: osa_is_cell [of _ _ p q])
  qed auto
qed

text \<open>The recurrence is the cost of some alignment, and of no dearer one than any.\<close>

lemma aligned_drop_all: "aligned xs [] (length xs)"
  by (induction xs rule: rev_induct) (auto intro: aligned_nil aligned_drop)

lemma aligned_insert_all: "aligned [] ys (length ys)"
  by (induction ys rule: rev_induct) (auto intro: aligned_nil aligned_insert)

lemma osa_aligned: "i \<le> length a \<Longrightarrow> j \<le> length b \<Longrightarrow> aligned (take i a) (take j b) (osa a b i j)"
proof (induction "i + j" arbitrary: i j rule: less_induct)
  case less
  show ?case
  proof (cases "i = 0 \<or> j = 0")
    case True
    then show ?thesis using less.prems aligned_drop_all [of "take i a"] aligned_insert_all [of "take j b"] by auto
  next
    case False
    then obtain p q where ij: "i = Suc p" "j = Suc q" by (metis not0_implies_Suc)
    have IH: "aligned (take p a) (take j b) (osa a b p j)" "aligned (take i a) (take q b) (osa a b i q)" "aligned (take p a) (take q b) (osa a b p q)"
      using less ij by simp_all
    have t: "take i a = take p a @ [a ! p]" "take j b = take q b @ [b ! q]"
      using less.prems ij by (simp_all add: take_Suc_conv_app_nth)
    show ?thesis
    proof (cases rule: osa_cases [of a b p q])
      case 1
      with aligned_drop [OF IH(1), of "a ! p"] t ij show ?thesis by simp
    next
      case 2
      with aligned_insert [OF IH(2), of "b ! q"] t ij show ?thesis by simp
    next
      case 3
      with aligned_both [OF IH(3), of "a ! p" "b ! q"] t ij show ?thesis by simp
    next
      case (4 r s)
      have "aligned (take r a) (take s b) (osa a b r s)" using less ij 4(1,2) by simp
      from aligned_swap [OF this, of "a ! r" "a ! p"] 4 t ij less.prems show ?thesis
        by (simp add: take_Suc_conv_app_nth)
    qed
  qed
qed

lemma aligned_osa: "aligned xs ys k \<Longrightarrow> osa xs ys (length xs) (length ys) \<le> k"
proof (induction rule: aligned.induct)
  case (aligned_both xs ys k x y)
  from osa_step(3) [of "xs @ [x]" "ys @ [y]" "length xs" "length ys"] aligned_both.IH show ?case by (simp add: osa_prefix split: if_splits)
next
  case (aligned_drop xs ys k x)
  then show ?case
  proof (cases ys rule: rev_cases)
    case (snoc zs z)
    have "osa (xs @ [x]) (zs @ [z]) (length xs) (Suc (length zs)) = osa xs (zs @ [z]) (length xs) (Suc (length zs))"
      using osa_prefix [of "length xs" xs "Suc (length zs)" "zs @ [z]" "[x]" "[]"] by simp
    with osa_step(1) [of "xs @ [x]" ys "length xs" "length zs"] aligned_drop.IH snoc show ?thesis by simp
  qed simp
next
  case (aligned_insert xs ys k y)
  then show ?case
  proof (cases xs rule: rev_cases)
    case (snoc zs z)
    have "osa (zs @ [z]) (ys @ [y]) (Suc (length zs)) (length ys) = osa (zs @ [z]) ys (Suc (length zs)) (length ys)"
      using osa_prefix [of "Suc (length zs)" "zs @ [z]" "length ys" ys "[]" "[y]"] by simp
    with osa_step(2) [of xs "ys @ [y]" "length zs" "length ys"] aligned_insert.IH snoc show ?thesis by simp
  qed simp
next
  case (aligned_swap xs ys k x y)
  from osa_swap [of "xs @ [x, y]" "length xs" "ys @ [y, x]" "length ys"] aligned_swap.IH show ?case
    by (simp add: osa_prefix nth_append)
qed simp

section \<open>The table\<close>

text \<open>The table is right in the rows above \<open>i\<close>, in its first column, and in row \<open>i\<close> left of \<open>j\<close>.\<close>

definition table_upto :: "nat list \<Rightarrow> nat list \<Rightarrow> nat list list \<Rightarrow> nat \<Rightarrow> nat \<Rightarrow> bool" where
  "table_upto a b rows i j \<longleftrightarrow> length rows = Suc (length a) \<and> (\<forall>r \<in> set rows. length r = Suc (length b))
     \<and> (\<forall>p \<le> length a. \<forall>q \<le> length b. p < i \<or> q = 0 \<or> p = i \<and> q < j \<longrightarrow> rows ! p ! q = osa a b p q)"

lemma table_entry: "table_upto a b rows i j \<Longrightarrow> p \<le> length a \<Longrightarrow> q \<le> length b \<Longrightarrow> p < i \<or> q = 0 \<or> p = i \<and> q < j \<Longrightarrow> rows ! p ! q = osa a b p q"
  unfolding table_upto_def by blast

lemma edit_cell_osa:
  assumes t: "table_upto a b rows i j" and ij: "0 < i" "i \<le> length a" "0 < j" "j \<le> length b"
  shows "edit_cell a b rows i j = osa a b i j"
proof -
  obtain p q where pq: "i = Suc p" "j = Suc q" using ij by (metis gr0_implies_Suc)
  have "rows ! p ! Suc q = osa a b p (Suc q)" "rows ! Suc p ! q = osa a b (Suc p) q" "rows ! p ! q = osa a b p q"
    "rows ! (p - 1) ! (q - 1) = osa a b (p - 1) (q - 1)"
    by (rule table_entry [OF t]; use ij pq in force)+
  moreover have "Suc x - 2 = x - 1" for x by simp
  ultimately show ?thesis unfolding pq by (simp add: edit_cell_def osa_is_cell osa_cell_def Let_def)
qed

lemma table_set:
  assumes t: "table_upto a b rows i j" and ij: "0 < i" "i \<le> length a" "0 < j" "j \<le> length b"
  shows "table_upto a b (rows[i := (rows ! i)[j := edit_cell a b rows i j]]) i (Suc j)"
proof -
  let ?rows = "rows[i := (rows ! i)[j := edit_cell a b rows i j]]"
  have l: "length (rows ! p) = Suc (length b)" "p < length rows" if "p \<le> length a" for p using t that by (simp_all add: table_upto_def)
  have "?rows ! p ! q = osa a b p q" if pq: "p \<le> length a" "q \<le> length b" "p < i \<or> q = 0 \<or> p = i \<and> q < Suc j" for p q
  proof (cases "p = i \<and> q = j")
    case True
    then show ?thesis using l [OF ij(2)] ij(4) edit_cell_osa [OF t ij] by simp
  next
    case False
    then have "?rows ! p ! q = rows ! p ! q" using l [OF ij(2)] by (cases "p = i") auto
    also have "\<dots> = osa a b p q" using False pq ij by (intro table_entry [OF t]) auto
    finally show ?thesis .
  qed
  moreover have "\<forall>r \<in> set ?rows. length r = Suc (length b)"
    using t l [OF ij(2)] by (auto simp: table_upto_def dest!: set_update_subset_insert [THEN subsetD])
  ultimately show ?thesis using t unfolding table_upto_def by simp
qed

lemma fill_row_table:
  assumes "table_upto a b rows i j" "0 < i" "i \<le> length a" "0 < j"
  shows "\<exists>rows' r. fill_row a b k i [j..<Suc (length b)] rows rowMin = (rows', r) \<and> table_upto a b rows' (Suc i) 1"
  using assms
proof (induction "Suc (length b) - j" arbitrary: j rows rowMin)
  case 0
  then have "table_upto a b rows (Suc i) 1" by (auto simp: table_upto_def less_Suc_eq)
  with 0 show ?case by simp
next
  case (Suc d)
  then have j: "j \<le> length b" "d = Suc (length b) - Suc j" by simp_all
  from Suc.hyps(1) [OF j(2) table_set [OF Suc.prems(1-4) j(1)] Suc.prems(2,3)] j(1) show ?case
    by (simp add: upt_conv_Cons Let_def del: upt_Suc)
qed

lemma fill_rows_table:
  assumes "table_upto a b rows i 1" "0 < i" "length a \<le> length b + k"
  shows "\<exists>rows'. fill_rows a b k [i..<Suc (length a)] rows = Some rows' \<and> table_upto a b rows' (max i (Suc (length a))) 1"
  using assms
proof (induction "Suc (length a) - i" arbitrary: i rows)
  case 0
  then show ?case by (auto simp: max_absorb1)
next
  case (Suc d)
  then have i: "i \<le> length a" "d = Suc (length a) - Suc i" by simp_all
  from fill_row_table [OF Suc.prems(1,2) i(1), of k "k + 1"]
  obtain rows' r where r: "fill_row a b k i [1..<Suc (length b)] rows (k + 1) = (rows', r)" "table_upto a b rows' (Suc i) 1" by auto
  from Suc.hyps(1) [OF i(2) r(2)] Suc.prems(3) i(1) r(1) show ?case
    by (simp add: upt_conv_Cons max_def del: upt_Suc)
qed

lemma nth_upto: "q \<le> n \<Longrightarrow> [0..<Suc n] ! q = q"
  by (subst nth_upt) auto

lemma first_rows_table: "table_upto a b (first_rows (length a) (length b)) 1 1"
proof -
  have "first_rows (length a) (length b) ! p = (if p = 0 then [0..<Suc (length b)] else p # replicate (length b) 0)" if "p \<le> length a" for p
    using that by (simp add: first_rows_def nth_upto del: upt_Suc)
  then show ?thesis by (auto simp: table_upto_def first_rows_def less_Suc_eq nth_upto simp del: upt_Suc)
qed

lemma bounded_is_osa:
  assumes "safe_integer (int k)" "\<bar>int (length a) - int (length b)\<bar> \<le> int k"
  shows "boundedEditDistance a b (int k) = Inr (min (osa a b (length a) (length b)) (k + 1))"
proof -
  from assms(2) have "length a \<le> length b + k" by simp
  from fill_rows_table [OF first_rows_table _ this]
  obtain rows where r: "fill_rows a b k [1..<Suc (length a)] (first_rows (length a) (length b)) = Some rows"
    "table_upto a b rows (Suc (length a)) 1" by (auto simp: max_def split: if_splits)
  from table_entry [OF r(2), of "length a" "length b"] r(1) assms show ?thesis
    by (simp add: boundedEditDistance_def Let_def del: upt_Suc)
qed

lemma aligned_length: "aligned xs ys k \<Longrightarrow> \<bar>int (length xs) - int (length ys)\<bar> \<le> int k"
  by (induction rule: aligned.induct) auto

text \<open>C18. 
  The distance is the least cost of an alignment, as far as the bound goes. For every bound the
  code accepts, the result is the least cost if that is within the bound, and the bound plus one
  otherwise: it is at most a number \<open>c\<close> within the bound exactly if the words can be aligned at a
  cost of at most \<open>c\<close>. Neither the shortcut on the lengths nor the early return changes that.
\<close>
theorem bounded_distance_is_alignment_cost:
  assumes "safe_integer (int k)"
  shows "\<exists>d. boundedEditDistance a b (int k) = Inr d \<and> d \<le> k + 1 \<and> (\<forall>c \<le> k. d \<le> c \<longleftrightarrow> (\<exists>n \<le> c. aligned a b n))"
proof (cases "\<bar>int (length a) - int (length b)\<bar> \<le> int k")
  case True
  let ?D = "osa a b (length a) (length b)"
  have "aligned a b ?D" using osa_aligned [of "length a" a "length b" b] by simp
  have "min ?D (k + 1) \<le> c \<longleftrightarrow> (\<exists>n \<le> c. aligned a b n)" if "c \<le> k" for c
  proof
    assume "min ?D (k + 1) \<le> c"
    with that have "?D \<le> c" by simp
    with \<open>aligned a b ?D\<close> show "\<exists>n \<le> c. aligned a b n" by blast
  next
    assume "\<exists>n \<le> c. aligned a b n"
    then have "?D \<le> c" using aligned_osa le_trans by blast
    then show "min ?D (k + 1) \<le> c" by simp
  qed
  with bounded_is_osa [OF assms True] show ?thesis by auto
next
  case False
  then have "boundedEditDistance a b (int k) = Inr (k + 1)" using assms by (simp add: boundedEditDistance_def Let_def)
  moreover have "\<not> aligned a b n" if "n \<le> c" "c \<le> k" for n c using aligned_length [of a b n] that False by auto
  ultimately show ?thesis by auto
qed

section \<open>Single edits\<close>

text \<open>One edit replaces a short middle part: a letter is changed, dropped or inserted, or two neighbours exchanged.\<close>

definition one_edit :: "nat list \<Rightarrow> nat list \<Rightarrow> bool" where
  "one_edit xs ys \<longleftrightarrow> (\<exists>u v p q. xs = u @ p @ v \<and> ys = u @ q @ v
     \<and> (length p \<le> 1 \<and> length q \<le> 1 \<or> (\<exists>x y. p = [x, y] \<and> q = [y, x])))"

lemma one_edit_append: "one_edit xs ys \<Longrightarrow> one_edit (xs @ zs) (ys @ zs)"
  unfolding one_edit_def by (metis append.assoc)

inductive edits :: "nat \<Rightarrow> nat list \<Rightarrow> nat list \<Rightarrow> bool" where
  edits_none: "edits 0 xs xs"
| edits_more: "edits k xs ys \<Longrightarrow> one_edit ys zs \<Longrightarrow> edits (Suc k) xs zs"

inductive_cases edits_SucE: "edits (Suc k) xs zs"
inductive_cases edits_0E: "edits 0 xs ys"

lemma edits_append: "edits k xs ys \<Longrightarrow> edits k (xs @ zs) (ys @ zs)"
  by (induction rule: edits.induct) (auto intro: edits.intros one_edit_append)

lemma one_edit_cases:
  "one_edit (u @ [x]) (u @ [y])" "one_edit (u @ [x]) u" "one_edit u (u @ [y])" "one_edit (u @ [x, y]) (u @ [y, x])"
  unfolding one_edit_def by (rule exI [of _ u], rule exI [of _ "[]"]; force)+

text \<open>An alignment is a sequence of as many single edits.\<close>

lemma aligned_edits: "aligned xs ys k \<Longrightarrow> edits k xs ys"
proof (induction rule: aligned.induct)
  case aligned_nil
  show ?case by (rule edits_none)
next
  case (aligned_both xs ys k x y)
  from edits_append [OF aligned_both.IH, of "[x]"] show ?case
    by (cases "x = y") (auto intro: edits_more one_edit_cases(1))
next
  case (aligned_drop xs ys k x)
  from edits_more [OF edits_append [OF aligned_drop.IH, of "[x]"] one_edit_cases(2)] show ?case .
next
  case (aligned_insert xs ys k y)
  from edits_more [OF aligned_insert.IH one_edit_cases(3)] show ?case .
next
  case (aligned_swap xs ys k x y)
  from edits_more [OF edits_append [OF aligned_swap.IH, of "[x, y]"] one_edit_cases(4)] show ?case .
qed

text \<open>Two words one edit apart share a word that each gives when at most one letter is dropped.\<close>

definition drops :: "nat list \<Rightarrow> nat list set" where
  "drops cs = insert cs ((\<lambda>i. take i cs @ drop (Suc i) cs) ` {..<length cs})"

lemma dropsI: "i < length cs \<Longrightarrow> take i cs @ drop (Suc i) cs \<in> drops cs"
  by (auto simp: drops_def)

lemma drops_mid: "u @ v \<in> drops (u @ [x] @ v)" "u @ v \<in> drops (u @ v)"
  using dropsI [of "length u" "u @ [x] @ v"] by (simp_all add: drops_def)

lemma drops_two: "u @ [y] @ v \<in> drops (u @ [x, y] @ v)" "u @ [y] @ v \<in> drops (u @ [y, x] @ v)"
  using dropsI [of "length u" "u @ [x, y] @ v"] dropsI [of "Suc (length u)" "u @ [y, x] @ v"] by simp_all

lemma one_edit_drops:
  assumes "one_edit xs ys"
  shows "\<exists>w. w \<in> drops xs \<and> w \<in> drops ys"
proof -
  from assms obtain u v p q where e: "xs = u @ p @ v" "ys = u @ q @ v"
    and pq: "length p \<le> 1 \<and> length q \<le> 1 \<or> (\<exists>x y. p = [x, y] \<and> q = [y, x])" unfolding one_edit_def by blast
  from pq show ?thesis
  proof
    assume "length p \<le> 1 \<and> length q \<le> 1"
    then have "(p = [] \<or> (\<exists>x. p = [x])) \<and> (q = [] \<or> (\<exists>y. q = [y]))" by (cases p; cases q) auto
    with e show ?thesis using drops_mid by (intro exI [of _ "u @ v"]) auto
  next
    assume "\<exists>x y. p = [x, y] \<and> q = [y, x]"
    with e show ?thesis using drops_two by blast
  qed
qed

text \<open>The pairs of neighbours of a word; one edit costs at most three of them.\<close>

fun pairs_of :: "nat list \<Rightarrow> (nat \<times> nat) multiset" where
  "pairs_of (x # y # r) = add_mset (x, y) (pairs_of (y # r))"
| "pairs_of [x] = {#}"
| "pairs_of [] = {#}"

lemma pairs_append: "xs \<noteq> [] \<Longrightarrow> pairs_of (xs @ ys) = pairs_of xs + pairs_of (last xs # ys)"
  by (induction xs rule: pairs_of.induct) auto

lemma size_pairs: "size (pairs_of xs) = length xs - 1"
  by (induction xs rule: pairs_of.induct) auto

lemma pairs_middle: "u \<noteq> [] \<Longrightarrow> v \<noteq> [] \<Longrightarrow> pairs_of (u @ p @ v) = pairs_of u + pairs_of (last u # p @ [hd v]) + pairs_of v"
proof -
  assume u: "u \<noteq> []" and v: "v \<noteq> []"
  then obtain z r where z: "v = z # r" by (cases v) auto
  have "pairs_of (last u # p @ v) = pairs_of ((last u # p @ [z]) @ r)" by (simp add: z)
  also have "\<dots> = pairs_of (last u # p @ [z]) + pairs_of v" by (subst pairs_append) (simp_all add: z)
  finally show ?thesis using pairs_append [OF u, of "p @ v"] z by (simp add: add.assoc)
qed

lemma one_edit_pairs:
  assumes "one_edit xs ys"
  shows "size (pairs_of (bounded_chars xs) - pairs_of (bounded_chars ys)) \<le> 3"
proof -
  from assms obtain u v p q where e: "xs = u @ p @ v" "ys = u @ q @ v"
    and pq: "length p \<le> 1 \<and> length q \<le> 1 \<or> (\<exists>x y. p = [x, y] \<and> q = [y, x])" unfolding one_edit_def by blast
  from pq have p: "length p \<le> 2" by auto
  let ?u = "94 # u" and ?v = "v @ [36]"
  have b: "bounded_chars xs = ?u @ p @ ?v" "bounded_chars ys = ?u @ q @ ?v" by (simp_all add: bounded_chars_def e)
  have m: "pairs_of (?u @ w @ ?v) = pairs_of ?u + pairs_of (last ?u # w @ [hd ?v]) + pairs_of ?v" for w
    by (rule pairs_middle) simp_all
  have d: "(U + M + V) - (U + N + V) \<subseteq># M" for U M V N :: "(nat \<times> nat) multiset"
    by (rule mset_subset_eqI) simp
  have "pairs_of (bounded_chars xs) - pairs_of (bounded_chars ys) \<subseteq># pairs_of (last ?u # p @ [hd ?v])"
    unfolding b m by (rule d)
  then have "size (pairs_of (bounded_chars xs) - pairs_of (bounded_chars ys)) \<le> size (pairs_of (last ?u # p @ [hd ?v]))"
    by (rule size_mset_mono)
  also have "\<dots> \<le> 3" using p by (simp add: size_pairs)
  finally show ?thesis .
qed

lemma edits_pairs: "edits k xs ys \<Longrightarrow> size (pairs_of (bounded_chars xs) - pairs_of (bounded_chars ys)) \<le> 3 * k"
proof (induction rule: edits.induct)
  case (edits_more k xs ys zs)
  let ?P = "\<lambda>xs. pairs_of (bounded_chars xs)"
  have "?P xs - ?P zs \<subseteq># (?P xs - ?P ys) + (?P ys - ?P zs)"
    by (rule mset_subset_eqI) (simp add: le_diff_conv)
  then have "size (?P xs - ?P zs) \<le> size (?P xs - ?P ys) + size (?P ys - ?P zs)"
    by (metis size_mset_mono size_union)
  with edits_more.IH one_edit_pairs [OF edits_more.hyps(2)] show ?case by simp
qed simp

section \<open>Retrieval loses no near token\<close>

lemma set_deletionKeys:
  "set (deletionKeys cps t) = (if length (cps t) < MIN_EDIT_TOKEN \<or> length (cps t) > MAX_EDIT_TOKEN then {} else drops (cps t))"
  by (auto simp: deletionKeys_def Let_def set_uniq_from drops_def lessThan_atLeast0)

lemma pairs_nth: "(x, y) \<in># pairs_of cs \<longleftrightarrow> (\<exists>i < length cs - 1. x = cs ! i \<and> y = cs ! Suc i)"
proof (induction cs rule: pairs_of.induct)
  case (1 a b r)
  have "(\<exists>i < length (a # b # r) - 1. x = (a # b # r) ! i \<and> y = (a # b # r) ! Suc i)
      \<longleftrightarrow> x = a \<and> y = b \<or> (\<exists>i < length (b # r) - 1. x = (b # r) ! i \<and> y = (b # r) ! Suc i)"
    by (auto simp: less_Suc_eq_0_disj)
  with 1 show ?case by auto
qed simp_all

lemma set_editGrams:
  "set (editGrams cps t) = (if supportedEditLimit cps t < 2 then {} else {[x, y] | x y. (x, y) \<in># pairs_of (bounded_chars (cps t))})"
  by (auto simp: editGrams_def Let_def set_uniq_from pairs_nth)

lemma limit_cases: "supportedEditLimit cps t \<le> 2"
  "supportedEditLimit cps t \<ge> 1 \<longleftrightarrow> MIN_EDIT_TOKEN \<le> length (cps t) \<and> length (cps t) \<le> MAX_EDIT_TOKEN"
  "supportedEditLimit cps t = 2 \<Longrightarrow> 6 \<le> length (cps t)"
  by (auto simp: supportedEditLimit_def Let_def MIN_TWO_EDIT_TOKEN_def MIN_EDIT_TOKEN_def split: if_splits)

lemma bounded_le: "k \<le> 2 \<Longrightarrow> (case boundedEditDistance a b (int k) of Inr d \<Rightarrow> d \<le> k | Inl _ \<Rightarrow> False) \<longleftrightarrow> (\<exists>n \<le> k. aligned a b n)"
proof -
  assume "k \<le> 2"
  then have "safe_integer (int k)" by (simp add: safe_integer_def)
  show ?thesis
  proof (cases "\<bar>int (length a) - int (length b)\<bar> \<le> int k")
    case True
    have "(\<exists>n \<le> k. aligned a b n) \<longleftrightarrow> osa a b (length a) (length b) \<le> k"
      using aligned_osa [of a b] osa_aligned [of "length a" a "length b" b] by (auto intro: le_trans)
    with bounded_is_osa [OF \<open>safe_integer (int k)\<close> True] show ?thesis by auto
  next
    case False
    have "\<not> aligned a b n" if "n \<le> k" for n using aligned_length [of a b n] that False by auto
    with False \<open>safe_integer (int k)\<close> show ?thesis by (simp add: boundedEditDistance_def Let_def)
  qed
qed

lemma supported_iff: "withinSupportedEdits cps l r \<longleftrightarrow> cps l = cps r
    \<or> (let k = min (supportedEditLimit cps l) (supportedEditLimit cps r) in k > 0 \<and> (\<exists>n \<le> k. aligned (cps l) (cps r) n))"
  using limit_cases(1) [of cps l] limit_cases(1) [of cps r]
  by (simp add: withinSupportedEdits_def Let_def bounded_le)

lemma one_iff: "withinOneEdit cps l r \<longleftrightarrow> cps l = cps r
    \<or> supportedEditLimit cps l \<ge> 1 \<and> supportedEditLimit cps r \<ge> 1 \<and> (\<exists>n \<le> 1. aligned (cps l) (cps r) n)"
  using bounded_le [of 1 "cps l" "cps r"] by (simp add: withinOneEdit_def)

lemma one_is_supported: "withinOneEdit cps l r \<Longrightarrow> withinSupportedEdits cps l r"
  by (auto simp: one_iff supported_iff Let_def min_def intro: le_trans)

text \<open>Two different near tokens share a deletion key, or both allow two edits and share a bigram.\<close>

lemma near_shares_key:
  assumes s: "withinSupportedEdits cps l r" and ne: "cps l \<noteq> cps r"
  shows "withinOneEdit cps l r \<and> (\<exists>k. k \<in> set (deletionKeys cps l) \<and> k \<in> set (deletionKeys cps r))
    \<or> (\<exists>g. g \<in> set (editGrams cps l) \<and> g \<in> set (editGrams cps r))"
proof -
  let ?k = "min (supportedEditLimit cps l) (supportedEditLimit cps r)"
  from s ne obtain n where n: "?k > 0" "n \<le> ?k" "aligned (cps l) (cps r) n" by (auto simp: supported_iff Let_def)
  have e: "edits n (cps l) (cps r)" using n(3) by (rule aligned_edits)
  have k2: "?k \<le> 2" using limit_cases(1) [of cps l] by simp
  show ?thesis
  proof (cases "n \<le> 1")
    case True
    have "n \<noteq> 0" using e ne edits_0E by metis
    with True have "n = Suc 0" by simp
    with e have "one_edit (cps l) (cps r)" by (auto elim!: edits_SucE edits_0E)
    moreover have "withinOneEdit cps l r" using n True by (auto simp: one_iff)
    ultimately show ?thesis using n(1) one_edit_drops limit_cases(2) [of cps] by (simp add: set_deletionKeys Suc_le_eq not_less)
  next
    case False
    with n(2) k2 have two: "n = 2" "supportedEditLimit cps l = 2" "supportedEditLimit cps r = 2"
      using limit_cases(1) [of cps l] limit_cases(1) [of cps r] by auto
    let ?L = "pairs_of (bounded_chars (cps l))" and ?R = "pairs_of (bounded_chars (cps r))"
    have "size (?L - ?R) \<le> 6" using edits_pairs [OF e] two(1) by simp
    moreover have "7 \<le> size ?L" using limit_cases(3) [OF two(2)] by (simp add: size_pairs bounded_chars_def)
    ultimately have "?L - ?R \<noteq> ?L" by auto
    then have "?L \<inter># ?R \<noteq> {#}" by (metis diff_intersect_left_idem diff_empty)
    then obtain x y where "(x, y) \<in># ?L" "(x, y) \<in># ?R" by (metis multiset_nonemptyE old.prod.exhaust Int_iff set_mset_inter)
    then show ?thesis using two(2,3) by (auto simp: set_editGrams)
  qed
qed

text \<open>What the indexes hold and what the visits collect.\<close>

lemma postings_add: "set (postings (add_posting k t m) k') = set (postings m k') \<union> (if k' = k then {t} else {})"
  by (auto simp: postings_def add_posting_def obj_simps split: option.splits)

lemma postings_empty [simp]: "postings [] k = []"
  by (simp add: postings_def)

lemma postings_fold: "set (postings (fold (\<lambda>(k, t). add_posting k t) kts m) k) = set (postings m k) \<union> {t. (k, t) \<in> set kts}"
  by (induction kts arbitrary: m) (auto simp: postings_add split: if_splits)

lemma postings_deletions: "set (postings (index_deletions cps vocabulary) k) = {t \<in> set vocabulary. k \<in> set (deletionKeys cps t)}"
  by (auto simp: index_deletions_def postings_fold)

lemma add_grams_fold: "add_grams limit kts (n, m) = Inr m' \<Longrightarrow> m' = fold (\<lambda>(k, t). add_posting k t) kts m"
  by (induction kts arbitrary: n m) (auto split: if_splits)

lemma postings_grams: "index_grams cps limit vocabulary = Inr m \<Longrightarrow> set (postings m k) = {t \<in> set vocabulary. k \<in> set (editGrams cps t)}"
  unfolding index_grams_def by (drule add_grams_fold) (auto simp: postings_fold)

lemma set_set_add [simp]: "set (set_add t ts) = insert t (set ts)"
  by (auto simp: set_add_def)

lemma set_fold_add: "set (fold set_add ts acc) = set ts \<union> set acc"
  by (induction ts arbitrary: acc) auto

lemma visit_near_set: "visit_near ok limit ts (n, acc) = Inr (n', acc') \<Longrightarrow> set acc' = set acc \<union> {t \<in> set ts. ok t}"
  by (induction ts arbitrary: n acc) (auto split: if_splits)

lemma visit_vocabulary_set: "visit_vocabulary limit mx ts (n, acc) = Inr (n', acc') \<Longrightarrow> set acc' = set acc \<union> set ts"
  by (induction ts arbitrary: n acc) (auto simp: Let_def split: if_splits)

lemma near_token_set:
  assumes "near_token cps D G limit mx q (n, acc) = Inr (n', acc')"
  shows "set acc' = set acc \<union> {t. withinOneEdit cps q t \<and> (\<exists>k \<in> set (deletionKeys cps q). t \<in> set (postings D k))}
    \<union> {t. withinSupportedEdits cps q t \<and> (\<exists>g \<in> set (editGrams cps q). t \<in> set (postings G g))}"
proof -
  from assms obtain m acc1 voc where v: "visit_near (withinOneEdit cps q) limit (concat (map (postings D) (deletionKeys cps q))) (n, acc) = Inr (m, acc1)"
    and w: "visit_vocabulary limit mx (concat (map (postings G) (editGrams cps q))) (m, []) = Inr (n', voc)"
    and a: "acc' = fold set_add (filter (withinSupportedEdits cps q) voc) acc1"
    by (auto simp: near_token_def split: sum.splits)
  show ?thesis unfolding a set_fold_add using visit_near_set [OF v] visit_vocabulary_set [OF w] by auto
qed

lemma near_tokens_set:
  assumes "\<And>k. set (postings D k) = {t \<in> V. k \<in> set (deletionKeys cps t)}" "\<And>g. set (postings G g) = {t \<in> V. g \<in> set (editGrams cps t)}"
    and "near_tokens cps D G limit mx qs (n, acc) = Inr (n', acc')"
  shows "set acc' = set acc \<union> {t \<in> V. \<exists>q \<in> set qs. withinOneEdit cps q t \<and> (\<exists>k. k \<in> set (deletionKeys cps q) \<and> k \<in> set (deletionKeys cps t))
      \<or> withinSupportedEdits cps q t \<and> (\<exists>g. g \<in> set (editGrams cps q) \<and> g \<in> set (editGrams cps t))}"
  using assms(3)
proof (induction qs arbitrary: n acc)
  case (Cons q qs)
  then obtain m acc1 where q: "near_token cps D G limit mx q (n, acc) = Inr (m, acc1)"
    and qs: "near_tokens cps D G limit mx qs (m, acc1) = Inr (n', acc')" by (auto split: sum.splits)
  from Cons.IH [OF qs] near_token_set [OF q] show ?case by (auto simp: assms(1,2))
qed simp

text \<open>C19. 
  The blocking indexes are exact. If no capacity limit is exceeded, the tokens a query is matched
  against are its own tokens and precisely the tokens of the vocabulary within the supported edits
  of one of them: the deletion keys and the bigrams retrieve every one of them, and the distance
  check lets no other through. Different tokens are assumed to stay different when composed.
\<close>
theorem blocking_indexes_are_exact:
  assumes "inj_on cps (set vocabulary \<union> set tokens)" "index_grams cps gramLimit vocabulary = Inr byGram"
    and "matching_tokens cps (index_deletions cps vocabulary) byGram limit maxVocabulary tokens = Inr (n, matching)"
  shows "set matching = set tokens \<union> {t \<in> set vocabulary. \<exists>q \<in> set tokens. withinSupportedEdits cps q t}"
proof -
  have m: "set matching = set tokens \<union> {t \<in> set vocabulary. \<exists>q \<in> set tokens.
      withinOneEdit cps q t \<and> (\<exists>k. k \<in> set (deletionKeys cps q) \<and> k \<in> set (deletionKeys cps t))
      \<or> withinSupportedEdits cps q t \<and> (\<exists>g. g \<in> set (editGrams cps q) \<and> g \<in> set (editGrams cps t))}"
    using near_tokens_set [OF postings_deletions postings_grams [OF assms(2)], of limit maxVocabulary "uniq tokens" 0 "uniq tokens"] assms(3)
    by (simp add: matching_tokens_def set_uniq_from)
  have r: "t \<in> set matching" if t: "t \<in> set vocabulary" "q \<in> set tokens" "withinSupportedEdits cps q t" for q t
  proof (cases "cps q = cps t")
    case True
    then have "q = t" using assms(1) t(1,2) by (auto dest: inj_onD)
    with m t(2) show ?thesis by simp
  next
    case False
    from near_shares_key [OF t(3) False] m t show ?thesis by blast
  qed
  have tm: "set tokens \<subseteq> set matching" unfolding m by blast
  show ?thesis
  proof (rule equalityI)
    show "set matching \<subseteq> set tokens \<union> {t \<in> set vocabulary. \<exists>q \<in> set tokens. withinSupportedEdits cps q t}"
      unfolding m using one_is_supported by fast
    show "set tokens \<union> {t \<in> set vocabulary. \<exists>q \<in> set tokens. withinSupportedEdits cps q t} \<subseteq> set matching"
      using r tm by blast
  qed
qed

section \<open>An example\<close>

text \<open>Words as their own code points; the second is the first with two letters exchanged and one changed.\<close>

abbreviation first_word :: "nat list" where
  "first_word \<equiv> [3, 4, 5, 6, 7, 8]"

abbreviation second_word :: "nat list" where
  "second_word \<equiv> [4, 3, 5, 6, 7, 9]"

lemma sample_keys:
  "deletionKeys (\<lambda>w. w) first_word = [first_word, [4, 5, 6, 7, 8], [3, 5, 6, 7, 8], [3, 4, 6, 7, 8], [3, 4, 5, 7, 8], [3, 4, 5, 6, 8], [3, 4, 5, 6, 7]]"
  "deletionKeys (\<lambda>w. w) second_word = [second_word, [3, 5, 6, 7, 9], [4, 5, 6, 7, 9], [4, 3, 6, 7, 9], [4, 3, 5, 7, 9], [4, 3, 5, 6, 9], [4, 3, 5, 6, 7]]"
  "editGrams (\<lambda>w. w) first_word = [[94, 3], [3, 4], [4, 5], [5, 6], [6, 7], [7, 8], [8, 36]]"
  "editGrams (\<lambda>w. w) second_word = [[94, 4], [4, 3], [3, 5], [5, 6], [6, 7], [7, 9], [9, 36]]"
  by code_simp+

lemma sample_near: "withinOneEdit (\<lambda>w. w) first_word first_word" "withinSupportedEdits (\<lambda>w. w) first_word first_word"
  "withinSupportedEdits (\<lambda>w. w) first_word second_word"
  by code_simp+

theorem bounded_distance_is_alignment_cost_witness:
  "boundedEditDistance [3, 4, 5, 6, 7, 8] [4, 3, 5, 6, 7, 9] (int 2) = Inr 2
    \<and> (\<exists>n \<le> 2. aligned [3, 4, 5, 6, 7, 8] [4, 3, 5, 6, 7, 9] n)"
proof -
  have d: "boundedEditDistance [3, 4, 5, 6, 7, 8] [4, 3, 5, 6, 7, 9] (int 2) = Inr 2" by code_simp
  have "safe_integer (int 2)" by (simp add: safe_integer_def)
  from bounded_distance_is_alignment_cost [OF this, of "[3, 4, 5, 6, 7, 8]" "[4, 3, 5, 6, 7, 9]"] d show ?thesis by auto
qed

lemma sample_match: "\<exists>G n. index_grams (\<lambda>w. w) 100 [first_word, second_word] = Inr G
    \<and> matching_tokens (\<lambda>w. w) (index_deletions (\<lambda>w. w) [first_word, second_word]) G 100 100 [first_word] = Inr (n, [first_word, second_word])"
  by (simp add: index_grams_def index_deletions_def sample_keys add_posting_def matching_tokens_def near_token_def postings_def sample_near
      set_add_def Let_def)

theorem blocking_indexes_are_exact_witness:
  "set [first_word, second_word] = set [first_word] \<union> {t \<in> set [first_word, second_word]. \<exists>q \<in> set [first_word]. withinSupportedEdits (\<lambda>w. w) q t}"
proof -
  obtain G n where r: "index_grams (\<lambda>w. w) 100 [first_word, second_word] = Inr G"
    "matching_tokens (\<lambda>w. w) (index_deletions (\<lambda>w. w) [first_word, second_word]) G 100 100 [first_word] = Inr (n, [first_word, second_word])"
    using sample_match by blast
  from blocking_indexes_are_exact [OF inj_on_id2 r] show ?thesis .
qed

end
