(* ===== verification/Spec2Isabelle.thy ===== *)
theory Spec2Isabelle
  imports Worker Evidence Processing Issuance_Delivery Issuance_Budget Edit_Distance
begin

text \<open>
  \<^bold>\<open>The program.\<close> Proofmark issues compliance marks: an issuer checks a person, keeps the evidence in an
  encrypted vault, writes the mark on a source chain, publishes a Merkle root of all marks in epochs, and a relay
  worker carries the source events to a hub chain, where contracts read them. Everything here is a translation of
  the TypeScript of \<^verbatim>\<open>src/pipeline\<close>, \<^verbatim>\<open>src/worker\<close> and \<^verbatim>\<open>src/aml\<close> that keeps this state and decides on it. The parts
  and how they depend on each other:

  \<^item> \<^bold>\<open>Data.\<close> \<open>Attrs\<close> is the packed word of a mark, its method bitmap and the policy a consumer asks for (\<^verbatim>\<open>attrs.ts\<close>,
    \<^verbatim>\<open>methods.ts\<close>, \<^verbatim>\<open>policy.ts\<close>), with machine words at their width. \<open>Canonical\<close> is the serialisation that all digests
    are taken over (\<^verbatim>\<open>canonical.ts\<close>), with the member order of JavaScript. \<open>Evidence\<close> is the hash chain of the steps of a
    check, the Merkle tree over claims and the selective disclosure (\<^verbatim>\<open>evidence.ts\<close>, \<^verbatim>\<open>merkle.ts\<close>, \<^verbatim>\<open>claims.ts\<close>).
    \<open>Roster\<close> is the sorted tree of an epoch with its proofs of membership and of absence (\<^verbatim>\<open>roster.ts\<close>).
  \<^item> \<^bold>\<open>Policies.\<close> \<open>Retention\<close> and \<open>Processing\<close> are the validators of two policy documents and what
    is derived from them (\<^verbatim>\<open>retention-policy.ts\<close>, \<^verbatim>\<open>privacy-processing-policy.ts\<close>): deadlines, the check of a
    deletion and authorisations. A validator returns the first error in the order of the code.
  \<^item> \<^bold>\<open>Vault.\<close> \<open>Vault\<close> is the data of \<^verbatim>\<open>vault.ts\<close> with every operation on it: records, controls, two-person deletion, purge, the
    outbox of revocations and the recovery evidence. \<open>Vault_Storage\<close> is its file: the envelope, the lock, the write path
    of \<^verbatim>\<open>vault-atomic.ts\<close> with each file operation that can fail, key rotation, backup and restore.
    \<open>Revocation\<close> is what was observed of a revocation on the two chains (\<^verbatim>\<open>revocation-check.ts\<close>,
    \<^verbatim>\<open>revocation-observation.ts\<close>), which the vault stores.
  \<^item> \<^bold>\<open>Issuance.\<close> \<open>Issuance_Journal\<close> is the Redis script with its client that keeps one entry per request and one gate per signer
    (\<^verbatim>\<open>issuance-journal.ts\<close>); \<open>Issuance_Delivery\<close> is the step that takes a request from the vault over the source chain to
    the hub (\<^verbatim>\<open>issuance-delivery.ts\<close>, with the sink of \<^verbatim>\<open>issuance-evidence.ts\<close> on the vault); \<open>Issuance_Budget\<close> is the daily
    gas ledger (\<^verbatim>\<open>issuance-budget.ts\<close>).
  \<^item> \<^bold>\<open>Relay.\<close> \<open>Worker_Store\<close> is the state file of the worker (\<^verbatim>\<open>store.ts\<close>). \<open>Source_Scan\<close> finds work (\<^verbatim>\<open>source-events.ts\<close>,
    \<^verbatim>\<open>source-scan.ts\<close>), \<open>Relay\<close> sends one transaction at a time (\<^verbatim>\<open>relay.ts\<close>), \<open>Recovery\<close> audits the signer's
    history on the hub (\<^verbatim>\<open>recovery.ts\<close>) and \<open>Worker\<close> processes a job (\<^verbatim>\<open>worker.ts\<close>, \<^verbatim>\<open>proof.ts\<close>, \<^verbatim>\<open>pool.ts\<close>, \<^verbatim>\<open>retry.ts\<close>).
    \<open>Worker_World\<close> is their common world: other tasks may use the store at every \<^verbatim>\<open>await\<close>.
  \<^item> \<^bold>\<open>Screening.\<close> \<open>Edit_Distance\<close> is the bounded edit distance with the deletion and bigram indexes (\<^verbatim>\<open>edit-distance.ts\<close>,
    \<^verbatim>\<open>match.ts\<close>); \<open>Aml_Types\<close> is the subject that is screened.

  \<^bold>\<open>How code is represented.\<close> A class or object type is a record, a union of strings or tags a datatype or the strings
  themselves, an integer-valued \<^verbatim>\<open>number\<close> an \<open>int\<close> with \<open>safe_integer\<close> where the code tests it, a \<^verbatim>\<open>bigint\<close> that is packed a
  word. An object used as a dictionary is an association list in insertion order (\<open>Prelude\<close>). Code that throws returns
  \<open>error + 'a\<close>; asynchronous code is in the state-and-exception monad of \<open>Prelude\<close> (\<open>seq\<close>, \<open>throw\<close>, \<open>catch\<close>), whose Hoare
  triples carry the proofs about the worker. What the surroundings may do (other tasks and processes, failing file
  operations, lost requests and lost replies, crashes, time) is an argument: a schedule, a script of answers indexed by
  a tick, or a step of an \<open>inductive\<close> relation. A theorem that speaks of every reachable state quantifies over all of these.

  \<^bold>\<open>Interfaces.\<close> \<open>inductive_invariant\<close> carries every invariant from one step to all reachable states; it is interpreted on the
  worker's store, the pool, the vault, the issuance journal and the gas budget. \<open>forward_simulation\<close>
  states that the vault's file with several processes refines the vault's data. \<open>relay_transport\<close> is the contract of a
  transport towards the sender; it is interpreted on the EVM transport, alone and with the worker's guards.

  \<^bold>\<open>What is shown.\<close> Safety of effects that cannot be undone: nothing is broadcast by the worker or
  the issuer that is not on disk first, and what was broadcast is settled by its own receipt. Progress: a relay whose
  receipt is final is settled by one step of the sender, whatever the other tasks do that leaves it in place.
  Conservation: records leave the vault only by a deletion that was allowed at that moment and never return; a signed
  revocation is kept; no transaction of the issuer is forgotten while its key lives; budgets are bounded in every
  interleaving. Refinement: concurrent processes with failing files behave as a sequence of atomic operations on the
  data; a backup restores the data. Exactness of the proofs of the roster, of disclosure and of the distance and its
  indexes; round trips of the packed word; termination of the lock wait; and the error behaviour that a caller relies
  on. Each property with hypotheses is applied to a concrete run at the end of its theory (section \<open>An
  example\<close>), evaluated from the definitions.

  \<^bold>\<open>Bounds and fuel.\<close> No loop is cut by fuel. Loops that are not structural recursions have a
  measure; the one loop that may run for ever, the wait for the lock of the vault, is \<open>partial_function
  (option)\<close> with a theorem that it returns. Limits of the code (attempts, starts, journal capacity, window
  sizes, gas) are its own constants.

  \<^bold>\<open>Parameters.\<close> Hash functions, AES-GCM, HMAC, the ABI and RLP coders of ethers, Unicode normalisation and collation, random
  values, clocks, RPC nodes and the issuer's providers are arguments of the definitions. Where a property relies on them
  the hypothesis is named: that opening what was sealed gives it back, that a digest is injective on what occurs, that an
  encoder is. The examples instantiate them with concrete functions.

  \<^bold>\<open>Not modelled.\<close> Texts of error messages beyond the code that callers compare; logging. The web application and the
  command-line programs (\<^verbatim>\<open>src/web\<close>, \<^verbatim>\<open>src/script\<close>) arrange calls of the parts above and print. The adapters of
  providers (\<^verbatim>\<open>adapters\<close>, \<^verbatim>\<open>providers\<close>, \<^verbatim>\<open>vendor-http.ts\<close>) parse foreign answers. The name scores of \<^verbatim>\<open>aml\<close> are
  floating-point; its ingestion, romanisation and evaluation are tables and measurement. Monitors, health probes, reports of
  evidence and of unit costs read state and format it. The contracts and the circuits are other languages.
\<close>

end
